(* ===== verification/GoPrelude.thy ===== *)
theory GoPrelude
  imports Main "HOL-Library.List_Lexorder" "HOL-Library.Char_ord"
begin

text \<open>
  Shared ground of the development: Go strings and byte slices as lists of bytes
  (\<^typ>\<open>string\<close>), the functions of Go's \<^verbatim>\<open>strings\<close>, \<^verbatim>\<open>bytes\<close> and
  \<^verbatim>\<open>strconv\<close> packages that the SDK calls (\<open>HasPrefix\<close>, \<open>TrimPrefix\<close>,
  \<open>TrimSpace\<close>, \<open>Index\<close>, decimal printing, the \<open>%q\<close> verb), and Go's
  \<^verbatim>\<open>map[string]T\<close> as association lists sorted by key.
\<close>

type_synonym bytes = string

named_theorems gostr \<open>evaluation rules for Go strings\<close>

named_theorems gomap \<open>rules for Go maps as sorted association lists\<close>

section \<open>Prefixes\<close>

definition HasPrefix :: "string \<Rightarrow> string \<Rightarrow> bool" where
  "HasPrefix p s \<longleftrightarrow> take (length p) s = p"

definition TrimPrefix :: "string \<Rightarrow> string \<Rightarrow> string" where
  "TrimPrefix p s = (if HasPrefix p s then drop (length p) s else s)"

lemma HasPrefix_iff: "HasPrefix p s \<longleftrightarrow> (\<exists>t. s = p @ t)"
  unfolding HasPrefix_def by (metis append_eq_conv_conj append_take_drop_id)

lemma HasPrefix_append [simp, gostr]: "HasPrefix p (p @ t)"
  by (simp add: HasPrefix_def)

lemma HasPrefix_Nil [simp, gostr]: "HasPrefix [] s" "HasPrefix (c # p) [] \<longleftrightarrow> False"
  by (simp_all add: HasPrefix_def)

lemma HasPrefix_Cons [simp, gostr]: "HasPrefix (c # p) (d # s) \<longleftrightarrow> c = d \<and> HasPrefix p s"
  by (auto simp: HasPrefix_def)

lemma HasPrefix_length: "HasPrefix p s \<Longrightarrow> length p \<le> length s"
  by (auto simp: HasPrefix_iff)

lemma HasPrefix_trans: "HasPrefix p s \<Longrightarrow> HasPrefix s t \<Longrightarrow> HasPrefix p t"
  by (auto simp: HasPrefix_iff)

lemma TrimPrefix_append [simp, gostr]: "TrimPrefix p (p @ t) = t"
  by (simp add: TrimPrefix_def)

lemma TrimPrefix_length: "length (TrimPrefix p s) \<le> length s"
  by (simp add: TrimPrefix_def)

section \<open>White space\<close>

text \<open>
  The UTF-8 encodings of the runes for which Go's \<open>unicode.IsSpace\<close> is true:
  tab, line feed, vertical tab, form feed, carriage return, space, U+0085, U+00A0,
  U+1680, U+2000 to U+200A, U+2028, U+2029, U+202F, U+205F and U+3000.
\<close>

definition space_runes :: "string list" where
  "space_runes =
     [[CHR 0x20], [CHR 0x09], [CHR 0x0A], [CHR 0x0B], [CHR 0x0C], [CHR 0x0D],
      [CHR 0xC2, CHR 0x85], [CHR 0xC2, CHR 0xA0], [CHR 0xE1, CHR 0x9A, CHR 0x80],
      [CHR 0xE2, CHR 0x80, CHR 0x80], [CHR 0xE2, CHR 0x80, CHR 0x81],
      [CHR 0xE2, CHR 0x80, CHR 0x82], [CHR 0xE2, CHR 0x80, CHR 0x83],
      [CHR 0xE2, CHR 0x80, CHR 0x84], [CHR 0xE2, CHR 0x80, CHR 0x85],
      [CHR 0xE2, CHR 0x80, CHR 0x86], [CHR 0xE2, CHR 0x80, CHR 0x87],
      [CHR 0xE2, CHR 0x80, CHR 0x88], [CHR 0xE2, CHR 0x80, CHR 0x89],
      [CHR 0xE2, CHR 0x80, CHR 0x8A], [CHR 0xE2, CHR 0x80, CHR 0xA8],
      [CHR 0xE2, CHR 0x80, CHR 0xA9], [CHR 0xE2, CHR 0x80, CHR 0xAF],
      [CHR 0xE2, CHR 0x81, CHR 0x9F], [CHR 0xE3, CHR 0x80, CHR 0x80]]"

definition lead_space :: "string list \<Rightarrow> string \<Rightarrow> nat" where
  "lead_space ws s = (case find (\<lambda>w. HasPrefix w s) ws of None \<Rightarrow> 0 | Some w \<Rightarrow> length w)"

lemma lead_space_Nil [simp]: "[] \<notin> set ws \<Longrightarrow> lead_space ws [] = 0"
  by (auto simp: lead_space_def find_Some_iff HasPrefix_def split: option.splits)

lemma lead_space_le: "lead_space ws s \<le> length s"
  by (auto simp: lead_space_def find_Some_iff dest: HasPrefix_length split: option.splits)

lemma lead_space_0_iff:
  assumes "[] \<notin> set ws"
  shows "lead_space ws s = 0 \<longleftrightarrow> (\<forall>w\<in>set ws. \<not> HasPrefix w s)"
proof (cases "find (\<lambda>w. HasPrefix w s) ws")
  case None
  then have "lead_space ws s = 0" by (simp add: lead_space_def)
  with None show ?thesis by (simp add: find_None_iff)
next
  case (Some w)
  then have "w \<in> set ws" and "HasPrefix w s"
    by (auto simp: find_Some_iff)
  with Some assms show ?thesis by (auto simp: lead_space_def)
qed

function trim_left :: "string list \<Rightarrow> string \<Rightarrow> string" where
  "trim_left ws s =
     (if lead_space ws s = 0 then s else trim_left ws (drop (lead_space ws s) s))"
  by pat_completeness auto
termination
proof (relation "measure (\<lambda>(ws, s). length s)")
  fix ws s
  assume "lead_space ws s \<noteq> 0"
  then show "((ws, drop (lead_space ws s) s), ws, s) \<in> measure (\<lambda>(ws, s). length s)"
    using lead_space_le [of ws s] by auto
qed simp

declare trim_left.simps [simp del]

lemma trim_left_id [gostr]: "lead_space ws s = 0 \<Longrightarrow> trim_left ws s = s"
  by (subst trim_left.simps) simp

lemma lead_space_trim_left: "lead_space ws (trim_left ws s) = 0"
  by (induction ws s rule: trim_left.induct) (metis trim_left.simps)

lemma trim_left_suffix: "\<exists>p. s = p @ trim_left ws s"
proof (induction ws s rule: trim_left.induct)
  case (1 ws s)
  show ?case
  proof (cases "lead_space ws s = 0")
    case True
    then show ?thesis by (simp add: trim_left_id)
  next
    case False
    with 1 obtain p where "drop (lead_space ws s) s = p @ trim_left ws (drop (lead_space ws s) s)"
      by blast
    then have "s = (take (lead_space ws s) s @ p) @ trim_left ws (drop (lead_space ws s) s)"
      by (metis append.assoc append_take_drop_id)
    with False show ?thesis by (metis trim_left.simps)
  qed
qed

text \<open>\<open>strings.TrimSpace\<close> and \<open>bytes.TrimSpace\<close>.\<close>

definition TrimSpace :: "string \<Rightarrow> string" where
  "TrimSpace s =
     rev (trim_left (map rev space_runes) (rev (trim_left space_runes s)))"

lemma space_runes_nonempty [simp]: "[] \<notin> set space_runes" "[] \<notin> set (map rev space_runes)"
  by (auto simp: space_runes_def)

lemma lead_space_prefix:
  assumes "[] \<notin> set ws" and "lead_space ws s = 0" and "HasPrefix p s"
  shows "lead_space ws p = 0"
  using assms by (auto simp: lead_space_0_iff dest: HasPrefix_trans)

lemma TrimSpace_ends:
  "lead_space space_runes (TrimSpace s) = 0"
  "lead_space (map rev space_runes) (rev (TrimSpace s)) = 0"
proof -
  let ?t = "trim_left space_runes s"
  obtain p where "rev ?t = p @ trim_left (map rev space_runes) (rev ?t)"
    using trim_left_suffix by blast
  then have "?t = TrimSpace s @ rev p"
    by (metis TrimSpace_def rev_append rev_rev_ident)
  then have "HasPrefix (TrimSpace s) ?t" by (metis HasPrefix_append)
  then show "lead_space space_runes (TrimSpace s) = 0"
    by (rule lead_space_prefix [OF space_runes_nonempty(1) lead_space_trim_left])
  show "lead_space (map rev space_runes) (rev (TrimSpace s)) = 0"
    by (simp add: TrimSpace_def lead_space_trim_left)
qed

lemma TrimSpace_id [gostr]:
  "lead_space space_runes s = 0 \<Longrightarrow> lead_space (map rev space_runes) (rev s) = 0 \<Longrightarrow>
   TrimSpace s = s"
  by (simp add: TrimSpace_def trim_left_id)

lemma TrimSpace_idem [simp]: "TrimSpace (TrimSpace s) = TrimSpace s"
  by (rule TrimSpace_id [OF TrimSpace_ends])

lemma TrimSpace_Nil [simp, gostr]: "TrimSpace [] = []"
  by (simp add: TrimSpace_def trim_left_id lead_space_Nil [OF space_runes_nonempty(1)]
      lead_space_Nil [OF space_runes_nonempty(2)])

text \<open>
  A text whose first and last bytes are neither ASCII white space nor part of a
  multi-byte rune (a quoted string, an object, an array) is left alone.
\<close>

definition solid :: "char \<Rightarrow> bool" where
  "solid c \<longleftrightarrow> (of_char c :: nat) < 128 \<and> (of_char c :: nat) > 32"

lemma lead_space_solid:
  assumes "solid c"
  shows "lead_space space_runes (c # s) = 0" and "lead_space (map rev space_runes) (c # s) = 0"
  using assms by (auto simp: lead_space_0_iff space_runes_def solid_def)

lemma TrimSpace_solid [gostr]:
  assumes "solid c" and "solid d"
  shows "TrimSpace (c # s @ [d]) = c # s @ [d]" and "TrimSpace [c] = [c]"
  using assms by (auto intro!: TrimSpace_id simp: lead_space_solid)

section \<open>Numbers in decimal\<close>

definition digit :: "nat \<Rightarrow> char" where
  "digit n = ''0123456789'' ! n"

definition is_digit :: "char \<Rightarrow> bool" where
  "is_digit c \<longleftrightarrow> 48 \<le> (of_char c :: nat) \<and> (of_char c :: nat) \<le> 57"

definition digit_val :: "char \<Rightarrow> nat" where
  "digit_val c = of_char c - 48"

function nat_digits :: "nat \<Rightarrow> string" where
  "nat_digits n = (if n < 10 then [digit n] else nat_digits (n div 10) @ [digit (n mod 10)])"
  by pat_completeness auto
termination by (relation "measure id") auto

declare nat_digits.simps [simp del]

text \<open>The \<open>%d\<close> verb, and the value of a run of digits.\<close>

definition int_digits :: "int \<Rightarrow> string" where
  "int_digits i = nat_digits (nat i)"

lemma int_digits_code [code]:
  "int_digits i =
     (if i < 10 then [digit (nat i)] else int_digits (i div 10) @ [digit (nat (i mod 10))])"
proof -
  have "nat i < 10 \<longleftrightarrow> i < 10" by auto
  then show ?thesis
    by (simp add: int_digits_def nat_digits.simps [of "nat i"] nat_div_distrib nat_mod_distrib)
qed

definition itoa :: "int \<Rightarrow> string" where
  "itoa i = (if i < 0 then CHR ''-'' # int_digits (- i) else int_digits i)"

definition digits_val :: "string \<Rightarrow> nat" where
  "digits_val s = foldl (\<lambda>n c. 10 * n + digit_val c) 0 s"

lemma digit_facts [simp]:
  assumes "n < 10"
  shows "is_digit (digit n)" and "digit_val (digit n) = n"
proof -
  have "list_all (\<lambda>n. is_digit (digit n) \<and> digit_val (digit n) = n) [0..<10]" by code_simp
  then show "is_digit (digit n)" and "digit_val (digit n) = n"
    using assms by (auto simp: list_all_iff)
qed

lemma digits_val_snoc: "digits_val (s @ [c]) = 10 * digits_val s + digit_val c"
  by (simp add: digits_val_def)

lemma digits_val_nat_digits [simp]: "digits_val (nat_digits n) = n"
proof (induction n rule: nat_digits.induct)
  case (1 n)
  show ?case
  proof (cases "n < 10")
    case True
    then show ?thesis by (subst nat_digits.simps) (simp add: digits_val_def)
  next
    case False
    with 1 have "digits_val (nat_digits (n div 10)) = n div 10" by simp
    with False show ?thesis by (subst nat_digits.simps) (simp add: digits_val_snoc)
  qed
qed

lemma nat_digits_digits: "c \<in> set (nat_digits n) \<Longrightarrow> is_digit c"
proof (induction n rule: nat_digits.induct)
  case (1 n)
  then show ?case by (cases "n < 10") (auto simp: nat_digits.simps [of n])
qed

lemma nat_digits_nonempty [simp]: "nat_digits n \<noteq> []"
  by (subst nat_digits.simps) simp

lemma nat_digits_hd: "hd (nat_digits n) = CHR ''0'' \<Longrightarrow> n = 0"
proof (induction n rule: nat_digits.induct)
  case (1 n)
  show ?case
  proof (cases "n < 10")
    case True
    with 1(2) have "digit_val (digit n) = digit_val CHR ''0''"
      by (simp add: nat_digits.simps [of n])
    with True show ?thesis by (simp del: digit_facts(1) add: digit_facts(2) digit_val_def [of "CHR ''0''"])
  next
    case False
    with 1 have "n div 10 = 0" by (simp add: nat_digits.simps [of n])
    with False show ?thesis by simp
  qed
qed

lemma nat_digits_inj: "nat_digits m = nat_digits n \<Longrightarrow> m = n"
  by (metis digits_val_nat_digits)

lemma minus_not_digit [simp]: "\<not> is_digit CHR ''-''"
  by (simp add: is_digit_def)

lemma itoa_inj: "itoa i = itoa j \<Longrightarrow> i = j"
proof -
  have neq: "CHR ''-'' # s \<noteq> nat_digits n" for s n
    using nat_digits_digits [of "CHR ''-''" n] by (metis list.set_intros(1) minus_not_digit)
  assume "itoa i = itoa j"
  then show "i = j"
    using neq neq [symmetric]
    by (auto simp: itoa_def int_digits_def split: if_splits dest!: nat_digits_inj)
qed

section \<open>Searching and quoting\<close>

text \<open>\<open>strings.Index\<close>: the first position of a substring, or none (Go's -1).\<close>

fun str_index :: "string \<Rightarrow> string \<Rightarrow> nat option" where
  "str_index pat [] = (if pat = [] then Some 0 else None)"
| "str_index pat (c # s) =
     (if HasPrefix pat (c # s) then Some 0 else map_option Suc (str_index pat s))"

lemma str_index_Some:
  "str_index pat s = Some i \<Longrightarrow> i \<le> length s \<and> (\<exists>t. s = take i s @ pat @ t)"
proof (induction s arbitrary: i)
  case Nil
  then show ?case by (simp split: if_splits)
next
  case (Cons c s)
  then show ?case by (auto simp: HasPrefix_iff split: if_splits)
qed

definition lower_hex :: "nat \<Rightarrow> char" where
  "lower_hex n = ''0123456789abcdef'' ! n"

text \<open>
  The \<open>%q\<close> verb (\<open>strconv.Quote\<close>) on ASCII text; a rune outside ASCII is copied, as
  \<open>strconv.Quote\<close> does for a printable one. Only error messages use it.
\<close>

definition quote_rune :: "char \<Rightarrow> string" where
  "quote_rune c =
     (if c = CHR 0x22 \<or> c = CHR 0x5C then [CHR 0x5C, c]
      else if 32 \<le> (of_char c :: nat) \<and> (of_char c :: nat) \<noteq> 127 then [c]
      else if c = CHR 0x07 then [CHR 0x5C, CHR ''a'']
      else if c = CHR 0x08 then [CHR 0x5C, CHR ''b'']
      else if c = CHR 0x0C then [CHR 0x5C, CHR ''f'']
      else if c = CHR 0x0A then [CHR 0x5C, CHR ''n'']
      else if c = CHR 0x0D then [CHR 0x5C, CHR ''r'']
      else if c = CHR 0x09 then [CHR 0x5C, CHR ''t'']
      else if c = CHR 0x0B then [CHR 0x5C, CHR ''v'']
      else [CHR 0x5C, CHR ''x'', lower_hex (of_char c div 16), lower_hex (of_char c mod 16)])"

definition quote_q :: "string \<Rightarrow> string" where
  "quote_q s = [CHR 0x22] @ concat (map quote_rune s) @ [CHR 0x22]"

section \<open>Go maps\<close>

text \<open>
  A \<^verbatim>\<open>map[string]T\<close> is an association list with strictly increasing keys, so that
  equal maps are equal lists. Go leaves the iteration order open; \<open>json.Marshal\<close> sorts
  the keys bytewise, which is the order of the list.
\<close>

type_synonym ('k, 'v) gmap = "('k \<times> 'v) list"

definition wf_map :: "('k::linorder, 'v) gmap \<Rightarrow> bool" where
  "wf_map m \<longleftrightarrow> sorted_wrt (<) (map fst m)"

definition mget :: "('k, 'v) gmap \<Rightarrow> 'k \<Rightarrow> 'v option" where
  "mget m k = map_of m k"

fun mput :: "'k::linorder \<Rightarrow> 'v \<Rightarrow> ('k, 'v) gmap \<Rightarrow> ('k, 'v) gmap" where
  "mput k v [] = [(k, v)]"
| "mput k v (p # m) =
     (if k < fst p then (k, v) # p # m
      else if fst p < k then p # mput k v m
      else (k, v) # m)"

definition mdel :: "'k \<Rightarrow> ('k, 'v) gmap \<Rightarrow> ('k, 'v) gmap" where
  "mdel k m = filter (\<lambda>p. fst p \<noteq> k) m"

definition mkeys :: "('k, 'v) gmap \<Rightarrow> 'k list" where
  "mkeys m = map fst m"

definition mputs :: "('k::linorder \<times> 'v) list \<Rightarrow> ('k, 'v) gmap \<Rightarrow> ('k, 'v) gmap" where
  "mputs kvs m = foldl (\<lambda>acc (k, v). mput k v acc) m kvs"

lemma mget_Nil [simp, gomap]: "mget [] k = None"
  by (simp add: mget_def)

lemma mget_Cons [simp, gomap]: "mget ((k, v) # m) j = (if j = k then Some v else mget m j)"
  by (simp add: mget_def)

lemma wf_map_Nil [simp, gomap]: "wf_map []"
  by (simp add: wf_map_def)

lemma wf_map_Cons [gomap]: "wf_map (p # m) \<longleftrightarrow> (\<forall>k\<in>set (map fst m). fst p < k) \<and> wf_map m"
  by (simp add: wf_map_def)

lemma mput_keys [simp]: "set (map fst (mput k v m)) = insert k (set (map fst m))"
  by (induction m) auto

lemma wf_map_mput [gomap]: "wf_map m \<Longrightarrow> wf_map (mput k v m)"
proof (induction m)
  case Nil
  then show ?case by (simp add: wf_map_Cons)
next
  case (Cons p m)
  then show ?case
    using mput_keys [of k v m] by (fastforce simp: wf_map_Cons)
qed

lemma mget_notin: "k \<notin> set (map fst m) \<Longrightarrow> mget m k = None"
  by (simp add: mget_def map_of_eq_None_iff)

lemma mget_mput [simp, gomap]:
  "wf_map m \<Longrightarrow> mget (mput k v m) j = (if j = k then Some v else mget m j)"
proof (induction m)
  case Nil
  then show ?case by simp
next
  case (Cons p m)
  obtain k' v' where p: "p = (k', v')" by (cases p)
  from Cons.prems have m: "wf_map m" and lt: "\<forall>x\<in>set (map fst m). k' < x"
    by (auto simp: wf_map_Cons p)
  consider "k < k'" | "k' < k" | "k = k'" by fastforce
  then show ?case using Cons.IH [OF m] by cases (auto simp: p)
qed

lemma wf_map_mdel [gomap]: "wf_map m \<Longrightarrow> wf_map (mdel k m)"
  unfolding wf_map_def mdel_def by (induction m) auto

lemma mget_mdel [simp, gomap]: "mget (mdel k m) j = (if j = k then None else mget m j)"
  unfolding mdel_def mget_def by (induction m) auto

lemma mdel_keys [simp]: "set (map fst (mdel k m)) = set (map fst m) - {k}"
  unfolding mdel_def by (induction m) auto

lemma mget_eq_Some_mem: "wf_map m \<Longrightarrow> mget m k = Some v \<longleftrightarrow> (k, v) \<in> set m"
  unfolding wf_map_def mget_def
  by (rule map_of_eq_Some_iff) (simp add: strict_sorted_imp_sorted strict_sorted_iff)

lemma mkeys_mget: "k \<in> set (mkeys m) \<longleftrightarrow> mget m k \<noteq> None"
  by (simp add: mkeys_def mget_def map_of_eq_None_iff)

lemma mkeys_distinct: "wf_map m \<Longrightarrow> distinct (mkeys m)"
  by (simp add: wf_map_def mkeys_def strict_sorted_iff)

lemma mput_last: "\<forall>x\<in>set (map fst m). x < k \<Longrightarrow> mput k v m = m @ [(k, v)]"
  by (induction m) auto

lemma mputs_wf_map [gomap]: "wf_map m \<Longrightarrow> wf_map (mputs kvs m)"
  unfolding mputs_def by (induction kvs arbitrary: m) (auto simp: wf_map_mput)

lemma mputs_append: "wf_map (m @ kvs) \<Longrightarrow> mputs kvs m = m @ kvs"
proof (induction kvs arbitrary: m)
  case Nil
  then show ?case by (simp add: mputs_def)
next
  case (Cons p kvs)
  obtain k v where p: "p = (k, v)" by (cases p)
  from Cons.prems have "\<forall>x\<in>set (map fst m). x < k"
    by (auto simp: wf_map_def sorted_wrt_append p)
  then have "mputs (p # kvs) m = mputs kvs (m @ [p])"
    by (simp add: mputs_def p mput_last)
  also have "\<dots> = m @ p # kvs" using Cons.IH [of "m @ [p]"] Cons.prems by simp
  finally show ?case .
qed

lemma mputs_id [simp, gomap]: "wf_map m \<Longrightarrow> mputs m [] = m"
  using mputs_append [of "[]" m] by simp

text \<open>Extensionality: a well-formed map is determined by its lookups.\<close>

lemma wf_map_ext:
  assumes "wf_map m" and "wf_map n" and "\<And>k. mget m k = mget n k"
  shows "m = n"
proof -
  have sets: "set m = set n"
    using assms mget_eq_Some_mem [of m] mget_eq_Some_mem [of n] by auto
  have strict: "sorted (map fst m)" "distinct (map fst m)" "sorted (map fst n)" "distinct (map fst n)"
    using assms(1,2) by (simp_all add: wf_map_def strict_sorted_iff)
  then have "inj_on fst (set m \<union> set n)" by (simp add: distinct_map sets)
  then show ?thesis using strict sets by (rule map_sorted_distinct_set_unique)
qed

end
