(* ===== verification/JsonString.thy ===== *)
theory JsonString
  imports GoPrelude
begin

text \<open>
  JSON string literals as Go's \<^verbatim>\<open>encoding/json\<close> writes and reads them: UTF-8
  decoding of single runes, escaping on output (quotes, control bytes, the HTML
  characters, U+2028 and U+2029, and U+FFFD for bytes that are not UTF-8), unescaping
  on input with UTF-16 surrogate pairs. The main fact is that reading what was
  written gives back the text, for every text in UTF-8.
\<close>

abbreviation ord :: "char \<Rightarrow> nat" where
  "ord c \<equiv> of_char c"

section \<open>UTF-8\<close>

definition cont_byte :: "char \<Rightarrow> bool" where
  "cont_byte c \<longleftrightarrow> 0x80 \<le> ord c \<and> ord c \<le> 0xBF"

definition second_ok :: "nat \<Rightarrow> nat \<Rightarrow> bool" where
  "second_ok n m =
     (if n = 0xE0 then 0xA0 \<le> m \<and> m \<le> 0xBF
      else if n = 0xED then 0x80 \<le> m \<and> m \<le> 0x9F
      else if 0xC2 \<le> n \<and> n \<le> 0xEF then 0x80 \<le> m \<and> m \<le> 0xBF
      else if n = 0xF0 then 0x90 \<le> m \<and> m \<le> 0xBF
      else if 0xF1 \<le> n \<and> n \<le> 0xF3 then 0x80 \<le> m \<and> m \<le> 0xBF
      else if n = 0xF4 then 0x80 \<le> m \<and> m \<le> 0x8F
      else False)"

text \<open>The length of the rune a text starts with; 0 where the bytes are not UTF-8.\<close>

definition utf8_len :: "string \<Rightarrow> nat" where
  "utf8_len s =
     (case s of
        [] \<Rightarrow> 0
      | b0 # s1 \<Rightarrow>
          if ord b0 < 0x80 then 1
          else (case s1 of
              [] \<Rightarrow> 0
            | b1 # s2 \<Rightarrow>
                if \<not> second_ok (ord b0) (ord b1) then 0
                else if ord b0 < 0xE0 then 2
                else (case s2 of
                    [] \<Rightarrow> 0
                  | b2 # s3 \<Rightarrow>
                      if \<not> cont_byte b2 then 0
                      else if ord b0 < 0xF0 then 3
                      else (case s3 of
                          [] \<Rightarrow> 0
                        | b3 # _ \<Rightarrow> if cont_byte b3 then 4 else 0))))"

definition utf8_encode :: "nat \<Rightarrow> string" where
  "utf8_encode n =
     (if n < 0x80 then [char_of n]
      else if n < 0x800 then [char_of (0xC0 + n div 64), char_of (0x80 + n mod 64)]
      else if n < 0x10000 then
        [char_of (0xE0 + n div 4096), char_of (0x80 + n div 64 mod 64), char_of (0x80 + n mod 64)]
      else
        [char_of (0xF0 + n div 262144), char_of (0x80 + n div 4096 mod 64),
         char_of (0x80 + n div 64 mod 64), char_of (0x80 + n mod 64)])"

text \<open>U+FFFD, the replacement character.\<close>

definition rune_error :: string where
  "rune_error = [CHR 0xEF, CHR 0xBF, CHR 0xBD]"

lemma utf8_len_le: "utf8_len s \<le> length s"
  unfolding utf8_len_def by (auto split: list.splits)

lemma utf8_len_ascii [simp]: "ord c < 128 \<Longrightarrow> utf8_len (c # s) = 1"
  by (simp add: utf8_len_def)

lemma utf8_len_take:
  "utf8_len s = k \<Longrightarrow> k \<noteq> 0 \<Longrightarrow> utf8_len (take k s @ t) = k"
  unfolding utf8_len_def by (auto split: list.splits if_splits)

lemma utf8_len_high:
  "utf8_len s = k \<Longrightarrow> k \<noteq> 0 \<Longrightarrow> s = c # s' \<Longrightarrow> 128 \<le> ord c \<Longrightarrow> c' \<in> set (take k s) \<Longrightarrow> 128 \<le> ord c'"
  unfolding utf8_len_def
  by (auto simp: second_ok_def cont_byte_def split: list.splits if_splits)

function utf8_valid :: "string \<Rightarrow> bool" where
  "utf8_valid [] = True"
| "utf8_valid (c # s) =
     (let k = utf8_len (c # s) in if k = 0 then False else utf8_valid (drop k (c # s)))"
  by pat_completeness auto
termination by (relation "measure length") (use utf8_len_le in auto)

text \<open>What a text becomes when every byte outside UTF-8 is replaced by U+FFFD.\<close>

function to_utf8 :: "string \<Rightarrow> string" where
  "to_utf8 [] = []"
| "to_utf8 (c # s) =
     (let k = utf8_len (c # s) in
      if k = 0 then rune_error @ to_utf8 s
      else take k (c # s) @ to_utf8 (drop k (c # s)))"
  by pat_completeness auto
termination by (relation "measure length") (use utf8_len_le in auto)

lemma to_utf8_valid [simp]: "utf8_valid s \<Longrightarrow> to_utf8 s = s"
  by (induction s rule: utf8_valid.induct) (auto simp: Let_def split: if_splits)

lemma utf8_valid_ascii: "\<forall>c\<in>set s. ord c < 128 \<Longrightarrow> utf8_valid s"
  by (induction s) auto

section \<open>Escaping\<close>

definition hex_val :: "char \<Rightarrow> nat option" where
  "hex_val c =
     (let n = ord c in
      if 48 \<le> n \<and> n \<le> 57 then Some (n - 48)
      else if 97 \<le> n \<and> n \<le> 102 then Some (n - 87)
      else if 65 \<le> n \<and> n \<le> 70 then Some (n - 55)
      else None)"

definition u_escape :: "nat \<Rightarrow> string" where
  "u_escape n =
     [CHR 0x5C, CHR ''u'', lower_hex (n div 4096 mod 16), lower_hex (n div 256 mod 16),
      lower_hex (n div 16 mod 16), lower_hex (n mod 16)]"

definition esc_ascii :: "char \<Rightarrow> string" where
  "esc_ascii c =
     (if c = CHR 0x22 \<or> c = CHR 0x5C then [CHR 0x5C, c]
      else if c = CHR 0x08 then [CHR 0x5C, CHR ''b'']
      else if c = CHR 0x0C then [CHR 0x5C, CHR ''f'']
      else if c = CHR 0x0A then [CHR 0x5C, CHR ''n'']
      else if c = CHR 0x0D then [CHR 0x5C, CHR ''r'']
      else if c = CHR 0x09 then [CHR 0x5C, CHR ''t'']
      else if ord c < 32 \<or> c = CHR ''<'' \<or> c = CHR ''>'' \<or> c = CHR ''&'' then u_escape (ord c)
      else [c])"

definition esc_rune :: "string \<Rightarrow> string" where
  "esc_rune r =
     (if r = [CHR 0xE2, CHR 0x80, CHR 0xA8] then u_escape 0x2028
      else if r = [CHR 0xE2, CHR 0x80, CHR 0xA9] then u_escape 0x2029
      else r)"

function esc :: "string \<Rightarrow> string" where
  "esc [] = []"
| "esc (c # s) =
     (if ord c < 128 then esc_ascii c @ esc s
      else let k = utf8_len (c # s) in
        if k = 0 then u_escape 0xFFFD @ esc s
        else esc_rune (take k (c # s)) @ esc (drop k (c # s)))"
  by pat_completeness auto
termination by (relation "measure length") (use utf8_len_le in auto)

definition json_quote :: "string \<Rightarrow> string" where
  "json_quote s = CHR 0x22 # esc s @ [CHR 0x22]"

section \<open>Unescaping\<close>

fun hex4 :: "string \<Rightarrow> (nat \<times> string) option" where
  "hex4 (a # b # c # d # r) =
     (case (hex_val a, hex_val b, hex_val c, hex_val d) of
        (Some x, Some y, Some z, Some w) \<Rightarrow> Some (4096 * x + 256 * y + 16 * z + w, r)
      | _ \<Rightarrow> None)"
| "hex4 _ = None"

fun u4 :: "string \<Rightarrow> (nat \<times> string) option" where
  "u4 (b # u # r) = (if b = CHR 0x5C \<and> u = CHR ''u'' then hex4 r else None)"
| "u4 _ = None"

definition unesc :: "char \<Rightarrow> char option" where
  "unesc e =
     (if e = CHR 0x22 \<or> e = CHR 0x5C \<or> e = CHR ''/'' then Some e
      else if e = CHR ''b'' then Some (CHR 0x08)
      else if e = CHR ''f'' then Some (CHR 0x0C)
      else if e = CHR ''n'' then Some (CHR 0x0A)
      else if e = CHR ''r'' then Some (CHR 0x0D)
      else if e = CHR ''t'' then Some (CHR 0x09)
      else None)"

definition emit :: "string \<Rightarrow> (string \<times> string) option \<Rightarrow> (string \<times> string) option" where
  "emit p x = map_option (\<lambda>(t, r). (p @ t, r)) x"

lemma hex4_suffix: "hex4 s = Some (n, r) \<Longrightarrow> \<exists>a b c d. s = a # b # c # d # r"
  by (cases s rule: hex4.cases) (auto split: option.splits)

lemma hex4_length: "hex4 s = Some (n, r) \<Longrightarrow> length r < length s"
  by (auto dest!: hex4_suffix)

lemma u4_suffix: "u4 s = Some (n, r) \<Longrightarrow> \<exists>a b c d e f. s = a # b # c # d # e # f # r"
  by (cases s rule: u4.cases) (auto split: if_splits dest!: hex4_suffix)

lemma u4_length: "u4 s = Some (n, r) \<Longrightarrow> length r < length s"
  by (auto dest!: u4_suffix)

text \<open>One unit inside a string literal: the bytes it stands for and the rest.\<close>

definition unit_escape :: "string \<Rightarrow> (string \<times> string) option" where
  "unit_escape r0 =
     (case r0 of
        [] \<Rightarrow> None
      | e # r \<Rightarrow>
          if e = CHR ''u'' then
            (case hex4 r of
               None \<Rightarrow> None
             | Some (n, r1) \<Rightarrow>
                 if 0xD800 \<le> n \<and> n < 0xE000 then
                   (case u4 r1 of
                      None \<Rightarrow> Some (rune_error, r1)
                    | Some (m, r2) \<Rightarrow>
                        if n < 0xDC00 \<and> 0xDC00 \<le> m \<and> m < 0xE000
                        then Some (utf8_encode (0x10000 + (n - 0xD800) * 1024 + (m - 0xDC00)), r2)
                        else Some (rune_error, r1))
                 else Some (utf8_encode n, r1))
          else map_option (\<lambda>d. ([d], r)) (unesc e))"

definition str_unit :: "char \<Rightarrow> string \<Rightarrow> (string \<times> string) option" where
  "str_unit c s =
     (if c = CHR 0x5C then unit_escape s
      else if ord c < 32 then None
      else
        (let k = utf8_len (c # s) in
         if k = 0 then Some (rune_error, s)
         else Some (take k (c # s), drop k (c # s))))"

lemma unit_escape_suffix: "unit_escape s = Some (e, r) \<Longrightarrow> \<exists>p. s = p @ r"
  unfolding unit_escape_def
  by (auto split: list.splits option.splits if_splits dest!: hex4_suffix u4_suffix)

lemma str_unit_suffix: "str_unit c s = Some (e, r) \<Longrightarrow> \<exists>p. s = p @ r"
proof -
  assume unit: "str_unit c s = Some (e, r)"
  show "\<exists>p. s = p @ r"
  proof (cases "c = CHR 0x5C")
    case True
    with unit show ?thesis by (auto simp: str_unit_def dest: unit_escape_suffix)
  next
    case False
    then have "r = s \<or> (\<exists>k. k \<noteq> 0 \<and> r = drop k (c # s))"
      using unit by (auto simp: str_unit_def Let_def split: if_splits)
    then show ?thesis by (metis append_take_drop_id drop_Cons' self_append_conv2)
  qed
qed

lemma str_unit_length: "str_unit c s = Some (e, r) \<Longrightarrow> length r < length (c # s)"
  by (auto dest!: str_unit_suffix)

text \<open>The text up to the closing quote, and what follows it.\<close>

function pstr :: "string \<Rightarrow> (string \<times> string) option" where
  "pstr [] = None"
| "pstr (c # s) =
     (if c = CHR 0x22 then Some ([], s)
      else (case str_unit c s of
          None \<Rightarrow> None
        | Some (e, r) \<Rightarrow> emit e (pstr r)))"
  by pat_completeness auto
termination
  by (relation "measure length") (auto dest: str_unit_length)

declare pstr.simps(2) [simp del]

section \<open>Reading what was written\<close>

lemma emit_Some [simp]: "emit p (Some (t, r)) = Some (p @ t, r)"
  by (simp add: emit_def)

lemma emit_None [simp]: "emit p None = None"
  by (simp add: emit_def)

lemma emit_eq_Some: "emit p x = Some y \<longleftrightarrow> (\<exists>t r. x = Some (t, r) \<and> y = (p @ t, r))"
  by (auto simp: emit_def)

lemma encode_special:
  "utf8_encode 0xFFFD = rune_error"
  "utf8_encode 0x2028 = [CHR 0xE2, CHR 0x80, CHR 0xA8]"
  "utf8_encode 0x2029 = [CHR 0xE2, CHR 0x80, CHR 0xA9]"
  by (simp_all add: utf8_encode_def rune_error_def char_of_def bit_0)

lemma hex_val_lower_hex: "k < 16 \<Longrightarrow> hex_val (lower_hex k) = Some k"
proof -
  have "list_all (\<lambda>k. hex_val (lower_hex k) = Some k) [0..<16]" by code_simp
  then show "k < 16 \<Longrightarrow> ?thesis" by (auto simp: list_all_iff)
qed

lemma base16_sum: "16 * a + w = n \<Longrightarrow> 16 * b + z = a \<Longrightarrow> 16 * c + y = b \<Longrightarrow>
    4096 * c + 256 * y + 16 * z + w = (n::nat)"
  by linarith

lemma hex_digits_sum:
  fixes n :: nat
  assumes "n < 0x10000"
  shows "4096 * (n div 4096) + 256 * (n div 256 mod 16) + 16 * (n div 16 mod 16) + n mod 16 = n"
    and "n div 4096 < 16"
proof -
  have "16 * (n div 4096) + n div 256 mod 16 = n div 256"
    using mult_div_mod_eq [of 16 "n div 256"] by (simp add: div_mult2_eq [symmetric])
  moreover have "16 * (n div 256) + n div 16 mod 16 = n div 16"
    using mult_div_mod_eq [of 16 "n div 16"] by (simp add: div_mult2_eq [symmetric])
  ultimately show "4096 * (n div 4096) + 256 * (n div 256 mod 16) + 16 * (n div 16 mod 16) + n mod 16 = n"
    by (intro base16_sum [where a = "n div 16" and b = "n div 256"]) simp_all
  show "n div 4096 < 16" using assms by (simp add: less_mult_imp_div_less)
qed

lemma hex4_u_escape:
  assumes "n < 0x10000"
  shows "u_escape n @ t = CHR 0x5C # CHR ''u'' # drop 2 (u_escape n) @ t"
    and "hex4 (drop 2 (u_escape n) @ t) = Some (n, t)"
  using hex_digits_sum [OF assms] by (simp_all add: u_escape_def hex_val_lower_hex)

lemma pstr_u_escape:
  assumes "n < 0x10000" and "n < 0xD800 \<or> 0xE000 \<le> n"
  shows "pstr (u_escape n @ t) = emit (utf8_encode n) (pstr t)"
proof -
  have "unit_escape (CHR ''u'' # drop 2 (u_escape n) @ t) = Some (utf8_encode n, t)"
    using assms hex4_u_escape(2) [OF assms(1), of t] by (auto simp: unit_escape_def)
  then show ?thesis
    unfolding hex4_u_escape(1) [OF assms(1)] by (simp add: pstr.simps(2) str_unit_def)
qed

lemma pstr_escaped: "unesc e = Some d \<Longrightarrow> e \<noteq> CHR ''u'' \<Longrightarrow>
    pstr (CHR 0x5C # e # t) = emit [d] (pstr t)"
  by (simp add: pstr.simps(2) str_unit_def unit_escape_def)

lemma pstr_plain:
  assumes "c \<noteq> CHR 0x22" and "c \<noteq> CHR 0x5C" and "32 \<le> ord c" and "ord c < 128"
  shows "pstr (c # t) = emit [c] (pstr t)"
  using assms by (simp add: pstr.simps(2) str_unit_def)

lemma pstr_esc_ascii:
  assumes "ord c < 128"
  shows "pstr (esc_ascii c @ t) = emit [c] (pstr t)"
proof -
  let ?S = "{CHR 0x22, CHR 0x5C, CHR 0x08, CHR 0x0C, CHR 0x0A, CHR 0x0D, CHR 0x09}"
  let ?U = "ord c < 32 \<or> c = CHR ''<'' \<or> c = CHR ''>'' \<or> c = CHR ''&''"
  show ?thesis
  proof (cases "c \<in> ?S")
    case True
    then show ?thesis by (auto simp: esc_ascii_def pstr_escaped unesc_def)
  next
    case special: False
    show ?thesis
    proof (cases ?U)
      case True
      with special have "esc_ascii c = u_escape (ord c)" by (simp add: esc_ascii_def)
      then show ?thesis using assms by (simp add: pstr_u_escape utf8_encode_def)
    next
      case False
      with special have "esc_ascii c = [c]" by (simp add: esc_ascii_def)
      then show ?thesis using assms special False by (simp add: pstr_plain)
    qed
  qed
qed

lemma pstr_rune:
  assumes "utf8_len s = k" and "k \<noteq> 0" and "s = c # s'" and "128 \<le> ord c"
  shows "pstr (take k s @ t) = emit (take k s) (pstr t)"
proof -
  have k: "utf8_len (take k s @ t) = k" using assms by (simp add: utf8_len_take)
  have "k \<le> length s" using utf8_len_le [of s] assms(1) by simp
  then have take: "take k (take k s @ t) = take k s" and drop: "drop k (take k s @ t) = t"
    by simp_all
  obtain u where u: "take k s @ t = c # u" using assms(2,3) by (cases k) auto
  have "c \<noteq> CHR 0x22" "c \<noteq> CHR 0x5C" using assms(4) by auto
  then show ?thesis
    using assms(2,4) k take drop unfolding u by (simp add: pstr.simps(2) str_unit_def Let_def)
qed

lemma pstr_esc_rune:
  assumes "utf8_len s = k" and "k \<noteq> 0" and "s = c # s'" and "128 \<le> ord c"
  shows "pstr (esc_rune (take k s) @ t) = emit (take k s) (pstr t)"
  using pstr_rune [OF assms, of t]
  by (simp add: esc_rune_def pstr_u_escape encode_special)

text \<open>The round trip of string literals, for any text that follows the closing quote.\<close>

lemma pstr_esc: "pstr (esc s @ CHR 0x22 # rest) = Some (to_utf8 s, rest)"
proof (induction s rule: esc.induct)
  case 1
  then show ?case by (simp add: pstr.simps(2))
next
  case (2 c s)
  show ?case
  proof (cases "ord c < 128")
    case True
    with 2(1) show ?thesis by (simp add: pstr_esc_ascii)
  next
    case False
    show ?thesis
    proof (cases "utf8_len (c # s) = 0")
      case True
      with False 2(2) [OF False refl True] show ?thesis
        by (simp add: pstr_u_escape encode_special)
    next
      case nz: False
      with False 2(3) [OF False refl nz] show ?thesis
        by (simp add: pstr_esc_rune [OF refl nz refl] Let_def)
    qed
  qed
qed

lemma pstr_json_quote:
  "utf8_valid s \<Longrightarrow> pstr (tl (json_quote s) @ rest) = Some (s, rest)"
  using pstr_esc [of s rest] by (simp add: json_quote_def)

text \<open>Reading consumes a non-empty prefix.\<close>

lemma pstr_suffix: "pstr s = Some (t, r) \<Longrightarrow> \<exists>p. p \<noteq> [] \<and> s = p @ r"
proof (induction s arbitrary: t rule: pstr.induct)
  case 1
  then show ?case by simp
next
  case (2 c s)
  show ?case
  proof (cases "c = CHR 0x22")
    case True
    with 2(2) show ?thesis by (simp add: pstr.simps(2))
  next
    case False
    with 2(2) obtain e u t' where unit: "str_unit c s = Some (e, u)" and "pstr u = Some (t', r)"
      by (auto simp: pstr.simps(2) emit_eq_Some split: option.splits)
    with 2(1) [OF False unit refl] obtain p q where "u = p @ r" and "s = q @ u"
      using str_unit_suffix [OF unit] by blast
    then show ?thesis by (metis append.assoc append_Cons list.distinct(1))
  qed
qed

lemma pstr_length: "pstr s = Some (t, r) \<Longrightarrow> length r < length s"
  by (auto dest!: pstr_suffix)

end
