(* ===== verification/Json.thy ===== *)
theory Json
  imports JsonString
begin

text \<open>
  The part of Go's \<^verbatim>\<open>encoding/json\<close> the SDK relies on: values of type
  \<^verbatim>\<open>any\<close>, \<open>json.Marshal\<close> and \<open>json.Unmarshal\<close> for them, \<open>json.Valid\<close>, and the
  compaction \<open>json.Marshal\<close> applies to a \<open>json.RawMessage\<close>. A number is its literal:
  the conversion to \<^verbatim>\<open>float64\<close> is not modelled.
\<close>

section \<open>Values\<close>

text \<open>\<open>GOpaque\<close> is a Go value without a JSON form (a channel, a function).\<close>

datatype gany =
    GNull
  | GBool bool
  | GNum string
  | GStr string
  | GArr "gany list"
  | GObj "(string \<times> gany) list"
  | GOpaque

type_synonym object = "(string, gany) gmap"

section \<open>Printing\<close>

fun json_print :: "gany \<Rightarrow> string"
  and print_elems :: "gany list \<Rightarrow> string"
  and print_members :: "(string \<times> gany) list \<Rightarrow> string" where
  "json_print GNull = ''null''"
| "json_print (GBool b) = (if b then ''true'' else ''false'')"
| "json_print (GNum t) = t"
| "json_print (GStr s) = json_quote s"
| "json_print (GArr vs) = CHR ''['' # print_elems vs @ '']''"
| "json_print (GObj ms) = CHR ''{'' # print_members ms @ ''}''"
| "json_print GOpaque = []"
| "print_elems [] = []"
| "print_elems (v # vs) = json_print v @ (if vs = [] then [] else CHR '','' # print_elems vs)"
| "print_members [] = []"
| "print_members ((k, v) # ms) =
     json_quote k @ CHR '':'' # json_print v @ (if ms = [] then [] else CHR '','' # print_members ms)"

fun serialisable :: "gany \<Rightarrow> bool"
  and elems_serialisable :: "gany list \<Rightarrow> bool"
  and members_serialisable :: "(string \<times> gany) list \<Rightarrow> bool" where
  "serialisable GOpaque = False"
| "serialisable (GArr vs) = elems_serialisable vs"
| "serialisable (GObj ms) = members_serialisable ms"
| "serialisable GNull = True"
| "serialisable (GBool b) = True"
| "serialisable (GNum t) = True"
| "serialisable (GStr s) = True"
| "elems_serialisable [] = True"
| "elems_serialisable (v # vs) = (serialisable v \<and> elems_serialisable vs)"
| "members_serialisable [] = True"
| "members_serialisable ((k, v) # ms) = (serialisable v \<and> members_serialisable ms)"

text \<open>\<open>json.Marshal\<close> of a value of type \<^verbatim>\<open>any\<close>; \<open>None\<close> is its error.\<close>

definition json_marshal :: "gany \<Rightarrow> string option" where
  "json_marshal v = (if serialisable v then Some (json_print v) else None)"

section \<open>Number literals\<close>

definition num_int :: "string \<Rightarrow> (string \<times> string) option" where
  "num_int s =
     (case s of
        [] \<Rightarrow> None
      | c # r \<Rightarrow>
          if c = CHR ''0'' then Some ([c], r)
          else if is_digit c then Some (takeWhile is_digit s, dropWhile is_digit s)
          else None)"

definition num_sign :: "string \<Rightarrow> string \<times> string" where
  "num_sign s = (case s of [] \<Rightarrow> ([], []) | c # r \<Rightarrow> if c = CHR ''-'' then ([c], r) else ([], s))"

definition num_frac :: "string \<Rightarrow> (string \<times> string) option" where
  "num_frac s =
     (case s of
        [] \<Rightarrow> Some ([], [])
      | c # r \<Rightarrow>
          if c \<noteq> CHR ''.'' then Some ([], s)
          else if takeWhile is_digit r = [] then None
          else Some (c # takeWhile is_digit r, dropWhile is_digit r))"

definition num_exp_sign :: "string \<Rightarrow> string \<times> string" where
  "num_exp_sign s =
     (case s of
        [] \<Rightarrow> ([], [])
      | c # r \<Rightarrow> if c = CHR ''+'' \<or> c = CHR ''-'' then ([c], r) else ([], s))"

definition num_exp :: "string \<Rightarrow> (string \<times> string) option" where
  "num_exp s =
     (case s of
        [] \<Rightarrow> Some ([], [])
      | c # r \<Rightarrow>
          if c \<noteq> CHR ''e'' \<and> c \<noteq> CHR ''E'' then Some ([], s)
          else (case num_exp_sign r of
              (sg, r1) \<Rightarrow>
                if takeWhile is_digit r1 = [] then None
                else Some (c # sg @ takeWhile is_digit r1, dropWhile is_digit r1)))"

definition pnum :: "string \<Rightarrow> (string \<times> string) option" where
  "pnum s =
     (case num_sign s of
        (sg, r0) \<Rightarrow>
          (case num_int r0 of
             None \<Rightarrow> None
           | Some (ip, r1) \<Rightarrow>
               (case num_frac r1 of
                  None \<Rightarrow> None
                | Some (fp, r2) \<Rightarrow>
                    (case num_exp r2 of
                       None \<Rightarrow> None
                     | Some (ep, r3) \<Rightarrow> Some (sg @ ip @ fp @ ep, r3)))))"

lemma num_int_split: "num_int s = Some (t, r) \<Longrightarrow> s = t @ r \<and> t \<noteq> []"
  unfolding num_int_def by (auto split: list.splits if_splits)

lemma num_sign_split: "num_sign s = (t, r) \<Longrightarrow> s = t @ r"
  unfolding num_sign_def by (auto split: list.splits if_splits)

lemma num_exp_sign_split: "num_exp_sign s = (t, r) \<Longrightarrow> s = t @ r"
  unfolding num_exp_sign_def by (auto split: list.splits if_splits)

lemma num_frac_split: "num_frac s = Some (t, r) \<Longrightarrow> s = t @ r"
  unfolding num_frac_def by (auto split: list.splits if_splits)

lemma num_exp_split: "num_exp s = Some (t, r) \<Longrightarrow> s = t @ r"
  unfolding num_exp_def
  by (auto split: list.splits if_splits prod.splits dest!: num_exp_sign_split)

lemma pnum_split: "pnum s = Some (t, r) \<Longrightarrow> s = t @ r \<and> t \<noteq> []"
  unfolding pnum_def
  by (auto split: option.splits prod.splits dest!: num_sign_split num_int_split num_frac_split num_exp_split)

lemma pnum_length: "pnum s = Some (t, r) \<Longrightarrow> length r < length s"
  by (auto dest: pnum_split)

section \<open>Parsing\<close>

definition is_ws :: "char \<Rightarrow> bool" where
  "is_ws c \<longleftrightarrow> c = CHR '' '' \<or> c = CHR 0x09 \<or> c = CHR 0x0A \<or> c = CHR 0x0D"

definition skip_ws :: "string \<Rightarrow> string" where
  "skip_ws s = dropWhile is_ws s"

lemma skip_ws_length: "skip_ws s = c # r \<Longrightarrow> length r < length s"
  using length_dropWhile_le [of is_ws s] by (simp add: skip_ws_def)

definition member_value :: "string \<times> string \<times> gany \<Rightarrow> string \<times> gany" where
  "member_value m = (case m of (k, raw, v) \<Rightarrow> (k, v))"

definition members_object :: "(string \<times> string \<times> gany) list \<Rightarrow> object" where
  "members_object ms = mputs (map member_value ms) []"

text \<open>
  A value, the elements behind a \<open>[\<close>, the members behind a \<open>{\<close>; each with the
  text that follows. A member carries the text of its value as well, which is what a
  \<open>json.RawMessage\<close> field receives. The number \<open>d\<close> is how many more levels
  of nesting are allowed: \<^verbatim>\<open>encoding/json\<close> stops at 10000.
\<close>

function pval :: "int \<Rightarrow> string \<Rightarrow> (gany \<times> string) option"
  and pelems :: "int \<Rightarrow> string \<Rightarrow> (gany list \<times> string) option"
  and pmembers :: "int \<Rightarrow> string \<Rightarrow> ((string \<times> string \<times> gany) list \<times> string) option" where
  "pval d s =
     (case skip_ws s of
        [] \<Rightarrow> None
      | c # r \<Rightarrow>
          if c = CHR 0x22 then map_option (\<lambda>(t, u). (GStr t, u)) (pstr r)
          else if c = CHR ''{'' then
            (if d \<le> 0 then None
             else (case skip_ws r of
                 [] \<Rightarrow> None
               | c2 # r2 \<Rightarrow>
                   if c2 = CHR ''}'' then Some (GObj [], r2)
                   else map_option (\<lambda>(ms, u). (GObj (members_object ms), u)) (pmembers (d - 1) r)))
          else if c = CHR ''['' then
            (if d \<le> 0 then None
             else (case skip_ws r of
                 [] \<Rightarrow> None
               | c2 # r2 \<Rightarrow>
                   if c2 = CHR '']'' then Some (GArr [], r2)
                   else map_option (\<lambda>(vs, u). (GArr vs, u)) (pelems (d - 1) r)))
          else if HasPrefix ''true'' (c # r) then Some (GBool True, drop 4 (c # r))
          else if HasPrefix ''false'' (c # r) then Some (GBool False, drop 5 (c # r))
          else if HasPrefix ''null'' (c # r) then Some (GNull, drop 4 (c # r))
          else map_option (\<lambda>(t, u). (GNum t, u)) (pnum (c # r)))"
| "pelems d s =
     (case pval d s of
        None \<Rightarrow> None
      | Some (v, r) \<Rightarrow>
          (case skip_ws r of
             [] \<Rightarrow> None
           | c # r2 \<Rightarrow>
               if length r2 < length s then
                 (if c = CHR '']'' then Some ([v], r2)
                  else if c = CHR '','' then map_option (\<lambda>(vs, u). (v # vs, u)) (pelems d r2)
                  else None)
               else None))"
| "pmembers d s =
     (case skip_ws s of
        [] \<Rightarrow> None
      | c # r \<Rightarrow>
          if c \<noteq> CHR 0x22 then None
          else (case pstr r of
              None \<Rightarrow> None
            | Some (k, r1) \<Rightarrow>
                (case skip_ws r1 of
                   [] \<Rightarrow> None
                 | c2 # r2 \<Rightarrow>
                     if c2 \<noteq> CHR '':'' then None
                     else (case pval d r2 of
                         None \<Rightarrow> None
                       | Some (v, r3) \<Rightarrow>
                           (case skip_ws r3 of
                              [] \<Rightarrow> None
                            | c4 # r4 \<Rightarrow>
                                if length r4 < length s then
                                  (let raw = take (length (skip_ws r2) - length r3) (skip_ws r2) in
                                   if c4 = CHR ''}'' then Some ([(k, raw, v)], r4)
                                   else if c4 = CHR '','' then
                                     map_option (\<lambda>(ms, u). ((k, raw, v) # ms, u)) (pmembers d r4)
                                   else None)
                                else None)))))"
  by pat_completeness auto
termination
  apply (relation "measure (case_sum (\<lambda>(d, s). 2 * length s) (case_sum (\<lambda>(d, s). Suc (2 * length s)) (\<lambda>(d, s). Suc (2 * length s))))")
  apply (auto dest!: skip_ws_length pstr_length)
  done

declare pval.simps [simp del] pelems.simps [simp del] pmembers.simps [simp del]

text \<open>A parser consumes a non-empty prefix of its input.\<close>

definition consumes :: "string \<Rightarrow> string \<Rightarrow> bool" where
  "consumes s r \<longleftrightarrow> (\<exists>p. p \<noteq> [] \<and> s = p @ r)"

lemma consumes_Cons: "consumes (c # r) r"
  by (simp add: consumes_def)

lemma consumes_trans [trans]: "consumes s r \<Longrightarrow> consumes r u \<Longrightarrow> consumes s u"
  unfolding consumes_def by (metis append.assoc append_is_Nil_conv)

lemma consumes_skip: "skip_ws s = c # r \<Longrightarrow> consumes s r"
  unfolding consumes_def skip_ws_def
  by (metis append_is_Nil_conv append_Cons append_Nil append.assoc list.distinct(1) takeWhile_dropWhile_id)

lemma consumes_skip': "skip_ws s = c # r \<Longrightarrow> consumes (c # r) u \<Longrightarrow> consumes s u"
  unfolding consumes_def skip_ws_def
  by (metis append.assoc append_is_Nil_conv takeWhile_dropWhile_id)

lemma consumes_length: "consumes s r \<Longrightarrow> length r < length s"
  by (auto simp: consumes_def)

lemma pstr_consumes: "pstr s = Some (t, r) \<Longrightarrow> consumes s r"
  by (auto simp: consumes_def dest: pstr_suffix)

lemma pnum_consumes: "pnum s = Some (t, r) \<Longrightarrow> consumes s r"
  by (auto simp: consumes_def dest: pnum_split)

lemma drop_consumes: "HasPrefix p s \<Longrightarrow> p \<noteq> [] \<Longrightarrow> consumes s (drop (length p) s)"
  by (auto simp: consumes_def HasPrefix_iff)

lemma drop_literals:
  "HasPrefix ''true'' s \<Longrightarrow> consumes s (drop 4 s)"
  "HasPrefix ''false'' s \<Longrightarrow> consumes s (drop 5 s)"
  "HasPrefix ''null'' s \<Longrightarrow> consumes s (drop 4 s)"
  using drop_consumes [of "''true''" s] drop_consumes [of "''false''" s] drop_consumes [of "''null''" s]
  by (simp_all add: eval_nat_numeral)

lemma pval_SomeE:
  assumes "pval d s = Some (v, r)"
  obtains
    (str) u t where "skip_ws s = CHR 0x22 # u" "pstr u = Some (t, r)" "v = GStr t"
  | (obj0) u where "skip_ws s = CHR ''{'' # u" "0 < d" "skip_ws u = CHR ''}'' # r" "v = GObj []"
  | (obj) u ms where "skip_ws s = CHR ''{'' # u" "0 < d" "pmembers (d - 1) u = Some (ms, r)"
      "v = GObj (members_object ms)"
  | (arr0) u where "skip_ws s = CHR ''['' # u" "0 < d" "skip_ws u = CHR '']'' # r" "v = GArr []"
  | (arr) u vs where "skip_ws s = CHR ''['' # u" "0 < d" "pelems (d - 1) u = Some (vs, r)" "v = GArr vs"
  | (lit) w p where "skip_ws s = w" "p \<noteq> []" "w = p @ r" "v = GBool True \<or> v = GBool False \<or> v = GNull"
  | (num) w t where "skip_ws s = w" "pnum w = Some (t, r)" "v = GNum t"
proof -
  from assms obtain c u where sk: "skip_ws s = c # u"
    by (auto simp: pval.simps [of d s] split: list.splits)
  note body = assms [unfolded pval.simps [of d s] sk list.case]
  have lit: thesis if "HasPrefix p (c # u)" "p \<noteq> []" "r = drop (length p) (c # u)"
      "v = GBool True \<or> v = GBool False \<or> v = GNull" for p
    using that sk by (intro that(1) lit [of "c # u" p]) (auto simp: HasPrefix_iff)
  show thesis
  proof (cases "c = CHR 0x22 \<or> c = CHR ''{'' \<or> c = CHR ''[''")
    case True
    then show thesis
      using body sk str obj0 obj arr0 arr by (auto split: if_splits list.splits)
  next
    case False
    consider (t) "HasPrefix ''true'' (c # u)" | (f) "\<not> HasPrefix ''true'' (c # u)" "HasPrefix ''false'' (c # u)"
      | (n) "\<not> HasPrefix ''true'' (c # u)" "\<not> HasPrefix ''false'' (c # u)" "HasPrefix ''null'' (c # u)"
      | (no) "\<not> HasPrefix ''true'' (c # u)" "\<not> HasPrefix ''false'' (c # u)" "\<not> HasPrefix ''null'' (c # u)"
      by blast
    then show thesis
    proof cases
      case t
      with body False show thesis by (intro lit [of "''true''"]) (auto simp: eval_nat_numeral simp del: HasPrefix_Cons)
    next
      case f
      with body False show thesis by (intro lit [of "''false''"]) (auto simp: eval_nat_numeral simp del: HasPrefix_Cons)
    next
      case n
      with body False show thesis by (intro lit [of "''null''"]) (auto simp: eval_nat_numeral simp del: HasPrefix_Cons)
    next
      case no
      with body False show thesis
        by (auto intro: num [OF sk] simp del: HasPrefix_Cons)
    qed
  qed
qed

lemma pelems_SomeE:
  assumes "pelems d s = Some (vs, r)"
  obtains (one) v u where "pval d s = Some (v, u)" "skip_ws u = CHR '']'' # r" "vs = [v]"
  | (more) v u w vs' where "pval d s = Some (v, u)" "skip_ws u = CHR '','' # w"
      "pelems d w = Some (vs', r)" "vs = v # vs'" "length w < length s"
  using assms by (auto simp: pelems.simps [of d s] split: if_splits list.splits option.splits)

lemma pmembers_SomeE:
  assumes "pmembers d s = Some (ms, r)"
  obtains (one) a k b c v u w where "skip_ws s = CHR 0x22 # a" "pstr a = Some (k, b)"
      "skip_ws b = CHR '':'' # c" "pval d c = Some (v, u)" "skip_ws u = CHR ''}'' # r"
      "ms = [(k, w, v)]" "w = take (length (skip_ws c) - length u) (skip_ws c)"
  | (more) a k b c v u w e ms' where "skip_ws s = CHR 0x22 # a" "pstr a = Some (k, b)"
      "skip_ws b = CHR '':'' # c" "pval d c = Some (v, u)" "skip_ws u = CHR '','' # e"
      "pmembers d e = Some (ms', r)" "ms = (k, w, v) # ms'"
      "w = take (length (skip_ws c) - length u) (skip_ws c)" "length e < length s"
  using assms
  by (auto simp: pmembers.simps [of d s] Let_def split: if_splits list.splits option.splits)
lemma member_head:
  assumes "skip_ws s = q # a" and "pstr a = Some (k, b)" and "skip_ws b = x # c"
  shows "consumes s c"
proof -
  have "consumes s a" by (rule consumes_skip [OF assms(1)])
  also have "consumes a b" by (rule pstr_consumes [OF assms(2)])
  also have "consumes b c" by (rule consumes_skip [OF assms(3)])
  finally show ?thesis .
qed

lemma parse_consumes_all:
  "(\<forall>d v r. pval d s = Some (v, r) \<longrightarrow> consumes s r) \<and>
   (\<forall>d vs r. pelems d s = Some (vs, r) \<longrightarrow> consumes s r) \<and>
   (\<forall>d ms r. pmembers d s = Some (ms, r) \<longrightarrow> consumes s r)"
proof (induction s rule: length_induct)
  case (1 s)
  have vals: "pval d u = Some (v, r) \<Longrightarrow> consumes u r"
    and elems: "pelems d u = Some (vs, r) \<Longrightarrow> consumes u r"
    and members: "pmembers d u = Some (ms, r) \<Longrightarrow> consumes u r"
    if "length u < length s" for d u v vs ms r
    using 1 that by blast+
  have val: "consumes s r" if "pval d s = Some (v, r)" for d v r
    using that
  proof (cases rule: pval_SomeE)
    case (str u t)
    show ?thesis by (rule consumes_trans [OF consumes_skip [OF str(1)] pstr_consumes [OF str(2)]])
  next
    case (obj0 u)
    show ?thesis by (rule consumes_trans [OF consumes_skip [OF obj0(1)] consumes_skip [OF obj0(3)]])
  next
    case (obj u ms)
    note u = consumes_skip [OF obj(1)]
    show ?thesis by (rule consumes_trans [OF u members [OF consumes_length [OF u] obj(3)]])
  next
    case (arr0 u)
    show ?thesis by (rule consumes_trans [OF consumes_skip [OF arr0(1)] consumes_skip [OF arr0(3)]])
  next
    case (arr u vs)
    note u = consumes_skip [OF arr(1)]
    show ?thesis by (rule consumes_trans [OF u elems [OF consumes_length [OF u] arr(3)]])
  next
    case (lit w p)
    then show ?thesis
      unfolding consumes_def skip_ws_def
      by (metis append.assoc append_is_Nil_conv takeWhile_dropWhile_id)
  next
    case (num w t)
    then show ?thesis
      unfolding skip_ws_def
      by (metis append.assoc append_is_Nil_conv consumes_def pnum_split takeWhile_dropWhile_id)
  qed
  have elem: "consumes s r" if "pelems d s = Some (vs, r)" for d vs r
    using that
  proof (cases rule: pelems_SomeE)
    case (one v u)
    show ?thesis by (rule consumes_trans [OF val [OF one(1)] consumes_skip [OF one(2)]])
  next
    case (more v u w vs')
    have "consumes s u" by (rule val [OF more(1)])
    also have "consumes u w" by (rule consumes_skip [OF more(2)])
    also have "consumes w r" by (rule elems [OF more(5,3)])
    finally show ?thesis .
  qed
  have member: "consumes s r" if "pmembers d s = Some (ms, r)" for d ms r
    using that
  proof (cases rule: pmembers_SomeE)
    case (one a k b c v u w)
    have sc: "consumes s c" by (rule member_head [OF one(1,2,3)])
    also have "consumes c u" by (rule vals [OF consumes_length [OF sc] one(4)])
    also have "consumes u r" by (rule consumes_skip [OF one(5)])
    finally show ?thesis .
  next
    case (more a k b c v u w e ms')
    have sc: "consumes s c" by (rule member_head [OF more(1,2,3)])
    also have "consumes c u" by (rule vals [OF consumes_length [OF sc] more(4)])
    also have "consumes u e" by (rule consumes_skip [OF more(5)])
    also have "consumes e r" by (rule members [OF more(9,6)])
    finally show ?thesis .
  qed
  show ?case using val elem member by blast
qed

lemma pval_consumes: "pval d s = Some (v, r) \<Longrightarrow> consumes s r"
  and pelems_consumes: "pelems d s = Some (vs, r) \<Longrightarrow> consumes s r"
  and pmembers_consumes: "pmembers d s = Some (ms, r) \<Longrightarrow> consumes s r"
  using parse_consumes_all by blast+

text \<open>
  The length tests in the definitions always succeed: they are there for the
  termination proof, and these are the equations without them.
\<close>

lemma pelems_eq [code]:
  "pelems d s =
     (case pval d s of
        None \<Rightarrow> None
      | Some (v, r) \<Rightarrow>
          (case skip_ws r of
             [] \<Rightarrow> None
           | c # r2 \<Rightarrow>
               if c = CHR '']'' then Some ([v], r2)
               else if c = CHR '','' then map_option (\<lambda>(vs, u). (v # vs, u)) (pelems d r2)
               else None))"
proof (cases "pval d s")
  case None
  then show ?thesis by (simp add: pelems.simps [of d s])
next
  case (Some p)
  obtain v r where p: "p = (v, r)" by (cases p)
  have "length r2 < length s" if "skip_ws r = c # r2" for c r2
    using consumes_trans [OF pval_consumes consumes_skip [OF that]] Some p consumes_length by blast
  then show ?thesis by (auto simp: pelems.simps [of d s] Some p split: list.split)
qed

lemma pmembers_eq [code]:
  "pmembers d s =
     (case skip_ws s of
        [] \<Rightarrow> None
      | c # r \<Rightarrow>
          if c \<noteq> CHR 0x22 then None
          else (case pstr r of
              None \<Rightarrow> None
            | Some (k, r1) \<Rightarrow>
                (case skip_ws r1 of
                   [] \<Rightarrow> None
                 | c2 # r2 \<Rightarrow>
                     if c2 \<noteq> CHR '':'' then None
                     else (case pval d r2 of
                         None \<Rightarrow> None
                       | Some (v, r3) \<Rightarrow>
                           (case skip_ws r3 of
                              [] \<Rightarrow> None
                            | c4 # r4 \<Rightarrow>
                                (let raw = take (length (skip_ws r2) - length r3) (skip_ws r2) in
                                 if c4 = CHR ''}'' then Some ([(k, raw, v)], r4)
                                 else if c4 = CHR '','' then
                                   map_option (\<lambda>(ms, u). ((k, raw, v) # ms, u)) (pmembers d r4)
                                 else None))))))"
proof -
  have "length r4 < length s"
    if "skip_ws s = c # r" "pstr r = Some (k, r1)" "skip_ws r1 = c2 # r2"
      "pval d r2 = Some (v, r3)" "skip_ws r3 = c4 # r4" for c r k r1 c2 r2 v r3 c4 r4
  proof -
    have "consumes s r2" by (rule member_head [OF that(1-3)])
    also have "consumes r2 r3" by (rule pval_consumes [OF that(4)])
    also have "consumes r3 r4" by (rule consumes_skip [OF that(5)])
    finally show ?thesis by (rule consumes_length)
  qed
  then show ?thesis
    by (subst pmembers.simps) (auto simp: Let_def split: list.split option.split)
qed

section \<open>Well-formed values and the round trip\<close>

fun wf_any :: "gany \<Rightarrow> bool"
  and wf_elems :: "gany list \<Rightarrow> bool"
  and wf_members :: "(string \<times> gany) list \<Rightarrow> bool" where
  "wf_any GOpaque = False"
| "wf_any (GNum t) = (pnum t = Some (t, []))"
| "wf_any (GStr s) = utf8_valid s"
| "wf_any (GArr vs) = wf_elems vs"
| "wf_any (GObj ms) = (wf_map ms \<and> wf_members ms)"
| "wf_any GNull = True"
| "wf_any (GBool b) = True"
| "wf_elems [] = True"
| "wf_elems (v # vs) = (wf_any v \<and> wf_elems vs)"
| "wf_members [] = True"
| "wf_members ((k, v) # ms) = (utf8_valid k \<and> wf_any v \<and> wf_members ms)"

fun depth :: "gany \<Rightarrow> int"
  and elems_depth :: "gany list \<Rightarrow> int"
  and members_depth :: "(string \<times> gany) list \<Rightarrow> int" where
  "depth (GArr vs) = 1 + elems_depth vs"
| "depth (GObj ms) = 1 + members_depth ms"
| "depth GNull = 0"
| "depth (GBool b) = 0"
| "depth (GNum t) = 0"
| "depth (GStr s) = 0"
| "depth GOpaque = 0"
| "elems_depth [] = 0"
| "elems_depth (v # vs) = max (depth v) (elems_depth vs)"
| "members_depth [] = 0"
| "members_depth ((k, v) # ms) = max (depth v) (members_depth ms)"

text \<open>What may follow a value: nothing, or a delimiter.\<close>

definition stops :: "string \<Rightarrow> bool" where
  "stops s \<longleftrightarrow> (case s of [] \<Rightarrow> True | c # _ \<Rightarrow> c = CHR '','' \<or> c = CHR '']'' \<or> c = CHR ''}'')"

lemma stops_simps [simp]: "stops []" "stops (CHR '','' # s)" "stops (CHR '']'' # s)" "stops (CHR ''}'' # s)"
  by (simp_all add: stops_def)

lemma stops_digit: "stops s \<Longrightarrow> takeWhile is_digit s = [] \<and> dropWhile is_digit s = s"
  by (cases s) (auto simp: stops_def is_digit_def)

lemma digits_append:
  assumes "stops rest" and "dropWhile is_digit r = u"
  shows "takeWhile is_digit (r @ rest) = takeWhile is_digit r"
    and "dropWhile is_digit (r @ rest) = u @ rest"
proof -
  have "takeWhile is_digit (r @ rest) = takeWhile is_digit r \<and>
        dropWhile is_digit (r @ rest) = dropWhile is_digit r @ rest"
    using stops_digit [OF assms(1)] by (induction r) auto
  with assms(2) show "takeWhile is_digit (r @ rest) = takeWhile is_digit r"
    and "dropWhile is_digit (r @ rest) = u @ rest" by simp_all
qed

lemma num_int_append:
  "num_int s = Some (t, r) \<Longrightarrow> stops rest \<Longrightarrow> num_int (s @ rest) = Some (t, r @ rest)"
  using digits_append [of rest s r]
  by (cases s) (auto simp: num_int_def split: if_splits)

lemma num_sign_append:
  "num_sign s = (t, r) \<Longrightarrow> stops rest \<Longrightarrow> num_sign (s @ rest) = (t, r @ rest)"
  by (cases s; cases rest) (auto simp: num_sign_def stops_def split: if_splits)

lemma num_exp_sign_append:
  "num_exp_sign s = (t, r) \<Longrightarrow> stops rest \<Longrightarrow> num_exp_sign (s @ rest) = (t, r @ rest)"
  by (cases s; cases rest) (auto simp: num_exp_sign_def stops_def split: if_splits)

lemma num_frac_append:
  assumes "num_frac s = Some (t, r)" and rest: "stops rest"
  shows "num_frac (s @ rest) = Some (t, r @ rest)"
proof (cases s)
  case Nil
  with assms show ?thesis by (cases rest) (auto simp: num_frac_def stops_def)
next
  case (Cons c u)
  with assms(1) digits_append [OF rest, of u] show ?thesis
    by (auto simp: num_frac_def split: if_splits)
qed

lemma num_exp_append:
  assumes "num_exp s = Some (t, r)" and rest: "stops rest"
  shows "num_exp (s @ rest) = Some (t, r @ rest)"
proof (cases s)
  case Nil
  with assms show ?thesis by (cases rest) (auto simp: num_exp_def stops_def)
next
  case (Cons c u)
  obtain sg w where sg: "num_exp_sign u = (sg, w)" by fastforce
  from Cons assms(1) num_exp_sign_append [OF sg rest] digits_append [OF rest, of w] sg show ?thesis
    by (auto simp: num_exp_def split: if_splits)
qed

lemma pnum_append:
  assumes "pnum s = Some (t, r)" and "stops rest"
  shows "pnum (s @ rest) = Some (t, r @ rest)"
proof -
  from assms(1) obtain sg r0 ip r1 fp r2 ep where
    "num_sign s = (sg, r0)" "num_int r0 = Some (ip, r1)" "num_frac r1 = Some (fp, r2)"
    "num_exp r2 = Some (ep, r)" "t = sg @ ip @ fp @ ep"
    by (auto simp: pnum_def split: prod.splits option.splits)
  then show ?thesis
    using assms(2)
    by (simp add: pnum_def num_sign_append num_int_append num_frac_append num_exp_append)
qed

lemma pnum_first:
  assumes "pnum t = Some (u, r)"
  obtains c t' where "t = c # t'" "c = CHR ''-'' \<or> is_digit c"
proof -
  from assms obtain sg r0 ip r1 where "num_sign t = (sg, r0)" "num_int r0 = Some (ip, r1)"
    by (auto simp: pnum_def split: prod.splits option.splits)
  then show thesis
    using that by (cases t) (auto simp: num_sign_def num_int_def is_digit_def split: if_splits list.splits)
qed

text \<open>The first byte of a printed value: never white space.\<close>

lemma json_print_first:
  assumes "wf_any v"
  obtains c t where "json_print v = c # t" "\<not> is_ws c" "c \<noteq> CHR '']''" "c \<noteq> CHR ''}''"
proof (cases v)
  case (GNum t)
  with assms obtain c t' where "t = c # t'" "c = CHR ''-'' \<or> is_digit c"
    by (auto elim: pnum_first)
  moreover from this(2) have "\<not> is_ws c" "c \<noteq> CHR '']''" "c \<noteq> CHR ''}''"
    by (auto simp: is_ws_def is_digit_def)
  ultimately show thesis using GNum that by simp
next
  case (GBool b)
  with that show thesis by (cases b) (auto simp: is_ws_def)
qed (use assms that in \<open>auto simp: json_quote_def is_ws_def\<close>)

lemma skip_ws_print [simp]: "wf_any v \<Longrightarrow> skip_ws (json_print v @ rest) = json_print v @ rest"
  by (rule json_print_first [of v]) (auto simp: skip_ws_def)

lemma skip_ws_Cons [simp]: "\<not> is_ws c \<Longrightarrow> skip_ws (c # s) = c # s"
  by (simp add: skip_ws_def)

lemma skip_ws_Nil [simp]: "skip_ws [] = []"
  by (simp add: skip_ws_def)

lemma is_ws_simps [simp]: "\<not> is_ws CHR 0x22" "\<not> is_ws CHR '',''" "\<not> is_ws CHR '':''"
  "\<not> is_ws CHR ''[''" "\<not> is_ws CHR '']''" "\<not> is_ws CHR ''{''" "\<not> is_ws CHR ''}''"
  by (simp_all add: is_ws_def)

definition raw_member :: "string \<times> gany \<Rightarrow> string \<times> string \<times> gany" where
  "raw_member m = (case m of (k, v) \<Rightarrow> (k, json_print v, v))"

lemma members_object_raw [simp]: "wf_map ms \<Longrightarrow> members_object (map raw_member ms) = ms"
  by (simp add: members_object_def raw_member_def member_value_def comp_def split_def)

lemma pval_quote: "utf8_valid s \<Longrightarrow> pval d (json_quote s @ rest) = Some (GStr s, rest)"
  using pstr_json_quote [of s rest] by (simp add: pval.simps json_quote_def)

lemma pval_num:
  assumes "pnum t = Some (t, [])" and "stops rest"
  shows "pval d (t @ rest) = Some (GNum t, rest)"
proof -
  obtain c t' where t: "t = c # t'" and c: "c = CHR ''-'' \<or> is_digit c"
    using assms(1) by (rule pnum_first)
  then have "\<not> is_ws c" "c \<noteq> CHR 0x22" "c \<noteq> CHR ''{''" "c \<noteq> CHR ''[''" "c \<noteq> CHR ''t''"
    "c \<noteq> CHR ''f''" "c \<noteq> CHR ''n''"
    by (auto simp: is_ws_def is_digit_def)
  then show ?thesis
    using pnum_append [OF assms] t by (simp add: pval.simps)
qed


lemma print_elems_first:
  assumes "wf_elems vs" and "vs \<noteq> []"
  obtains c t where "print_elems vs = c # t" "\<not> is_ws c" "c \<noteq> CHR '']''"
  using assms by (cases vs) (auto elim: json_print_first)

lemma print_members_first:
  assumes "ms \<noteq> []"
  obtains t where "print_members ms = CHR 0x22 # t"
  using assms by (cases ms rule: print_members.cases) (auto simp: json_quote_def)

lemma pelems_step:
  assumes "wf_any v" and "\<And>r. stops r \<Longrightarrow> pval d (json_print v @ r) = Some (v, r)"
    and "vs \<noteq> [] \<Longrightarrow> pelems d (print_elems vs @ CHR '']'' # rest) = Some (vs, rest)"
  shows "pelems d (print_elems (v # vs) @ CHR '']'' # rest) = Some (v # vs, rest)"
  using assms by (cases "vs = []") (simp_all add: pelems_eq)

lemma pmembers_step:
  assumes "utf8_valid k" and "wf_any v"
    and "\<And>r. stops r \<Longrightarrow> pval d (json_print v @ r) = Some (v, r)"
    and "ms \<noteq> [] \<Longrightarrow> pmembers d (print_members ms @ CHR ''}'' # rest) = Some (map raw_member ms, rest)"
  shows "pmembers d (print_members ((k, v) # ms) @ CHR ''}'' # rest) =
    Some (map raw_member ((k, v) # ms), rest)"
proof (cases "ms = []")
  case True
  with assms(2,3) pstr_json_quote [OF assms(1)] show ?thesis
    by (subst pmembers_eq) (simp add: json_quote_def raw_member_def)
next
  case False
  with assms(2-4) pstr_json_quote [OF assms(1)] show ?thesis
    by (subst pmembers_eq) (simp add: json_quote_def raw_member_def Let_def)
qed

lemma depth_nonneg: "0 \<le> depth v" "0 \<le> elems_depth vs" "0 \<le> members_depth ms"
  by (induction v and vs and ms rule: depth_elems_depth_members_depth.induct) auto

text \<open>
  Reading a printed value gives the value back, whatever delimiter follows. An
  object comes back with its keys in order, which is how \<open>json.Marshal\<close> wrote them.
\<close>

lemma parse_print:
  "wf_any v \<Longrightarrow> depth v \<le> d \<Longrightarrow> stops rest \<Longrightarrow> pval d (json_print v @ rest) = Some (v, rest)"
  "wf_elems vs \<Longrightarrow> elems_depth vs \<le> d \<Longrightarrow> vs \<noteq> [] \<Longrightarrow>
     pelems d (print_elems vs @ CHR '']'' # rest) = Some (vs, rest)"
  "wf_members ms \<Longrightarrow> members_depth ms \<le> d \<Longrightarrow> ms \<noteq> [] \<Longrightarrow>
     pmembers d (print_members ms @ CHR ''}'' # rest) = Some (map raw_member ms, rest)"
proof (induction v and vs and ms arbitrary: d rest and d rest and d rest
    rule: json_print_print_elems_print_members.induct)
  case (5 vs)
  show ?case
  proof (cases "vs = []")
    case True
    with 5 show ?thesis by (simp add: pval.simps)
  next
    case False
    have d: "0 < d" using 5 depth_nonneg(2) [of vs] by simp
    obtain c t where "print_elems vs = c # t" "\<not> is_ws c" "c \<noteq> CHR '']''"
      using 5 False by (auto elim: print_elems_first)
    with 5 False d show ?thesis by (simp add: pval.simps [of d])
  qed
next
  case (6 ms)
  show ?case
  proof (cases "ms = []")
    case True
    with 6 show ?thesis by (simp add: pval.simps members_object_def)
  next
    case False
    have d: "0 < d" using 6 depth_nonneg(3) [of ms] by simp
    obtain t where "print_members ms = CHR 0x22 # t"
      using False by (rule print_members_first)
    with 6 False d show ?thesis by (simp add: pval.simps [of d])
  qed
next
  case (9 v vs)
  then show ?case by (intro pelems_step) auto
next
  case (11 k v ms)
  then show ?case by (intro pmembers_step) auto
next
  case (3 t)
  then show ?case by (simp add: pval_num)
next
  case (4 s)
  then show ?case by (simp add: pval_quote)
next
  case 1
  then show ?case by (simp add: pval.simps is_ws_def)
next
  case (2 b)
  then show ?case by (cases b) (simp_all add: pval.simps is_ws_def)
qed simp_all

section \<open>Whole texts\<close>

definition max_depth :: int where
  "max_depth = 10000"

text \<open>\<open>json.Unmarshal\<close> into a variable of type \<^verbatim>\<open>any\<close>, and \<open>json.Valid\<close>.\<close>

definition json_unmarshal :: "string \<Rightarrow> gany option" where
  "json_unmarshal s =
     (case pval max_depth s of
        None \<Rightarrow> None
      | Some (v, r) \<Rightarrow> if skip_ws r = [] then Some v else None)"

definition json_valid :: "string \<Rightarrow> bool" where
  "json_valid s = (json_unmarshal s \<noteq> None)"

text \<open>The values the SDK can receive: what a printed text stands for, of bounded depth.\<close>

definition wire_any :: "gany \<Rightarrow> bool" where
  "wire_any v \<longleftrightarrow> wf_any v \<and> depth v \<le> max_depth"

theorem json_round_trip: "wire_any v \<Longrightarrow> json_unmarshal (json_print v) = Some v"
  using parse_print(1) [of v max_depth "[]"] by (simp add: wire_any_def json_unmarshal_def)

lemma wf_serialisable:
  "wf_any v \<Longrightarrow> serialisable v"
  "wf_elems vs \<Longrightarrow> elems_serialisable vs"
  "wf_members ms \<Longrightarrow> members_serialisable ms"
  by (induction v and vs and ms rule: serialisable_elems_serialisable_members_serialisable.induct) auto

lemma json_marshal_wire: "wire_any v \<Longrightarrow> json_marshal v = Some (json_print v)"
  by (simp add: json_marshal_def wire_any_def wf_serialisable)

section \<open>Raw messages\<close>

text \<open>
  \<open>json.Marshal\<close> writes a \<open>json.RawMessage\<close> compacted: white space outside
  strings is dropped, and inside strings the HTML characters and U+2028, U+2029 are
  escaped. A raw message that is not JSON makes \<open>json.Marshal\<close> fail.
\<close>

fun compact_str :: "string \<Rightarrow> string"
  and compact :: "string \<Rightarrow> string" where
  "compact_str [] = []"
| "compact_str (c # s) =
     (if c = CHR 0x22 then c # compact s
      else if c = CHR 0x5C then c # (case s of [] \<Rightarrow> [] | e # r \<Rightarrow> e # compact_str r)
      else if c = CHR ''<'' \<or> c = CHR ''>'' \<or> c = CHR ''&'' then u_escape (ord c) @ compact_str s
      else if HasPrefix [CHR 0xE2, CHR 0x80, CHR 0xA8] (c # s) then u_escape 0x2028 @ compact_str (drop 2 s)
      else if HasPrefix [CHR 0xE2, CHR 0x80, CHR 0xA9] (c # s) then u_escape 0x2029 @ compact_str (drop 2 s)
      else c # compact_str s)"
| "compact [] = []"
| "compact (c # s) =
     (if is_ws c then compact s
      else if c = CHR 0x22 then c # compact_str s
      else c # compact s)"

definition marshal_raw :: "string \<Rightarrow> string option" where
  "marshal_raw s = (if json_valid s then Some (compact s) else None)"


text \<open>What \<open>json.Marshal\<close> wrote is already compact.\<close>

declare compact_str.simps(2) [simp del]

lemma compact_str_plain:
  assumes "c \<noteq> CHR 0x22" "c \<noteq> CHR 0x5C" "c \<noteq> CHR ''<''" "c \<noteq> CHR ''>''" "c \<noteq> CHR ''&''" "c \<noteq> CHR 0xE2"
  shows "compact_str (c # t) = c # compact_str t"
  using assms by (subst compact_str.simps) (simp add: eq_commute [of _ c])

lemma compact_str_quote [simp]: "compact_str (CHR 0x22 # t) = CHR 0x22 # compact t"
  by (subst compact_str.simps) simp

lemma compact_str_escape: "compact_str (CHR 0x5C # e # t) = CHR 0x5C # e # compact_str t"
  by (subst compact_str.simps) simp

lemma compact_str_E2: "HasPrefix [CHR 0x80, CHR 0xA8] t \<or> HasPrefix [CHR 0x80, CHR 0xA9] t \<or>
    compact_str (CHR 0xE2 # t) = CHR 0xE2 # compact_str t"
  by (subst compact_str.simps) simp

lemma lower_hex_plain: "k < 16 \<Longrightarrow> compact_str (lower_hex k # t) = lower_hex k # compact_str t"
proof -
  have "list_all (\<lambda>k. lower_hex k \<notin> {CHR 0x22, CHR 0x5C, CHR ''<'', CHR ''>'', CHR ''&'', CHR 0xE2}) [0..<16]"
    by code_simp
  then show "k < 16 \<Longrightarrow> ?thesis" by (intro compact_str_plain) (auto simp: list_all_iff)
qed

lemma compact_u_escape: "compact_str (u_escape n @ t) = u_escape n @ compact_str t"
  by (simp add: u_escape_def lower_hex_plain compact_str_escape)

lemma compact_esc_ascii:
  assumes "ord c < 128"
  shows "compact_str (esc_ascii c @ t) = esc_ascii c @ compact_str t"
proof -
  have "c \<noteq> CHR 0xE2" using assms by auto
  then show ?thesis
    using compact_u_escape [of "ord c" t]
    by (auto simp: esc_ascii_def compact_str_plain compact_str_escape)
qed

lemma compact_bytes:
  "\<forall>c\<in>set r. 128 \<le> ord c \<and> c \<noteq> CHR 0xE2 \<Longrightarrow> compact_str (r @ t) = r @ compact_str t"
proof (induction r)
  case (Cons c r)
  have "128 \<le> ord c" and "c \<noteq> CHR 0xE2" using Cons.prems by simp_all
  then have "compact_str (c # r @ t) = c # compact_str (r @ t)"
    by (intro compact_str_plain) auto
  with Cons show ?case by simp
qed simp

lemma utf8_rune_shape:
  assumes "utf8_len s = k" and "k \<noteq> 0" and "s = c # s'" and "128 \<le> ord c"
  shows "c \<noteq> CHR 0xE2 \<or> k = 3" and "\<forall>b\<in>set (tl (take k s)). 128 \<le> ord b \<and> b \<noteq> CHR 0xE2"
  using assms unfolding utf8_len_def
  by (auto simp: second_ok_def cont_byte_def split: list.splits if_splits)

lemma compact_esc_rune:
  assumes "utf8_len s = k" and "k \<noteq> 0" and "s = c # s'" and "128 \<le> ord c"
  shows "compact_str (esc_rune (take k s) @ t) = esc_rune (take k s) @ compact_str t"
proof (cases "take k s = [CHR 0xE2, CHR 0x80, CHR 0xA8] \<or> take k s = [CHR 0xE2, CHR 0x80, CHR 0xA9]")
  case True
  then show ?thesis by (auto simp: esc_rune_def compact_u_escape)
next
  case False
  have tk: "take k s = c # tl (take k s)" using assms(2,3) by (cases k) auto
  define b where "b = tl (take k s)"
  have b: "\<forall>x\<in>set b. 128 \<le> ord x \<and> x \<noteq> CHR 0xE2"
    using utf8_rune_shape(2) [OF assms] by (simp add: b_def)
  have "length (take k s) = k" using utf8_len_le [of s] assms(1) by simp
  then have len: "Suc (length b) = k" using tk unfolding b_def by (metis length_Cons)
  have "compact_str (c # b @ t) = c # compact_str (b @ t)"
  proof (cases "c = CHR 0xE2")
    case True
    with utf8_rune_shape(1) [OF assms] len have "length b = 2" by simp
    then obtain x y where "b = [x, y]" by (auto simp: eval_nat_numeral length_Suc_conv)
    with True False tk compact_str_E2 [of "b @ t"] show ?thesis by (auto simp: b_def [symmetric])
  next
    case False
    then show ?thesis using assms(4) by (intro compact_str_plain) auto
  qed
  with compact_bytes [OF b] have "compact_str (take k s @ t) = take k s @ compact_str t"
    using tk by (simp add: b_def [symmetric])
  with False show ?thesis by (auto simp: esc_rune_def)
qed

lemma compact_esc: "compact_str (esc s @ CHR 0x22 # t) = esc s @ CHR 0x22 # compact t"
proof (induction s rule: esc.induct)
  case (2 c s)
  show ?case
  proof (cases "ord c < 128")
    case True
    with 2(1) show ?thesis by (simp add: compact_esc_ascii)
  next
    case False
    show ?thesis
    proof (cases "utf8_len (c # s) = 0")
      case True
      with False 2(2) [OF False refl True] show ?thesis by (simp add: compact_u_escape)
    next
      case nz: False
      with False 2(3) [OF False refl nz] show ?thesis
        by (simp add: compact_esc_rune [OF refl nz refl] Let_def)
    qed
  qed
qed simp

lemma compact_quote [simp]: "compact (json_quote s @ t) = json_quote s @ compact t"
  by (simp add: json_quote_def compact_esc)

definition num_char :: "char \<Rightarrow> bool" where
  "num_char c \<longleftrightarrow> is_digit c \<or> c \<in> {CHR ''-'', CHR ''+'', CHR ''.'', CHR ''e'', CHR ''E''}"

lemma num_char_digits: "is_digit c \<Longrightarrow> num_char c" "c \<in> set (takeWhile is_digit s) \<Longrightarrow> num_char c"
  by (auto simp: num_char_def dest: set_takeWhileD)

lemma num_char_0 [simp]: "num_char CHR ''0''"
  by (simp add: num_char_def is_digit_def)

lemma num_stage_chars:
  "num_sign s = (t, r) \<Longrightarrow> c \<in> set t \<Longrightarrow> num_char c"
  "num_exp_sign s = (t, r) \<Longrightarrow> c \<in> set t \<Longrightarrow> num_char c"
  "num_int s = Some (t, r) \<Longrightarrow> c \<in> set t \<Longrightarrow> num_char c"
  "num_frac s = Some (t, r) \<Longrightarrow> c \<in> set t \<Longrightarrow> num_char c"
  subgoal by (auto simp: num_sign_def num_char_def split: list.splits if_splits)
  subgoal by (auto simp: num_exp_sign_def num_char_def split: list.splits if_splits)
  subgoal
    by (cases s) (auto simp: num_int_def intro: num_char_digits split: if_splits simp flip: takeWhile.simps(2))
  subgoal
    by (cases s) (auto simp: num_frac_def num_char_def split: if_splits dest: set_takeWhileD)
  done

lemma num_exp_chars:
  assumes "num_exp s = Some (t, r)" and "c \<in> set t"
  shows "num_char c"
proof (cases s)
  case Nil
  with assms show ?thesis by (simp add: num_exp_def)
next
  case (Cons e u)
  obtain sg w where sg: "num_exp_sign u = (sg, w)" by fastforce
  with Cons assms have "c = CHR ''e'' \<or> c = CHR ''E'' \<or> c \<in> set sg \<or> c \<in> set (takeWhile is_digit w)"
    by (auto simp: num_exp_def split: if_splits)
  then show ?thesis
    using num_stage_chars(2) [OF sg] num_char_digits(2) by (auto simp: num_char_def)
qed

lemma pnum_chars:
  assumes "pnum s = Some (t, r)"
  shows "\<forall>c\<in>set t. num_char c"
proof -
  from assms obtain sg r0 ip r1 fp r2 ep where
    "num_sign s = (sg, r0)" "num_int r0 = Some (ip, r1)" "num_frac r1 = Some (fp, r2)"
    "num_exp r2 = Some (ep, r)" and t: "t = sg @ ip @ fp @ ep"
    by (auto simp: pnum_def split: prod.splits option.splits)
  then show ?thesis
    unfolding t set_append using num_stage_chars num_exp_chars by blast
qed

lemma compact_copy:
  "\<forall>c\<in>set s. \<not> is_ws c \<and> c \<noteq> CHR 0x22 \<Longrightarrow> compact (s @ t) = s @ compact t"
  by (induction s) auto

lemma compact_print_append:
  "wf_any v \<Longrightarrow> compact (json_print v @ t) = json_print v @ compact t"
  "wf_elems vs \<Longrightarrow> compact (print_elems vs @ t) = print_elems vs @ compact t"
  "wf_members ms \<Longrightarrow> compact (print_members ms @ t) = print_members ms @ compact t"
proof (induction v and vs and ms arbitrary: t and t and t
    rule: json_print_print_elems_print_members.induct)
  case (3 u)
  then have "\<forall>c\<in>set u. \<not> is_ws c \<and> c \<noteq> CHR 0x22"
    using pnum_chars [of u u "[]"] by (auto simp: num_char_def is_ws_def is_digit_def)
  then show ?case by (simp add: compact_copy)
qed (auto simp: is_ws_def)

lemma compact_print: "wf_any v \<Longrightarrow> compact (json_print v) = json_print v"
  using compact_print_append(1) [of v "[]"] by simp

lemma marshal_raw_print: "wire_any v \<Longrightarrow> marshal_raw (json_print v) = Some (json_print v)"
  by (simp add: marshal_raw_def json_valid_def json_round_trip wire_any_def compact_print)

end
