(* ===== verification/RpcTypes.thy ===== *)
theory RpcTypes
  imports Json
begin

text \<open>
  The wire types of \<^verbatim>\<open>pkg/holonrpc/types.go\<close>: the JSON-RPC envelope, its error
  object, the codes, the identifier helpers, the decoding of parameters and results,
  and the encoding and decoding of whole envelopes by \<^verbatim>\<open>encoding/json\<close> with the
  struct tags of the source.
\<close>

section \<open>Constants\<close>

definition jsonRPCVersion :: string where
  "jsonRPCVersion = ''2.0''"

definition codeParseError :: int where "codeParseError = - 32700"
definition codeInvalidRequest :: int where "codeInvalidRequest = - 32600"
definition codeMethodNotFound :: int where "codeMethodNotFound = - 32601"
definition codeInvalidParams :: int where "codeInvalidParams = - 32602"
definition codeInternalError :: int where "codeInternalError = - 32603"
definition codeUnavailable :: int where "codeUnavailable = 14"

lemmas rpc_codes =
  codeParseError_def codeInvalidRequest_def codeMethodNotFound_def codeInvalidParams_def
  codeInternalError_def codeUnavailable_def

section \<open>Errors\<close>

text \<open>\<open>GNull\<close> in \<open>re_data\<close> is Go's nil interface.\<close>

record response_error =
  re_code :: int
  re_message :: string
  re_data :: gany

text \<open>
  Go error values: a \<open>*ResponseError\<close>, the two errors of a done context,
  \<open>errConnectionClosed\<close>, an error made from a text, a wrapping \<open>%w\<close>, and an error
  of \<^verbatim>\<open>encoding/json\<close>, whose text is not modelled.
\<close>

datatype gerror =
    ErrRPC response_error
  | ErrCanceled
  | ErrDeadline
  | ErrConnectionClosed
  | ErrText string
  | ErrWrap string gerror
  | ErrJson

type_synonym 'a res = "gerror + 'a"

text \<open>The \<open>%v\<close> verb on a value of type \<^verbatim>\<open>any\<close>; a pointer prints as nothing here.\<close>

fun fmt_v :: "gany \<Rightarrow> string"
  and fmt_elems :: "gany list \<Rightarrow> string"
  and fmt_members :: "(string \<times> gany) list \<Rightarrow> string" where
  "fmt_v GNull = ''<nil>''"
| "fmt_v (GBool b) = (if b then ''true'' else ''false'')"
| "fmt_v (GNum t) = t"
| "fmt_v (GStr s) = s"
| "fmt_v (GArr vs) = ''['' @ fmt_elems vs @ '']''"
| "fmt_v (GObj ms) = ''map['' @ fmt_members ms @ '']''"
| "fmt_v GOpaque = []"
| "fmt_elems [] = []"
| "fmt_elems (v # vs) = fmt_v v @ (if vs = [] then [] else CHR '' '' # fmt_elems vs)"
| "fmt_members [] = []"
| "fmt_members ((k, v) # ms) =
     k @ CHR '':'' # fmt_v v @ (if ms = [] then [] else CHR '' '' # fmt_members ms)"

definition response_error_Error :: "response_error option \<Rightarrow> string" where
  "response_error_Error e =
     (case e of
        None \<Rightarrow> ''rpc error <nil>''
      | Some r \<Rightarrow>
          if re_data r \<noteq> GNull
          then ''rpc error '' @ itoa (re_code r) @ '': '' @ re_message r @ '' (data: '' @ fmt_v (re_data r) @ '')''
          else ''rpc error '' @ itoa (re_code r) @ '': '' @ re_message r)"

fun error_text :: "gerror \<Rightarrow> string" where
  "error_text (ErrRPC e) = response_error_Error (Some e)"
| "error_text ErrCanceled = ''context canceled''"
| "error_text ErrDeadline = ''context deadline exceeded''"
| "error_text ErrConnectionClosed = ''holon-rpc connection closed''"
| "error_text (ErrText s) = s"
| "error_text (ErrWrap s e) = s @ '': '' @ error_text e"
| "error_text ErrJson = ''invalid JSON''"

text \<open>\<open>errors.As(err, *ResponseError)\<close> and \<open>errors.Is\<close> for the two context errors.\<close>

fun as_rpc :: "gerror \<Rightarrow> response_error option" where
  "as_rpc (ErrRPC e) = Some e"
| "as_rpc (ErrWrap s e) = as_rpc e"
| "as_rpc _ = None"

fun is_canceled :: "gerror \<Rightarrow> bool" where
  "is_canceled ErrCanceled = True"
| "is_canceled (ErrWrap s e) = is_canceled e"
| "is_canceled _ = False"

fun is_deadline :: "gerror \<Rightarrow> bool" where
  "is_deadline ErrDeadline = True"
| "is_deadline (ErrWrap s e) = is_deadline e"
| "is_deadline _ = False"

section \<open>Identifiers\<close>

definition makeID :: "string \<Rightarrow> bytes" where
  "makeID rid = json_quote rid"

definition hasID :: "bytes \<Rightarrow> bool" where
  "hasID rid = (let trimmed = TrimSpace rid in trimmed \<noteq> [] \<and> trimmed \<noteq> ''null'')"

definition idKey :: "bytes \<Rightarrow> string option" where
  "idKey rid =
     (let trimmed = TrimSpace rid in
      if trimmed = [] \<or> trimmed = ''null'' then None else Some trimmed)"

text \<open>\<open>json.Unmarshal\<close> of \<^verbatim>\<open>null\<close> into a string leaves it empty and is no error.\<close>

definition decodeStringID :: "bytes \<Rightarrow> string res" where
  "decodeStringID rid =
     (case json_unmarshal (TrimSpace rid) of
        Some (GStr s) \<Rightarrow> Inr s
      | Some GNull \<Rightarrow> Inr []
      | _ \<Rightarrow> Inl (ErrText ''id must be a string''))"

section \<open>Parameters and results\<close>

definition decodeParams :: "bytes \<Rightarrow> object res" where
  "decodeParams raw =
     (let trimmed = TrimSpace raw in
      if trimmed = [] then Inr []
      else if trimmed = ''null'' then Inr []
      else (case json_unmarshal trimmed of
          Some (GObj params) \<Rightarrow> Inr params
        | Some GNull \<Rightarrow> Inr []
        | _ \<Rightarrow> Inl (ErrText ''params must be an object'')))"

definition decodeResult :: "bytes \<Rightarrow> object res" where
  "decodeResult raw =
     (let trimmed = TrimSpace raw in
      if trimmed = [] then Inr []
      else (case json_unmarshal trimmed of
          None \<Rightarrow> Inl ErrJson
        | Some GNull \<Rightarrow> Inr []
        | Some (GObj obj) \<Rightarrow> Inr obj
        | Some value \<Rightarrow> Inr [(''value'', value)]))"

text \<open>\<open>None\<close> is a nil map.\<close>

definition marshalObject :: "object option \<Rightarrow> bytes res" where
  "marshalObject obj =
     (case obj of
        None \<Rightarrow> Inr ''{}''
      | Some ms \<Rightarrow>
          (case json_marshal (GObj ms) of None \<Rightarrow> Inl ErrJson | Some b \<Rightarrow> Inr b))"

section \<open>Envelopes\<close>

record rpc_message =
  m_jsonrpc :: string
  m_id :: bytes
  m_method :: string
  m_params :: bytes
  m_result :: bytes
  m_error :: "response_error option"

definition empty_message :: rpc_message where
  "empty_message =
     \<lparr>m_jsonrpc = [], m_id = [], m_method = [], m_params = [], m_result = [], m_error = None\<rparr>"

definition print_fields :: "(string \<times> string) list \<Rightarrow> string" where
  "print_fields fs =
     CHR ''{'' # foldr (\<lambda>(n, t) acc. json_quote n @ CHR '':'' # t @
        (if acc = [] then [] else CHR '','' # acc)) fs [] @ ''}''"

text \<open>The \<^verbatim>\<open>omitempty\<close> fields of the struct tags.\<close>

definition str_field :: "string \<Rightarrow> string \<Rightarrow> (string \<times> string) list" where
  "str_field n s = (if s = [] then [] else [(n, json_quote s)])"

definition raw_field :: "string \<Rightarrow> bytes \<Rightarrow> (string \<times> string) list option" where
  "raw_field n s = (if s = [] then Some [] else map_option (\<lambda>t. [(n, t)]) (marshal_raw s))"

definition marshal_error :: "response_error \<Rightarrow> string option" where
  "marshal_error e =
     (case json_marshal (re_data e) of
        None \<Rightarrow> None
      | Some d \<Rightarrow>
          Some (print_fields
            ([(''code'', itoa (re_code e)), (''message'', json_quote (re_message e))] @
             (if re_data e = GNull then [] else [(''data'', d)]))))"

definition error_field :: "string \<Rightarrow> response_error option \<Rightarrow> (string \<times> string) list option" where
  "error_field n e =
     (case e of None \<Rightarrow> Some [] | Some r \<Rightarrow> map_option (\<lambda>t. [(n, t)]) (marshal_error r))"

definition marshalMessage :: "rpc_message \<Rightarrow> bytes res" where
  "marshalMessage msg =
     (case (raw_field ''id'' (m_id msg), raw_field ''params'' (m_params msg),
            raw_field ''result'' (m_result msg), error_field ''error'' (m_error msg)) of
        (Some i, Some p, Some r, Some e) \<Rightarrow>
          Inr (print_fields (str_field ''jsonrpc'' (m_jsonrpc msg) @ i @
                 str_field ''method'' (m_method msg) @ p @ r @ e))
      | _ \<Rightarrow> Inl ErrJson)"

definition classifyDecodeError :: "bytes \<Rightarrow> int" where
  "classifyDecodeError raw = (if json_valid raw then codeInvalidRequest else codeParseError)"

subsection \<open>Decoding\<close>

text \<open>
  \<^verbatim>\<open>encoding/json\<close> matches member names with the fields up to case folding: ASCII
  letters, and the two runes that fold to an ASCII letter, U+017F (s) and U+212A (k).
\<close>

fun fold_name :: "string \<Rightarrow> string" where
  "fold_name [] = []"
| "fold_name (c # s) =
     (if 65 \<le> ord c \<and> ord c \<le> 90 then (''abcdefghijklmnopqrstuvwxyz'' ! (ord c - 65)) # fold_name s
      else if HasPrefix [CHR 0xC5, CHR 0xBF] (c # s) then CHR ''s'' # fold_name (drop 1 s)
      else if HasPrefix [CHR 0xE2, CHR 0x84, CHR 0xAA] (c # s) then CHR ''k'' # fold_name (drop 2 s)
      else c # fold_name s)"

text \<open>The members of a text that is one JSON object, in order.\<close>

definition json_members :: "string \<Rightarrow> (string \<times> string \<times> gany) list option" where
  "json_members s =
     (case skip_ws s of
        [] \<Rightarrow> None
      | c # r \<Rightarrow>
          if c \<noteq> CHR ''{'' then None
          else (case skip_ws r of
              [] \<Rightarrow> None
            | c2 # _ \<Rightarrow>
                if c2 = CHR ''}'' then Some []
                else map_option fst (pmembers (max_depth - 1) r)))"

text \<open>Storing a JSON value into a Go string, and into a Go int (64 bits wide).\<close>

definition store_string :: "string \<Rightarrow> gany \<Rightarrow> string option" where
  "store_string old v = (case v of GStr s \<Rightarrow> Some s | GNull \<Rightarrow> Some old | _ \<Rightarrow> None)"

definition parse_int64 :: "string \<Rightarrow> int option" where
  "parse_int64 t =
     (case num_sign t of
        (sg, ds) \<Rightarrow>
          if ds = [] \<or> dropWhile is_digit ds \<noteq> [] then None
          else
            (let n = (if sg = [] then int (digits_val ds) else - int (digits_val ds)) in
             if - (2 ^ 63) \<le> n \<and> n < 2 ^ 63 then Some n else None))"

definition store_int :: "int \<Rightarrow> gany \<Rightarrow> int option" where
  "store_int old v = (case v of GNum t \<Rightarrow> parse_int64 t | GNull \<Rightarrow> Some old | _ \<Rightarrow> None)"

definition error_member :: "string \<times> string \<times> gany \<Rightarrow> response_error \<Rightarrow> response_error option" where
  "error_member m e =
     (case m of
        (k, raw, v) \<Rightarrow>
          if fold_name k = ''code'' then map_option (\<lambda>c. e\<lparr>re_code := c\<rparr>) (store_int (re_code e) v)
          else if fold_name k = ''message'' then
            map_option (\<lambda>s. e\<lparr>re_message := s\<rparr>) (store_string (re_message e) v)
          else if fold_name k = ''data'' then Some (e\<lparr>re_data := v\<rparr>)
          else Some e)"

fun fill_error :: "(string \<times> string \<times> gany) list \<Rightarrow> response_error \<Rightarrow> response_error option" where
  "fill_error [] e = Some e"
| "fill_error (m # ms) e =
     (case error_member m e of None \<Rightarrow> None | Some e' \<Rightarrow> fill_error ms e')"

definition zero_error :: response_error where
  "zero_error = \<lparr>re_code = 0, re_message = [], re_data = GNull\<rparr>"

definition store_error ::
    "response_error option \<Rightarrow> string \<Rightarrow> gany \<Rightarrow> response_error option option" where
  "store_error old raw v =
     (case v of
        GNull \<Rightarrow> Some None
      | GObj _ \<Rightarrow>
          (case json_members raw of
             None \<Rightarrow> None
           | Some ms \<Rightarrow>
               map_option Some (fill_error ms (case old of None \<Rightarrow> zero_error | Some e \<Rightarrow> e)))
      | _ \<Rightarrow> None)"

definition message_member :: "string \<times> string \<times> gany \<Rightarrow> rpc_message \<Rightarrow> rpc_message option" where
  "message_member m msg =
     (case m of
        (k, raw, v) \<Rightarrow>
          if fold_name k = ''jsonrpc'' then
            map_option (\<lambda>s. msg\<lparr>m_jsonrpc := s\<rparr>) (store_string (m_jsonrpc msg) v)
          else if fold_name k = ''id'' then Some (msg\<lparr>m_id := raw\<rparr>)
          else if fold_name k = ''method'' then
            map_option (\<lambda>s. msg\<lparr>m_method := s\<rparr>) (store_string (m_method msg) v)
          else if fold_name k = ''params'' then Some (msg\<lparr>m_params := raw\<rparr>)
          else if fold_name k = ''result'' then Some (msg\<lparr>m_result := raw\<rparr>)
          else if fold_name k = ''error'' then
            map_option (\<lambda>e. msg\<lparr>m_error := e\<rparr>) (store_error (m_error msg) raw v)
          else Some msg)"

fun fill_message :: "(string \<times> string \<times> gany) list \<Rightarrow> rpc_message \<Rightarrow> rpc_message option" where
  "fill_message [] msg = Some msg"
| "fill_message (m # ms) msg =
     (case message_member m msg of None \<Rightarrow> None | Some msg' \<Rightarrow> fill_message ms msg')"

text \<open>
  \<open>json.Unmarshal(data, &msg)\<close> for a zero \<open>rpcMessage\<close>; \<open>None\<close> is its error,
  after which the source does not look at the message.
\<close>

definition unmarshalMessage :: "bytes \<Rightarrow> rpc_message option" where
  "unmarshalMessage data =
     (case json_unmarshal data of
        Some GNull \<Rightarrow> Some empty_message
      | Some (GObj _) \<Rightarrow>
          (case json_members data of None \<Rightarrow> None | Some ms \<Rightarrow> fill_message ms empty_message)
      | _ \<Rightarrow> None)"

section \<open>Facts about identifiers\<close>

lemma solid_quote: "solid CHR 0x22"
  by (simp add: solid_def)

lemma TrimSpace_json_quote [simp]: "TrimSpace (json_quote s) = json_quote s"
  unfolding json_quote_def by (rule TrimSpace_solid [OF solid_quote solid_quote])

lemma json_quote_not_null [simp]: "json_quote s \<noteq> []" "json_quote s \<noteq> ''null''"
  by (simp_all add: json_quote_def)

lemma hasID_makeID [simp]: "hasID (makeID s)"
  by (simp add: hasID_def makeID_def)

lemma idKey_makeID [simp]: "idKey (makeID s) = Some (makeID s)"
  by (simp add: idKey_def makeID_def)

lemma hasID_idKey: "hasID r \<longleftrightarrow> idKey r \<noteq> None"
  by (simp add: hasID_def idKey_def Let_def)

lemma json_unmarshal_quote: "utf8_valid s \<Longrightarrow> json_unmarshal (json_quote s) = Some (GStr s)"
  using json_round_trip [of "GStr s"] by (simp add: wire_any_def max_depth_def)

lemma decodeStringID_makeID: "utf8_valid s \<Longrightarrow> decodeStringID (makeID s) = Inr s"
  by (simp add: decodeStringID_def makeID_def json_unmarshal_quote)

lemma makeID_inj:
  assumes "makeID s = makeID t" and "utf8_valid s" and "utf8_valid t"
  shows "s = t"
  using assms by (metis decodeStringID_makeID sum.inject(2))

section \<open>Numbers\<close>

lemma nat_digits_all: "takeWhile is_digit (nat_digits n @ []) = nat_digits n"
  "dropWhile is_digit (nat_digits n) = []"
  using nat_digits_digits by (auto simp: takeWhile_eq_all_conv dropWhile_eq_Nil_conv)

lemma num_int_digits: "num_int (nat_digits n) = Some (nat_digits n, [])"
proof (cases "nat_digits n")
  case Nil
  then show ?thesis by simp
next
  case (Cons c r)
  show ?thesis
  proof (cases "c = CHR ''0''")
    case True
    with Cons have "n = 0" using nat_digits_hd [of n] by simp
    then have "nat_digits n = ''0''" by (simp add: nat_digits.simps digit_def)
    with Cons True show ?thesis by (simp add: num_int_def)
  next
    case False
    have "is_digit c" using nat_digits_digits [of c n] Cons by simp
    with Cons False nat_digits_all [of n] show ?thesis by (simp add: num_int_def)
  qed
qed

lemma num_sign_itoa:
  "num_sign (itoa i) = (if i < 0 then (''-'', nat_digits (nat (- i))) else ([], nat_digits (nat i)))"
proof -
  have "hd (nat_digits n) \<noteq> CHR ''-''" for n
    using nat_digits_digits [of "hd (nat_digits n)" n] by (metis hd_in_set minus_not_digit nat_digits_nonempty)
  then show ?thesis
    by (auto simp: num_sign_def itoa_def int_digits_def split: list.split) (metis list.sel(1))+
qed

lemma pnum_itoa: "pnum (itoa i) = Some (itoa i, [])"
  by (simp add: pnum_def num_sign_itoa num_int_digits num_frac_def num_exp_def)
    (simp add: itoa_def int_digits_def)

lemma parse_int64_itoa:
  assumes "- (2 ^ 63) \<le> i" and "i < 2 ^ 63"
  shows "parse_int64 (itoa i) = Some i"
  using assms by (auto simp: parse_int64_def num_sign_itoa dest: nat_digits_digits)

section \<open>Objects on the wire\<close>

text \<open>A text that reads as a value, whatever delimiter follows it.\<close>

definition parses :: "int \<Rightarrow> string \<Rightarrow> gany \<Rightarrow> bool" where
  "parses d t v \<longleftrightarrow>
     (\<forall>rest. stops rest \<longrightarrow> pval d (t @ rest) = Some (v, rest)) \<and>
     (\<forall>rest. skip_ws (t @ rest) = t @ rest)"

definition member_text :: "string \<times> string \<times> gany \<Rightarrow> string \<times> string" where
  "member_text m = (case m of (k, t, v) \<Rightarrow> (k, t))"

lemma member_text_simp [simp]: "member_text (k, t, v) = (k, t)"
  by (simp add: member_text_def)

definition member_parses :: "int \<Rightarrow> string \<times> string \<times> gany \<Rightarrow> bool" where
  "member_parses d m = (case m of (k, t, v) \<Rightarrow> utf8_valid k \<and> parses d t v)"

definition join_fields :: "(string \<times> string) list \<Rightarrow> string" where
  "join_fields fs = foldr (\<lambda>(n, t) acc. json_quote n @ CHR '':'' # t @
        (if acc = [] then [] else CHR '','' # acc)) fs []"

lemma print_fields_join: "print_fields fs = CHR ''{'' # join_fields fs @ ''}''"
  by (simp add: print_fields_def join_fields_def)

lemma join_fields_simps:
  "join_fields [] = []"
  "join_fields ((n, t) # fs) =
     json_quote n @ CHR '':'' # t @ (if fs = [] then [] else CHR '','' # join_fields fs)"
proof -
  have "join_fields fs = [] \<longleftrightarrow> fs = []" for fs
    by (cases fs) (auto simp: join_fields_def)
  then show "join_fields ((n, t) # fs) =
     json_quote n @ CHR '':'' # t @ (if fs = [] then [] else CHR '','' # join_fields fs)"
    by (simp add: join_fields_def)
qed (simp add: join_fields_def)

lemma parses_print: "wf_any v \<Longrightarrow> depth v \<le> d \<Longrightarrow> parses d (json_print v) v"
  by (simp add: parses_def parse_print(1))

lemma pmembers_fields:
  "list_all (member_parses d) ms \<Longrightarrow> ms \<noteq> [] \<Longrightarrow>
   pmembers d (join_fields (map member_text ms) @ CHR ''}'' # rest) = Some (ms, rest)"
proof (induction ms)
  case (Cons m ms)
  obtain k t v where m: "m = (k, t, v)" by (cases m)
  from Cons.prems m have k: "utf8_valid k" and val: "\<And>r. stops r \<Longrightarrow> pval d (t @ r) = Some (v, r)"
    and ws: "\<And>r. skip_ws (t @ r) = t @ r"
    by (simp_all add: member_parses_def parses_def)
  show ?case
  proof (cases "ms = []")
    case True
    with val ws pstr_json_quote [OF k] m show ?thesis
      by (subst pmembers_eq) (simp add: json_quote_def join_fields_simps)
  next
    case False
    with Cons val ws pstr_json_quote [OF k] m show ?thesis
      by (subst pmembers_eq) (simp add: json_quote_def join_fields_simps Let_def)
  qed
qed simp

lemma join_fields_first:
  assumes "ms \<noteq> []"
  obtains t where "join_fields (map member_text ms) = CHR 0x22 # t"
  using assms by (cases ms) (auto simp: member_text_def join_fields_simps json_quote_def)

lemma parses_fields:
  assumes "list_all (member_parses (d - 1)) ms" and "0 < d"
  shows "parses d (print_fields (map member_text ms)) (GObj (members_object ms))"
proof (cases "ms = []")
  case True
  with assms(2) show ?thesis
    by (simp add: parses_def print_fields_join join_fields_simps pval.simps [of d] members_object_def mputs_def)
next
  case False
  then obtain t where "join_fields (map member_text ms) = CHR 0x22 # t"
    by (rule join_fields_first)
  note first = this
  show ?thesis
    unfolding parses_def print_fields_join
  proof (intro conjI allI impI)
    fix rest
    have "pmembers (d - 1) (CHR 0x22 # t @ CHR ''}'' # rest) = Some (ms, rest)"
      using pmembers_fields [OF assms(1) False, of rest] by (simp add: first)
    then show "pval d ((CHR ''{'' # join_fields (map member_text ms) @ ''}'') @ rest) =
        Some (GObj (members_object ms), rest)"
      using assms(2) by (subst pval.simps) (simp add: first)
  qed simp
qed

lemma json_unmarshal_parses:
  assumes "parses max_depth t v"
  shows "json_unmarshal t = Some v"
proof -
  have "stops [] \<longrightarrow> pval max_depth (t @ []) = Some (v, [])"
    using assms unfolding parses_def by blast
  then show ?thesis by (simp add: json_unmarshal_def)
qed

lemma json_members_fields:
  assumes "list_all (member_parses (max_depth - 1)) ms"
  shows "json_members (print_fields (map member_text ms)) = Some ms"
proof (cases "ms = []")
  case True
  then show ?thesis by (simp add: json_members_def print_fields_join join_fields_simps)
next
  case False
  then obtain t where "join_fields (map member_text ms) = CHR 0x22 # t"
    by (rule join_fields_first)
  with pmembers_fields [OF assms False, of "[]"] show ?thesis
    by (simp add: json_members_def print_fields_join)
qed

section \<open>The round trip of envelopes\<close>

text \<open>
  A raw message built by \<open>json.Marshal\<close>: empty, or the text of a value that leaves
  room for the envelope around it.
\<close>

definition wire_raw :: "bytes \<Rightarrow> bool" where
  "wire_raw s \<longleftrightarrow> s = [] \<or> (\<exists>v. s = json_print v \<and> wf_any v \<and> depth v < max_depth)"

definition wire_error :: "response_error option \<Rightarrow> bool" where
  "wire_error e \<longleftrightarrow>
     (case e of
        None \<Rightarrow> True
      | Some r \<Rightarrow>
          - (2 ^ 63) \<le> re_code r \<and> re_code r < 2 ^ 63 \<and> utf8_valid (re_message r) \<and>
          wf_any (re_data r) \<and> depth (re_data r) < max_depth - 1)"

definition wire_message :: "rpc_message \<Rightarrow> bool" where
  "wire_message m \<longleftrightarrow>
     utf8_valid (m_jsonrpc m) \<and> utf8_valid (m_method m) \<and>
     wire_raw (m_id m) \<and> wire_raw (m_params m) \<and> wire_raw (m_result m) \<and> wire_error (m_error m)"

definition error_members :: "response_error \<Rightarrow> (string \<times> string \<times> gany) list" where
  "error_members e =
     map raw_member
       ([(''code'', GNum (itoa (re_code e))), (''message'', GStr (re_message e))] @
        (if re_data e = GNull then [] else [(''data'', re_data e)]))"

lemma fold_names [simp]:
  "fold_name ''jsonrpc'' = ''jsonrpc''" "fold_name ''id'' = ''id''" "fold_name ''method'' = ''method''"
  "fold_name ''params'' = ''params''" "fold_name ''result'' = ''result''" "fold_name ''error'' = ''error''"
  "fold_name ''code'' = ''code''" "fold_name ''message'' = ''message''" "fold_name ''data'' = ''data''"
  by code_simp+

lemma utf8_names [simp]:
  "utf8_valid ''jsonrpc''" "utf8_valid ''id''" "utf8_valid ''method''" "utf8_valid ''params''"
  "utf8_valid ''result''" "utf8_valid ''error''" "utf8_valid ''code''" "utf8_valid ''message''"
  "utf8_valid ''data''"
  by code_simp+

lemma member_parses_raw: "utf8_valid k \<Longrightarrow> wf_any v \<Longrightarrow> depth v \<le> d \<Longrightarrow> member_parses d (raw_member (k, v))"
  by (simp add: member_parses_def raw_member_def parses_print)

lemma wire_error_members:
  assumes "wire_error (Some e)" and "d = max_depth - 1 \<or> d = max_depth - 2"
  shows "list_all (member_parses d) (error_members e)"
    and "marshal_error e = Some (print_fields (map member_text (error_members e)))"
    and "fill_error (error_members e) zero_error = Some e"
proof -
  have "json_marshal (re_data e) = Some (json_print (re_data e))"
    using assms by (intro json_marshal_wire) (simp add: wire_error_def wire_any_def)
  then show "marshal_error e = Some (print_fields (map member_text (error_members e)))"
    by (simp add: marshal_error_def error_members_def member_text_def raw_member_def)
  show "list_all (member_parses d) (error_members e)"
    using assms
    by (auto simp: wire_error_def error_members_def pnum_itoa max_depth_def intro!: member_parses_raw)
  show "fill_error (error_members e) zero_error = Some e"
    using assms
    by (simp add: wire_error_def error_members_def raw_member_def error_member_def store_int_def
        store_string_def parse_int64_itoa zero_error_def)
qed

text \<open>The members of a marshalled envelope, field by field.\<close>

definition str_members :: "string \<Rightarrow> string \<Rightarrow> (string \<times> string \<times> gany) list" where
  "str_members n s = (if s = [] then [] else [(n, json_quote s, GStr s)])"

definition raw_members :: "string \<Rightarrow> bytes \<Rightarrow> (string \<times> string \<times> gany) list" where
  "raw_members n s =
     (if s = [] then [] else [(n, s, (case json_unmarshal s of None \<Rightarrow> GNull | Some v \<Rightarrow> v))])"

definition err_members :: "string \<Rightarrow> response_error option \<Rightarrow> (string \<times> string \<times> gany) list" where
  "err_members n e =
     (case e of
        None \<Rightarrow> []
      | Some r \<Rightarrow> [(n, print_fields (map member_text (error_members r)), GObj (members_object (error_members r)))])"

lemma str_field_members: "str_field n s = map member_text (str_members n s)"
  by (simp add: str_field_def str_members_def member_text_def)

lemma str_members_parse: "utf8_valid n \<Longrightarrow> utf8_valid s \<Longrightarrow> 0 \<le> d \<Longrightarrow> list_all (member_parses d) (str_members n s)"
  using member_parses_raw [of n "GStr s" d] by (simp add: str_members_def raw_member_def)

lemma wire_raw_cases:
  assumes "wire_raw s"
  obtains (none) "s = []" | (val) v where "s = json_print v" "wf_any v" "depth v < max_depth" "json_unmarshal s = Some v"
  using assms json_round_trip by (auto simp: wire_raw_def wire_any_def)

lemma raw_field_members:
  assumes "wire_raw s" and "utf8_valid n"
  shows "raw_field n s = Some (map member_text (raw_members n s))"
    and "list_all (member_parses (max_depth - 1)) (raw_members n s)"
  using assms member_parses_raw [OF assms(2)]
  by (auto elim!: wire_raw_cases simp: raw_field_def raw_members_def member_text_def raw_member_def
      marshal_raw_print wire_any_def)

lemma error_field_members:
  assumes "wire_error e" and "utf8_valid n"
  shows "error_field n e = Some (map member_text (err_members n e))"
    and "list_all (member_parses (max_depth - 1)) (err_members n e)"
proof -
  show "error_field n e = Some (map member_text (err_members n e))"
    using assms wire_error_members(2)
    by (cases e) (auto simp: error_field_def err_members_def member_text_def)
  show "list_all (member_parses (max_depth - 1)) (err_members n e)"
    using assms parses_fields [of "max_depth - 1"] wire_error_members(1) [of _ "max_depth - 2"]
    by (cases e) (auto simp: err_members_def member_parses_def max_depth_def)
qed

lemma fill_message_append:
  "fill_message (xs @ ys) m =
     (case fill_message xs m of None \<Rightarrow> None | Some m' \<Rightarrow> fill_message ys m')"
  by (induction xs arbitrary: m) (auto split: option.split)

text \<open>Each group of members sets its own field, from the zero value.\<close>

lemma fill_fields:
  "m_jsonrpc m = [] \<Longrightarrow> fill_message (str_members ''jsonrpc'' s) m = Some (m\<lparr>m_jsonrpc := s\<rparr>)"
  "m_method m = [] \<Longrightarrow> fill_message (str_members ''method'' s) m = Some (m\<lparr>m_method := s\<rparr>)"
  "m_id m = [] \<Longrightarrow> fill_message (raw_members ''id'' s) m = Some (m\<lparr>m_id := s\<rparr>)"
  "m_params m = [] \<Longrightarrow> fill_message (raw_members ''params'' s) m = Some (m\<lparr>m_params := s\<rparr>)"
  "m_result m = [] \<Longrightarrow> fill_message (raw_members ''result'' s) m = Some (m\<lparr>m_result := s\<rparr>)"
  by (simp_all add: str_members_def raw_members_def message_member_def store_string_def)

lemma fill_error_field:
  assumes "m_error m = None" and "wire_error e"
  shows "fill_message (err_members ''error'' e) m = Some (m\<lparr>m_error := e\<rparr>)"
proof (cases e)
  case None
  with assms(1) show ?thesis by (simp add: err_members_def)
next
  case (Some r)
  with assms show ?thesis
    using wire_error_members [of r "max_depth - 1"]
    by (simp add: err_members_def message_member_def store_error_def json_members_fields)
qed

definition message_members :: "rpc_message \<Rightarrow> (string \<times> string \<times> gany) list" where
  "message_members m =
     str_members ''jsonrpc'' (m_jsonrpc m) @ raw_members ''id'' (m_id m) @
     str_members ''method'' (m_method m) @ raw_members ''params'' (m_params m) @
     raw_members ''result'' (m_result m) @ err_members ''error'' (m_error m)"

lemma fill_message_members:
  "wire_message m \<Longrightarrow> fill_message (message_members m) empty_message = Some m"
  by (simp add: message_members_def fill_message_append fill_fields fill_error_field
      wire_message_def empty_message_def)

lemma max_depth_ge: "0 \<le> max_depth - 1"
  by (simp add: max_depth_def)

lemma marshalMessage_members:
  assumes "wire_message m"
  shows "marshalMessage m = Inr (print_fields (map member_text (message_members m)))"
    and "list_all (member_parses (max_depth - 1)) (message_members m)"
  using assms
  using str_members_parse [OF _ _ max_depth_ge]
  by (simp_all add: wire_message_def marshalMessage_def message_members_def raw_field_members
      error_field_members str_field_members)

text \<open>What one side marshals, the other side reads back.\<close>

lemma wire_round_trip:
  assumes "wire_message m"
  shows "\<exists>data. marshalMessage m = Inr data \<and> unmarshalMessage data = Some m"
proof (intro exI conjI)
  show "marshalMessage m = Inr (print_fields (map member_text (message_members m)))"
    by (rule marshalMessage_members(1) [OF assms])
  note ok = marshalMessage_members(2) [OF assms]
  have "json_unmarshal (print_fields (map member_text (message_members m))) =
      Some (GObj (members_object (message_members m)))"
    by (rule json_unmarshal_parses [OF parses_fields [OF ok]]) (simp add: max_depth_def)
  then show "unmarshalMessage (print_fields (map member_text (message_members m))) = Some m"
    by (simp add: unmarshalMessage_def json_members_fields [OF ok] fill_message_members [OF assms])
qed

end
