(* ===== verification/Pending.thy ===== *)
theory Pending
  imports RpcTypes
begin

text \<open>
  The table of outstanding calls that \<^verbatim>\<open>holonrpc.Client\<close>, each \<open>serverPeer\<close>
  of \<^verbatim>\<open>holonrpc.Server\<close> and \<^verbatim>\<open>transport.WebConn\<close> keep: a map from request
  keys to channels of capacity one. A channel outlives its entry of the map (a waiting
  call keeps the reference), so the channels live in a store of their own.
\<close>

record 'm pend =
  pd_map :: "(bytes, nat) gmap"
  pd_chans :: "nat \<Rightarrow> 'm option"
  pd_next :: nat

definition pend_empty :: "'m pend" where
  "pend_empty = \<lparr>pd_map = [], pd_chans = (\<lambda>_. None), pd_next = 0\<rparr>"

text \<open>\<open>ch := make(chan T, 1); pending[key] = ch\<close>\<close>

definition pend_register :: "bytes \<Rightarrow> 'm pend \<Rightarrow> nat \<times> 'm pend" where
  "pend_register k p =
     (let ch = pd_next p in
      (ch, p\<lparr>pd_map := mput k ch (pd_map p), pd_chans := (pd_chans p)(ch := None), pd_next := Suc ch\<rparr>))"

text \<open>\<open>select { case ch <- msg: default: }\<close>\<close>

definition pend_offer :: "nat \<Rightarrow> 'm \<Rightarrow> 'm pend \<Rightarrow> 'm pend" where
  "pend_offer ch m p =
     (case pd_chans p ch of
        None \<Rightarrow> p\<lparr>pd_chans := (pd_chans p)(ch := Some m)\<rparr>
      | Some _ \<Rightarrow> p)"

definition pend_deliver :: "bytes \<Rightarrow> 'm \<Rightarrow> 'm pend \<Rightarrow> 'm pend" where
  "pend_deliver k m p =
     (case mget (pd_map p) k of None \<Rightarrow> p | Some ch \<Rightarrow> pend_offer ch m p)"

text \<open>\<open>case resp := <-ch\<close>: not ready on an empty channel.\<close>

definition pend_take :: "nat \<Rightarrow> 'm pend \<Rightarrow> ('m \<times> 'm pend) option" where
  "pend_take ch p =
     (case pd_chans p ch of
        None \<Rightarrow> None
      | Some m \<Rightarrow> Some (m, p\<lparr>pd_chans := (pd_chans p)(ch := None)\<rparr>))"

text \<open>\<open>delete(pending, key)\<close>\<close>

definition pend_remove :: "bytes \<Rightarrow> 'm pend \<Rightarrow> 'm pend" where
  "pend_remove k p = p\<lparr>pd_map := mdel k (pd_map p)\<rparr>"

text \<open>Replacing the map by an empty one and offering a message to every channel of the old one.\<close>

definition pend_fail :: "'m \<Rightarrow> 'm pend \<Rightarrow> 'm pend" where
  "pend_fail m p = foldl (\<lambda>q e. pend_offer (snd e) m q) (p\<lparr>pd_map := []\<rparr>) (pd_map p)"

section \<open>The invariant\<close>

text \<open>Channels are given out once, to one key each; those not given out yet are empty.\<close>

definition pend_inv :: "'m pend \<Rightarrow> bool" where
  "pend_inv p \<longleftrightarrow>
     wf_map (pd_map p) \<and>
     (\<forall>k ch. mget (pd_map p) k = Some ch \<longrightarrow> ch < pd_next p) \<and>
     (\<forall>k k' ch. mget (pd_map p) k = Some ch \<longrightarrow> mget (pd_map p) k' = Some ch \<longrightarrow> k = k') \<and>
     (\<forall>ch. pd_next p \<le> ch \<longrightarrow> pd_chans p ch = None)"

named_theorems pend \<open>the operations of the table, field by field\<close>

lemma pend_empty_inv [simp]: "pend_inv pend_empty"
  by (simp add: pend_inv_def pend_empty_def)

lemma pend_register_fields [pend]:
  "fst (pend_register k p) = pd_next p"
  "pd_map (snd (pend_register k p)) = mput k (pd_next p) (pd_map p)"
  "pd_chans (snd (pend_register k p)) = (pd_chans p)(pd_next p := None)"
  "pd_next (snd (pend_register k p)) = Suc (pd_next p)"
  by (simp_all add: pend_register_def Let_def)

lemma pend_offer_fields [pend]:
  "pd_map (pend_offer ch m p) = pd_map p"
  "pd_next (pend_offer ch m p) = pd_next p"
  "pd_chans (pend_offer ch m p) c =
     (if c = ch \<and> pd_chans p ch = None then Some m else pd_chans p c)"
  by (auto simp: pend_offer_def split: option.split)

lemma pend_remove_fields [pend]:
  "pd_map (pend_remove k p) = mdel k (pd_map p)"
  "pd_next (pend_remove k p) = pd_next p"
  "pd_chans (pend_remove k p) = pd_chans p"
  by (simp_all add: pend_remove_def)

lemma pend_deliver_fields [pend]:
  "pd_map (pend_deliver k m p) = pd_map p"
  "pd_next (pend_deliver k m p) = pd_next p"
  "pd_chans (pend_deliver k m p) c =
     (if mget (pd_map p) k = Some c \<and> pd_chans p c = None then Some m else pd_chans p c)"
  by (auto simp: pend_deliver_def pend_offer_fields split: option.split)

lemma offers_fields:
  "pd_map (foldl (\<lambda>q e. pend_offer (snd e) m q) p es) = pd_map p"
  "pd_next (foldl (\<lambda>q e. pend_offer (snd e) m q) p es) = pd_next p"
  "pd_chans (foldl (\<lambda>q e. pend_offer (snd e) m q) p es) c =
     (if (\<exists>k. (k, c) \<in> set es) \<and> pd_chans p c = None then Some m else pd_chans p c)"
  by (induction es arbitrary: p) (auto simp: pend_offer_fields)

lemma pend_fail_fields [pend]:
  "pd_map (pend_fail m p) = []"
  "pd_next (pend_fail m p) = pd_next p"
  "wf_map (pd_map p) \<Longrightarrow> pd_chans (pend_fail m p) c =
     (if (\<exists>k. mget (pd_map p) k = Some c) \<and> pd_chans p c = None then Some m else pd_chans p c)"
  by (simp_all add: pend_fail_def offers_fields mget_eq_Some_mem)

lemma pend_take_fields:
  "pend_take ch p = Some (m, q) \<longleftrightarrow>
     pd_chans p ch = Some m \<and> q = p\<lparr>pd_chans := (pd_chans p)(ch := None)\<rparr>"
  by (auto simp: pend_take_def split: option.split)

lemma pend_register_inv: "pend_inv p \<Longrightarrow> pend_inv (snd (pend_register k p))"
  unfolding pend_inv_def by (fastforce simp: pend gomap split: if_splits)

lemma pend_deliver_inv: "pend_inv p \<Longrightarrow> pend_inv (pend_deliver k m p)"
  unfolding pend_inv_def by (auto simp: pend) (metis leD)

lemma pend_remove_inv: "pend_inv p \<Longrightarrow> pend_inv (pend_remove k p)"
  unfolding pend_inv_def by (auto simp: pend gomap split: if_splits)

lemma pend_fail_inv: "pend_inv p \<Longrightarrow> pend_inv (pend_fail m p)"
  unfolding pend_inv_def by (auto simp: pend) (metis leD)

lemma pend_take_inv: "pend_inv p \<Longrightarrow> pend_take ch p = Some (m, q) \<Longrightarrow> pend_inv q"
  unfolding pend_inv_def by (auto simp: pend_take_fields)

lemma pend_inv_wf: "pend_inv p \<Longrightarrow> wf_map (pd_map p)"
  by (simp add: pend_inv_def)

lemmas pend_invs = pend_register_inv pend_deliver_inv pend_remove_inv pend_fail_inv pend_take_inv

section \<open>The interface\<close>

text \<open>
  What the callers (\<open>Invoke\<close>, \<open>handleResponse\<close>, \<open>failAllPending\<close>) rely on: the
  channel a key leads to (\<open>lookup\<close>), what a channel holds (\<open>content\<close>), and how each
  operation changes the two.
\<close>

locale call_table =
  fixes register :: "bytes \<Rightarrow> 'p \<Rightarrow> nat \<times> 'p"
    and deliver :: "bytes \<Rightarrow> 'm \<Rightarrow> 'p \<Rightarrow> 'p"
    and take_msg :: "nat \<Rightarrow> 'p \<Rightarrow> ('m \<times> 'p) option"
    and remove :: "bytes \<Rightarrow> 'p \<Rightarrow> 'p"
    and fail_all :: "'m \<Rightarrow> 'p \<Rightarrow> 'p"
    and lookup :: "'p \<Rightarrow> bytes \<Rightarrow> nat option"
    and content :: "'p \<Rightarrow> nat \<Rightarrow> 'm option"
    and inv :: "'p \<Rightarrow> bool"
  assumes register_law: "inv p \<Longrightarrow> register k p = (ch, q) \<Longrightarrow>
      inv q \<and> lookup q = (lookup p)(k := Some ch) \<and> content q = content p \<and>
      content p ch = None \<and> (\<forall>j. lookup p j \<noteq> Some ch)"
    and deliver_law: "inv p \<Longrightarrow>
      inv (deliver k m p) \<and> lookup (deliver k m p) = lookup p \<and>
      content (deliver k m p) c =
        (if lookup p k = Some c \<and> content p c = None then Some m else content p c)"
    and take_law: "inv p \<Longrightarrow>
      (case content p c of
         None \<Rightarrow> take_msg c p = None
       | Some m \<Rightarrow> (\<exists>q. take_msg c p = Some (m, q) \<and> inv q \<and> lookup q = lookup p \<and>
                     content q = (content p)(c := None)))"
    and remove_law: "inv p \<Longrightarrow>
      inv (remove k p) \<and> lookup (remove k p) = (lookup p)(k := None) \<and> content (remove k p) = content p"
    and fail_law: "inv p \<Longrightarrow>
      inv (fail_all m p) \<and> lookup (fail_all m p) = (\<lambda>_. None) \<and>
      content (fail_all m p) c =
        (if (\<exists>k. lookup p k = Some c) \<and> content p c = None then Some m else content p c)"
    and injective: "inv p \<Longrightarrow> lookup p j = Some c \<Longrightarrow> lookup p k = Some c \<Longrightarrow> j = k"
begin

lemma registered_waits:
  assumes "inv p" and "register k p = (ch, q)"
  shows "inv q" and "lookup q k = Some ch" and "content q ch = None"
  using register_law [OF assms] by auto

lemma reply_arrives:
  assumes "inv p" and "lookup p k = Some ch" and "content p ch = None"
  shows "content (deliver k m p) ch = Some m"
  using deliver_law [OF assms(1)] assms by simp

lemma first_reply_wins:
  assumes "inv p" and "content p ch = Some m"
  shows "content (deliver k m' p) ch = Some m" and "content (fail_all m' p) ch = Some m"
  using deliver_law [OF assms(1)] fail_law [OF assms(1)] assms(2) by simp_all

lemma others_keep_waiting:
  assumes "inv p" and "lookup p k = Some ch" and "j \<noteq> k"
  shows "content (deliver j m p) ch = content p ch"
    and "lookup (deliver j m p) k = Some ch"
    and "lookup (remove j p) k = Some ch" and "content (remove j p) ch = content p ch"
    and "register j p = (c, q) \<Longrightarrow> lookup q k = Some ch \<and> content q ch = content p ch \<and> c \<noteq> ch"
proof -
  have "lookup p j \<noteq> Some ch" using injective [OF assms(1)] assms(2,3) by blast
  then show "content (deliver j m p) ch = content p ch"
    using deliver_law [OF assms(1)] by simp
  show "lookup (deliver j m p) k = Some ch" using deliver_law [OF assms(1)] assms(2) by simp
  show "lookup (remove j p) k = Some ch" and "content (remove j p) ch = content p ch"
    using remove_law [OF assms(1)] assms(2,3) by simp_all
  show "register j p = (c, q) \<Longrightarrow> lookup q k = Some ch \<and> content q ch = content p ch \<and> c \<noteq> ch"
    using register_law [OF assms(1)] assms(2,3) by auto
qed

lemma failed_call_is_told:
  assumes "inv p" and "lookup p k = Some ch" and "content p ch = None"
  shows "content (fail_all m p) ch = Some m"
  using fail_law [OF assms(1)] assms(2,3) by auto

lemma unknown_reply_ignored:
  assumes "inv p" and "lookup p k = None"
  shows "content (deliver k m p) = content p" and "lookup (deliver k m p) = lookup p"
  using deliver_law [OF assms(1)] assms(2) by (auto simp: fun_eq_iff)

lemma late_reply_ignored:
  assumes "inv p"
  shows "content (deliver k m (remove k p)) = content p"
    and "content (deliver k m (fail_all m' p)) = content (fail_all m' p)"
  using unknown_reply_ignored(1) [of "remove k p"] unknown_reply_ignored(1) [of "fail_all m' p"]
    remove_law [OF assms] fail_law [OF assms] by auto

lemma taken_once:
  assumes "inv p" and "content p ch = Some m"
  obtains q where "take_msg ch p = Some (m, q)" "take_msg ch q = None"
proof -
  from take_law [OF assms(1), of ch] assms(2) obtain q where
    q: "take_msg ch p = Some (m, q)" "inv q" "content q = (content p)(ch := None)" by auto
  from take_law [OF q(2), of ch] q(3) have "take_msg ch q = None" by simp
  with q(1) show thesis by (rule that)
qed

end

interpretation pt: call_table pend_register pend_deliver pend_take pend_remove pend_fail
  "\<lambda>p. mget (pd_map p)" pd_chans pend_inv
proof
  fix p :: "'m pend" and k ch q
  assume inv: "pend_inv p" and reg: "pend_register k p = (ch, q)"
  then have q: "q = snd (pend_register k p)" and ch: "ch = pd_next p"
    using pend_register_fields(1) [of k p] by auto
  have map: "wf_map (pd_map p)" and empty: "pd_chans p (pd_next p) = None"
    and fresh: "mget (pd_map p) j \<noteq> Some (pd_next p)" for j
    using inv by (auto simp: pend_inv_def)
  show "pend_inv q \<and> mget (pd_map q) = (mget (pd_map p))(k := Some ch) \<and>
      pd_chans q = pd_chans p \<and> pd_chans p ch = None \<and> (\<forall>j. mget (pd_map p) j \<noteq> Some ch)"
    using pend_register_inv [OF inv] map empty fresh
    by (auto simp: q ch pend fun_eq_iff)
next
  fix p :: "'m pend" and k m c
  assume "pend_inv p"
  then show "pend_inv (pend_deliver k m p) \<and> mget (pd_map (pend_deliver k m p)) = mget (pd_map p) \<and>
      pd_chans (pend_deliver k m p) c =
        (if mget (pd_map p) k = Some c \<and> pd_chans p c = None then Some m else pd_chans p c)"
    by (simp add: pend_deliver_inv pend_deliver_fields)
next
  fix p :: "'m pend" and c
  assume "pend_inv p"
  then show "case pd_chans p c of None \<Rightarrow> pend_take c p = None
      | Some m \<Rightarrow> (\<exists>q. pend_take c p = Some (m, q) \<and> pend_inv q \<and>
          mget (pd_map q) = mget (pd_map p) \<and> pd_chans q = (pd_chans p)(c := None))"
    using pend_take_inv [of p c]
    by (auto simp: pend_take_fields pend_take_def split: option.split)
next
  fix p :: "'m pend" and k
  assume "pend_inv p"
  then show "pend_inv (pend_remove k p) \<and> mget (pd_map (pend_remove k p)) = (mget (pd_map p))(k := None) \<and>
      pd_chans (pend_remove k p) = pd_chans p"
    by (auto simp: pend_remove_inv pend_remove_fields fun_eq_iff)
next
  fix p :: "'m pend" and m c
  assume "pend_inv p"
  then show "pend_inv (pend_fail m p) \<and> mget (pd_map (pend_fail m p)) = (\<lambda>_. None) \<and>
      pd_chans (pend_fail m p) c =
        (if (\<exists>k. mget (pd_map p) k = Some c) \<and> pd_chans p c = None then Some m else pd_chans p c)"
    using pend_fail_inv [of p m] pend_fail_fields(3) [of p m c]
    by (simp add: pend_fail_fields(1) pend_inv_wf fun_eq_iff)
next
  fix p :: "'m pend" and j k c
  assume "pend_inv p" "mget (pd_map p) j = Some c" "mget (pd_map p) k = Some c"
  then show "j = k" by (auto simp: pend_inv_def)
qed

text \<open>A call in the table: registered, answered, taken, removed.\<close>

lemma call_answered:
  fixes p :: "'m pend"
  assumes "pend_inv p" and "mget (pd_map p) key = None"
  obtains q where "mget (pd_map (snd (pend_register key p))) key = Some (pd_next p)"
    and "pend_take (pd_next p) (pend_deliver key m (snd (pend_register key p))) = Some (m, q)"
    and "pd_map (pend_remove key q) = pd_map p"
proof -
  let ?r = "snd (pend_register key p)"
  have reg: "pend_register key p = (pd_next p, ?r)" by (simp add: prod_eq_iff pend_register_fields)
  note waits = pt.registered_waits [OF assms(1) reg]
  have inv: "pend_inv (pend_deliver key m ?r)" by (rule pend_deliver_inv [OF waits(1)])
  obtain q where q: "pend_take (pd_next p) (pend_deliver key m ?r) = Some (m, q)"
    by (rule pt.taken_once [OF inv pt.reply_arrives [OF waits]])
  have "pd_map (pend_remove key q) = mdel key (mput key (pd_next p) (pd_map p))"
    using q by (simp add: pend_take_fields pend_remove_fields pend_deliver_fields pend_register_fields)
  also have "\<dots> = pd_map p"
    using pend_inv_wf [OF assms(1)] assms(2) by (intro wf_map_ext) (auto intro: wf_map_mdel wf_map_mput)
  finally show thesis using waits(2) q by (intro that)
qed

end
