(* ===== verification/Server.thy ===== *)
theory Server
  imports Pending "HOL-Library.Word"
begin

text \<open>
  \<^verbatim>\<open>pkg/holonrpc/server.go\<close>: the state of a \<open>Server\<close> and of its peers, the life cycle
  (\<open>Start\<close>, \<open>Close\<close>), the registry of handlers, \<open>Invoke\<close>, the acceptance of a
  connection, and the frames of a peer up to the point where a request is handed to a
  goroutine of its own. The dispatch of such a request is in \<open>Dispatch\<close>.
\<close>

section \<open>State\<close>

text \<open>
  A \<open>serverPeer\<close>. \<open>p_ws\<close> is what the connection's \<open>Write\<close> answers (\<open>None\<close>: the frame is
  sent), \<open>p_sent\<close> the text frames sent so far, \<open>p_closed\<close> the close frames asked for,
  and \<open>p_reading\<close> holds until the read loop of \<open>handleWebSocket\<close> has returned.
\<close>

record peer =
  p_id :: string
  p_pend :: "rpc_message pend"
  p_cancelled :: bool
  p_ws :: "gerror option"
  p_sent :: "bytes list"
  p_closed :: "(nat \<times> string) list"
  p_reading :: bool

text \<open>
  A \<open>Server\<close>. A \<open>*serverPeer\<close> is a reference into \<open>s_heap\<close>; goroutines keep references
  to peers that have left \<open>s_peers\<close>. \<open>s_open\<close> lists the TCP listeners that are open. The
  type variable is the type of \<open>Handler\<close> values, which are code of the caller.
\<close>

record 'h server =
  s_address :: string
  s_path :: string
  s_running :: bool
  s_listener :: "string option"
  s_open :: "string list"
  s_shut :: bool
  s_handlers :: "(string, 'h) gmap"
  s_peers :: "(string, nat) gmap"
  s_heap :: "nat \<Rightarrow> peer"
  s_next_ref :: nat
  s_connectQ :: "string list"
  s_nextClientID :: "64 word"
  s_nextServerID :: "64 word"

definition new_peer :: "string \<Rightarrow> peer" where
  "new_peer cid =
     \<lparr>p_id = cid, p_pend = pend_empty, p_cancelled = False, p_ws = None, p_sent = [],
      p_closed = [], p_reading = True\<rparr>"

definition NewServer :: "string \<Rightarrow> 'h server" where
  "NewServer bindURL =
     \<lparr>s_address = bindURL, s_path = [], s_running = False, s_listener = None, s_open = [],
      s_shut = False, s_handlers = [], s_peers = [], s_heap = (\<lambda>_. new_peer []), s_next_ref = 0,
      s_connectQ = [], s_nextClientID = 0, s_nextServerID = 0\<rparr>"

definition queue_size :: nat where
  "queue_size = 32"

definition upd_peer :: "nat \<Rightarrow> (peer \<Rightarrow> peer) \<Rightarrow> 'h server \<Rightarrow> 'h server" where
  "upd_peer ref f s = s\<lparr>s_heap := (s_heap s)(ref := f (s_heap s ref))\<rparr>"

definition upd_pend :: "nat \<Rightarrow> (rpc_message pend \<Rightarrow> rpc_message pend) \<Rightarrow> 'h server \<Rightarrow> 'h server" where
  "upd_pend ref f = upd_peer ref (\<lambda>p. p\<lparr>p_pend := f (p_pend p)\<rparr>)"

definition peer_pend :: "'h server \<Rightarrow> nat \<Rightarrow> rpc_message pend" where
  "peer_pend s ref = p_pend (s_heap s ref)"

section \<open>Handlers and peers\<close>

definition Address :: "'h server \<Rightarrow> string" where
  "Address s = s_address s"

definition Register :: "string \<Rightarrow> 'h \<Rightarrow> 'h server \<Rightarrow> 'h server" where
  "Register method handler s = s\<lparr>s_handlers := mput method handler (s_handlers s)\<rparr>"

definition Unregister :: "string \<Rightarrow> 'h server \<Rightarrow> 'h server" where
  "Unregister method s = s\<lparr>s_handlers := mdel method (s_handlers s)\<rparr>"

definition ClientIDs :: "'h server \<Rightarrow> string list" where
  "ClientIDs s = mkeys (s_peers s)"

text \<open>The map lists its keys sorted, which is what \<open>sort.Strings\<close> does with them.\<close>

definition peersResult :: "'h server \<Rightarrow> gany" where
  "peersResult s =
     GArr (map (\<lambda>cid. GObj [(''id'', GStr cid), (''methods'', GArr [])]) (sort (mkeys (s_peers s))))"

text \<open>The two branches of the \<open>select\<close>; \<open>None\<close> when the branch is not ready.\<close>

datatype wait_choice = FromQueue | FromCtx gerror

definition WaitForClient :: "wait_choice \<Rightarrow> 'h server \<Rightarrow> (string res \<times> 'h server) option" where
  "WaitForClient choice s =
     (case choice of
        FromQueue \<Rightarrow>
          (case s_connectQ s of
             [] \<Rightarrow> None
           | cid # q \<Rightarrow> Some (Inr cid, s\<lparr>s_connectQ := q\<rparr>))
      | FromCtx e \<Rightarrow> Some (Inl e, s))"

section \<open>Start\<close>

text \<open>
  \<open>url.Parse\<close> and \<open>net.Listen\<close> are parameters: the first gives the four parts of the URL
  the source reads, the second the bound address.
\<close>

record parsed_url =
  u_scheme :: string
  u_hostname :: string
  u_port :: string
  u_path :: string

definition JoinHostPort :: "string \<Rightarrow> string \<Rightarrow> string" where
  "JoinHostPort host port =
     (if str_index '':'' host \<noteq> None then ''['' @ host @ '']:'' @ port else host @ '':'' @ port)"

definition err_closed :: gerror where
  "err_closed = ErrText ''holon-rpc: server is closed''"

text \<open>The first critical section; \<open>Inl\<close> is a return.\<close>

definition start_check :: "'h server \<Rightarrow> string res + string" where
  "start_check s =
     (if s_shut s then Inl (Inl err_closed)
      else if s_running s then Inl (Inr (s_address s))
      else Inr (s_address s))"

text \<open>The listen address and the path.\<close>

definition start_plan :: "parsed_url res \<Rightarrow> (string \<times> string) res" where
  "start_plan parsed =
     (case parsed of
        Inl e \<Rightarrow> Inl (ErrWrap ''holon-rpc: invalid server URL'' e)
      | Inr u \<Rightarrow>
          if u_scheme u \<noteq> ''ws'' then
            Inl (ErrText (''holon-rpc: unsupported scheme '' @ quote_q (u_scheme u) @ '' (expected ws://)''))
          else
            (let host = (if u_hostname u = [] then ''127.0.0.1'' else u_hostname u);
                 port = (if u_port u = [] then ''80'' else u_port u);
                 path = (if u_path u = [] then ''/rpc'' else u_path u)
             in Inr (JoinHostPort host port, path)))"

definition start_listen :: "string \<Rightarrow> 'h server \<Rightarrow> 'h server" where
  "start_listen addr s = s\<lparr>s_open := addr # s_open s\<rparr>"

definition close_listener :: "string \<Rightarrow> 'h server \<Rightarrow> 'h server" where
  "close_listener addr s = s\<lparr>s_open := remove1 addr (s_open s)\<rparr>"

text \<open>The second critical section, which looks again: another \<open>Start\<close> or \<open>Close\<close> may have run.\<close>

definition start_commit :: "string \<Rightarrow> string \<Rightarrow> 'h server \<Rightarrow> string res \<times> 'h server" where
  "start_commit addr path s =
     (let actual = ''ws://'' @ addr @ path in
      if s_shut s then (Inl err_closed, close_listener addr s)
      else if s_running s then (Inr (s_address s), close_listener addr s)
      else (Inr actual,
            s\<lparr>s_running := True, s_listener := Some addr, s_path := path, s_address := actual\<rparr>))"

definition Start ::
    "(string \<Rightarrow> parsed_url res) \<Rightarrow> (string \<Rightarrow> string res) \<Rightarrow> 'h server \<Rightarrow> string res \<times> 'h server" where
  "Start url_parse listen s =
     (case start_check s of
        Inl r \<Rightarrow> (r, s)
      | Inr bindURL \<Rightarrow>
          (case start_plan (url_parse bindURL) of
             Inl e \<Rightarrow> (Inl e, s)
           | Inr (hostport, path) \<Rightarrow>
               (case listen hostport of
                  Inl e \<Rightarrow> (Inl (ErrWrap ''holon-rpc: listen failed'' e), s)
                | Inr addr \<Rightarrow> start_commit addr path (start_listen addr s))))"

section \<open>Close\<close>

definition unavailable_message :: "gerror \<Rightarrow> rpc_message" where
  "unavailable_message err =
     empty_message\<lparr>m_jsonrpc := jsonRPCVersion,
       m_error := Some \<lparr>re_code = codeUnavailable, re_message = error_text err, re_data = GNull\<rparr>\<rparr>"

definition failPeerPending :: "nat \<Rightarrow> gerror \<Rightarrow> 'h server \<Rightarrow> 'h server" where
  "failPeerPending ref err = upd_pend ref (pend_fail (unavailable_message err))"

definition cancel_peer :: "nat \<Rightarrow> 'h server \<Rightarrow> 'h server" where
  "cancel_peer ref = upd_peer ref (\<lambda>p. p\<lparr>p_cancelled := True\<rparr>)"

definition ws_close :: "nat \<Rightarrow> nat \<Rightarrow> string \<Rightarrow> 'h server \<Rightarrow> 'h server" where
  "ws_close ref code reason = upd_peer ref (\<lambda>p. p\<lparr>p_closed := p_closed p @ [(code, reason)]\<rparr>)"

definition close_peer :: "nat \<Rightarrow> 'h server \<Rightarrow> 'h server" where
  "close_peer ref s =
     ws_close ref 1001 ''server shutdown'' (failPeerPending ref ErrConnectionClosed (cancel_peer ref s))"

fun is_server_closed :: "gerror \<Rightarrow> bool" where
  "is_server_closed (ErrText t) = (t = ''http: Server closed'')"
| "is_server_closed (ErrWrap t e) = is_server_closed e"
| "is_server_closed _ = False"

text \<open>\<open>shutdown\<close> is what \<open>http.Server.Shutdown\<close> returns.\<close>

definition Close :: "gerror option \<Rightarrow> 'h server \<Rightarrow> gerror option \<times> 'h server" where
  "Close shutdown s =
     (if s_shut s then (None, s)
      else
        (let shutdownErr =
               (if \<not> s_running s then None
                else (case shutdown of
                    None \<Rightarrow> None
                  | Some e \<Rightarrow> if is_server_closed e then None else Some e));
             s1 = (case s_listener s of None \<Rightarrow> s | Some addr \<Rightarrow> close_listener addr s);
             s2 = s1\<lparr>s_shut := True, s_running := False, s_listener := None, s_peers := []\<rparr>
         in (shutdownErr, foldl (\<lambda>acc e. close_peer (snd e) acc) s2 (s_peers s))))"

section \<open>Sending\<close>

definition writePeer :: "nat \<Rightarrow> bytes \<Rightarrow> 'h server \<Rightarrow> gerror option \<times> 'h server" where
  "writePeer ref payload s =
     (case p_ws (s_heap s ref) of
        Some e \<Rightarrow> (Some (ErrWrap ''holon-rpc: write failed'' e), s)
      | None \<Rightarrow> (None, upd_peer ref (\<lambda>p. p\<lparr>p_sent := p_sent p @ [payload]\<rparr>) s))"

definition error_message :: "bytes \<Rightarrow> int \<Rightarrow> string \<Rightarrow> gany \<Rightarrow> rpc_message" where
  "error_message rid code message data =
     empty_message\<lparr>m_jsonrpc := jsonRPCVersion, m_id := rid,
       m_error := Some \<lparr>re_code = code, re_message = message, re_data = data\<rparr>\<rparr>"

definition sendPeerError ::
    "nat \<Rightarrow> bytes \<Rightarrow> int \<Rightarrow> string \<Rightarrow> gany \<Rightarrow> 'h server \<Rightarrow> gerror option \<times> 'h server" where
  "sendPeerError ref rid code message data s =
     (case marshalMessage (error_message rid code message data) of
        Inl e \<Rightarrow> (Some e, s)
      | Inr msg \<Rightarrow> writePeer ref msg s)"

section \<open>Invoke\<close>

text \<open>
  \<open>Invoke\<close> is split at its \<open>select\<close>. A call under way is the peer, the key and the
  channel; \<open>invoke_begin\<close> ends with an error or with the call waiting, \<open>invoke_end\<close>
  is one branch of the \<open>select\<close> with the deferred removal, \<open>None\<close> while that branch is
  not ready.
\<close>

record call =
  c_ref :: nat
  c_key :: bytes
  c_chan :: nat

definition server_id :: "64 word \<Rightarrow> string" where
  "server_id n = CHR ''s'' # itoa (sint n)"

definition call_done :: "call \<Rightarrow> 'h server \<Rightarrow> 'h server" where
  "call_done c = upd_pend (c_ref c) (pend_remove (c_key c))"

definition request_message :: "bytes \<Rightarrow> string \<Rightarrow> bytes \<Rightarrow> rpc_message" where
  "request_message rid method params =
     empty_message\<lparr>m_jsonrpc := jsonRPCVersion, m_id := rid, m_method := method, m_params := params\<rparr>"

definition invoke_send ::
    "nat \<Rightarrow> bytes \<Rightarrow> string \<Rightarrow> object option \<Rightarrow> 'h server \<Rightarrow> gerror option \<times> 'h server" where
  "invoke_send ref idRaw method params s =
     (case marshalObject params of
        Inl e \<Rightarrow> (Some (ErrWrap ''holon-rpc: marshal params'' e), s)
      | Inr paramsRaw \<Rightarrow>
          (case marshalMessage (request_message idRaw method paramsRaw) of
             Inl e \<Rightarrow> (Some (ErrWrap ''holon-rpc: marshal request'' e), s)
           | Inr req \<Rightarrow> writePeer ref req s))"

definition invoke_begin ::
    "string \<Rightarrow> string \<Rightarrow> object option \<Rightarrow> 'h server \<Rightarrow> call res \<times> 'h server" where
  "invoke_begin clientID method params s =
     (if TrimSpace method = [] then (Inl (ErrText ''holon-rpc: method is required''), s)
      else
        (case mget (s_peers s) clientID of
           None \<Rightarrow> (Inl (ErrText (''holon-rpc: unknown client '' @ quote_q clientID)), s)
         | Some ref \<Rightarrow>
             (let n = s_nextServerID s + 1;
                  idRaw = makeID (server_id n);
                  key = (case idKey idRaw of None \<Rightarrow> [] | Some k \<Rightarrow> k);
                  ch = fst (pend_register key (peer_pend s ref));
                  c = \<lparr>c_ref = ref, c_key = key, c_chan = ch\<rparr>;
                  s1 = upd_pend ref (\<lambda>p. snd (pend_register key p)) (s\<lparr>s_nextServerID := n\<rparr>)
              in (case invoke_send ref idRaw method params s1 of
                    (Some e, s2) \<Rightarrow> (Inl e, call_done c s2)
                  | (None, s2) \<Rightarrow> (Inr c, s2)))))"

definition response_result :: "rpc_message \<Rightarrow> object res" where
  "response_result resp =
     (case m_error resp of
        Some e \<Rightarrow> Inl (ErrRPC e)
      | None \<Rightarrow>
          (case decodeResult (m_result resp) of
             Inl e \<Rightarrow> Inl (ErrWrap ''holon-rpc: invalid result'' e)
           | Inr out \<Rightarrow> Inr out))"

datatype wake = WakeResponse | WakeCtx gerror | WakePeerGone

definition invoke_end :: "wake \<Rightarrow> call \<Rightarrow> 'h server \<Rightarrow> (object res \<times> 'h server) option" where
  "invoke_end w c s =
     (case w of
        WakeResponse \<Rightarrow>
          (case pend_take (c_chan c) (peer_pend s (c_ref c)) of
             None \<Rightarrow> None
           | Some (resp, pd) \<Rightarrow>
               Some (response_result resp, call_done c (upd_pend (c_ref c) (\<lambda>_. pd) s)))
      | WakeCtx e \<Rightarrow> Some (Inl e, call_done c s)
      | WakePeerGone \<Rightarrow>
          if p_cancelled (s_heap s (c_ref c)) then Some (Inl ErrConnectionClosed, call_done c s)
          else None)"

section \<open>Connections\<close>

text \<open>
  \<open>handleWebSocket\<close> up to its read loop. \<open>accepted\<close> is the subprotocol that
  \<open>websocket.Accept\<close> negotiated, \<open>None\<close> when the upgrade failed (answered with the
  HTTP status 400).
\<close>

definition client_id :: "64 word \<Rightarrow> string" where
  "client_id n = CHR ''c'' # itoa (sint n)"

datatype accept_outcome = UpgradeFailed | ProtocolRefused | PeerJoined nat

definition accept_peer :: "string option \<Rightarrow> 'h server \<Rightarrow> accept_outcome \<times> 'h server" where
  "accept_peer accepted s =
     (case accepted of
        None \<Rightarrow> (UpgradeFailed, s)
      | Some sub \<Rightarrow>
          if sub \<noteq> ''holon-rpc'' then (ProtocolRefused, s)
          else
            (let n = s_nextClientID s + 1;
                 cid = client_id n;
                 ref = s_next_ref s;
                 s1 = s\<lparr>s_nextClientID := n, s_next_ref := Suc ref,
                        s_heap := (s_heap s)(ref := new_peer cid),
                        s_peers := mput cid ref (s_peers s)\<rparr>
             in (PeerJoined ref,
                 if length (s_connectQ s1) < queue_size
                 then s1\<lparr>s_connectQ := s_connectQ s1 @ [cid]\<rparr> else s1)))"

text \<open>The deferred function, when the read loop returns.\<close>

definition disconnect :: "nat \<Rightarrow> 'h server \<Rightarrow> 'h server" where
  "disconnect ref s =
     (let s1 = cancel_peer ref s;
          s2 = s1\<lparr>s_peers := mdel (p_id (s_heap s ref)) (s_peers s1)\<rparr>;
          s3 = failPeerPending ref ErrConnectionClosed s2
      in upd_peer ref (\<lambda>p. p\<lparr>p_reading := False\<rparr>) s3)"

definition handlePeerResponse :: "nat \<Rightarrow> rpc_message \<Rightarrow> 'h server \<Rightarrow> 'h server" where
  "handlePeerResponse ref msg s =
     (case idKey (m_id msg) of
        None \<Rightarrow> s
      | Some key \<Rightarrow>
          if mget (pd_map (peer_pend s ref)) key = None then s
          else
            (let msg' =
                   (if m_jsonrpc msg \<noteq> jsonRPCVersion
                    then msg\<lparr>m_error := Some \<lparr>re_code = codeInvalidRequest,
                                re_message = ''invalid response'', re_data = GNull\<rparr>,
                             m_result := []\<rparr>
                    else msg)
             in upd_pend ref (pend_deliver key msg') s))"

text \<open>
  One turn of the read loop, for a frame that \<open>Read\<close> returned. The second component is
  the message handed to \<open>go s.handlePeerRequest(peer, msg)\<close>.
\<close>

definition read_frame ::
    "bool \<Rightarrow> bytes \<Rightarrow> nat \<Rightarrow> 'h server \<Rightarrow> rpc_message option \<times> 'h server" where
  "read_frame text data ref s =
     (if \<not> text then (None, s)
      else
        (case unmarshalMessage data of
           None \<Rightarrow>
             (let code = classifyDecodeError data;
                  message = (if code = codeParseError then ''parse error'' else ''invalid request'')
              in (None, snd (sendPeerError ref ''null'' code message GNull s)))
         | Some msg \<Rightarrow>
             if m_method msg \<noteq> [] then (Some msg, s)
             else if m_result msg \<noteq> [] \<or> m_error msg \<noteq> None then (None, handlePeerResponse ref msg s)
             else if hasID (m_id msg) then
               (None, snd (sendPeerError ref (m_id msg) codeInvalidRequest ''invalid request'' GNull s))
             else (None, s)))"

end
