(* ===== verification/Routing.thy ===== *)
theory Routing
  imports Server
begin

text \<open>
  \<^verbatim>\<open>pkg/holonrpc/routing.go\<close>: the routing hints of a request, the routing of a request to
  another peer, the fan-out to all other peers, the notifications that broadcast a
  result, and the mapping of Go errors to JSON-RPC errors.
\<close>

section \<open>Routing hints\<close>

definition routeModeDefault :: string where "routeModeDefault = ''''"
definition routeModeBroadcastResponse :: string where
  "routeModeBroadcastResponse = ''broadcast-response''"
definition routeModeFullBroadcast :: string where
  "routeModeFullBroadcast = ''full-broadcast''"

lemmas route_modes =
  routeModeDefault_def routeModeBroadcastResponse_def routeModeFullBroadcast_def

record routeHints =
  targetPeerID :: string
  mode :: string

definition rpc_err :: "int \<Rightarrow> string \<Rightarrow> gerror" where
  "rpc_err code message = ErrRPC \<lparr>re_code = code, re_message = message, re_data = GNull\<rparr>"

text \<open>The three stages of \<open>parseRouteHints\<close> after the copy of the parameters.\<close>

definition routing_hint :: "object \<Rightarrow> (string \<times> object) res" where
  "routing_hint cleaned =
     (case mget cleaned ''_routing'' of
        None \<Rightarrow> Inr (routeModeDefault, cleaned)
      | Some (GStr raw) \<Rightarrow>
          (let md = TrimSpace raw in
           if md = routeModeDefault \<or> md = routeModeBroadcastResponse \<or> md = routeModeFullBroadcast
           then Inr (md, mdel ''_routing'' cleaned)
           else Inl (rpc_err codeInvalidParams (''unsupported _routing '' @ quote_q md)))
      | Some _ \<Rightarrow> Inl (rpc_err codeInvalidParams ''_routing must be a string''))"

definition peer_hint :: "object \<Rightarrow> (string \<times> object) res" where
  "peer_hint cleaned =
     (case mget cleaned ''_peer'' of
        None \<Rightarrow> Inr ([], cleaned)
      | Some (GStr raw) \<Rightarrow>
          (let peerID = TrimSpace raw in
           if peerID = [] then Inl (rpc_err codeInvalidParams ''_peer must be non-empty'')
           else Inr (peerID, mdel ''_peer'' cleaned))
      | Some _ \<Rightarrow> Inl (rpc_err codeInvalidParams ''_peer must be a string''))"

definition fan_out_method :: "string \<Rightarrow> (string \<times> bool) res" where
  "fan_out_method trimmedMethod =
     (if HasPrefix ''*.'' trimmedMethod then
        (let m = TrimSpace (TrimPrefix ''*.'' trimmedMethod) in
         if m = [] then Inl (rpc_err codeInvalidRequest ''invalid fan-out method'')
         else Inr (m, True))
      else Inr (trimmedMethod, False))"

definition parseRouteHints ::
    "string \<Rightarrow> object \<Rightarrow> (string \<times> bool \<times> object \<times> routeHints) res" where
  "parseRouteHints method params =
     (let trimmedMethod = TrimSpace method in
      if trimmedMethod = [] then Inl (rpc_err codeInvalidRequest ''invalid request'')
      else
        (case routing_hint params of
           Inl e \<Rightarrow> Inl e
         | Inr (md, cleaned) \<Rightarrow>
             (case peer_hint cleaned of
                Inl e \<Rightarrow> Inl e
              | Inr (target, cleaned') \<Rightarrow>
                  (case fan_out_method trimmedMethod of
                     Inl e \<Rightarrow> Inl e
                   | Inr (m, fanOut) \<Rightarrow>
                       if md = routeModeFullBroadcast \<and> \<not> fanOut then
                         Inl (rpc_err codeInvalidParams ''full-broadcast requires a fan-out method'')
                       else Inr (m, fanOut, cleaned', \<lparr>targetPeerID = target, mode = md\<rparr>)))))"

section \<open>Errors\<close>

definition toResponseError :: "gerror option \<Rightarrow> response_error option" where
  "toResponseError err =
     (case err of
        None \<Rightarrow> None
      | Some e \<Rightarrow>
          (case as_rpc e of
             Some r \<Rightarrow> Some r
           | None \<Rightarrow>
               Some \<lparr>re_code = (if is_canceled e then 1 else if is_deadline e then 4 else codeUnavailable),
                     re_message = error_text e, re_data = GNull\<rparr>))"

definition sendRPCError :: "nat \<Rightarrow> bytes \<Rightarrow> gerror \<Rightarrow> 'h server \<Rightarrow> gerror option \<times> 'h server" where
  "sendRPCError ref reqID err s =
     (case toResponseError (Some err) of
        None \<Rightarrow> (None, s)
      | Some r \<Rightarrow> sendPeerError ref reqID (re_code r) (re_message r) (re_data r) s)"

section \<open>Results\<close>

text \<open>The entries of a fan-out; \<open>None\<close> is a nil map and a nil error.\<close>

record fanoutResult =
  f_peer :: string
  f_result :: "object option"
  f_error :: "response_error option"

text \<open>The struct tags of \<open>fanoutResult\<close>: \<open>omitempty\<close> drops a nil or empty map.\<close>

definition result_field :: "object option \<Rightarrow> (string \<times> string) list option" where
  "result_field r =
     (case r of
        None \<Rightarrow> Some []
      | Some ms \<Rightarrow>
          if ms = [] then Some [] else map_option (\<lambda>t. [(''result'', t)]) (json_marshal (GObj ms)))"

definition marshal_entry :: "fanoutResult \<Rightarrow> string option" where
  "marshal_entry f =
     (case (result_field (f_result f), error_field ''error'' (f_error f)) of
        (Some r, Some e) \<Rightarrow> Some (print_fields ((''peer'', json_quote (f_peer f)) # r @ e))
      | _ \<Rightarrow> None)"

fun join_elems :: "string list \<Rightarrow> string" where
  "join_elems [] = []"
| "join_elems (t # ts) = t @ (if ts = [] then [] else CHR '','' # join_elems ts)"

fun marshal_list :: "fanoutResult list \<Rightarrow> string list option" where
  "marshal_list [] = Some []"
| "marshal_list (f # fs) =
     (case (marshal_entry f, marshal_list fs) of
        (Some t, Some ts) \<Rightarrow> Some (t # ts)
      | _ \<Rightarrow> None)"

text \<open>
  What \<open>sendPeerResultAny\<close> is called with: an untyped nil, a map (which may be nil: the
  interface that holds it is not), or the entries of a fan-out.
\<close>

datatype any_result = ResNil | ResMap "object option" | ResEntries "fanoutResult list"

definition marshalAnyResult :: "any_result \<Rightarrow> bytes res" where
  "marshalAnyResult result =
     (case result of
        ResNil \<Rightarrow> Inr ''{}''
      | ResMap None \<Rightarrow> Inr ''null''
      | ResMap (Some ms) \<Rightarrow>
          (case json_marshal (GObj ms) of None \<Rightarrow> Inl ErrJson | Some b \<Rightarrow> Inr b)
      | ResEntries fs \<Rightarrow>
          (case marshal_list fs of
             None \<Rightarrow> Inl ErrJson
           | Some ts \<Rightarrow> Inr (CHR ''['' # join_elems ts @ '']'')))"

definition result_message :: "bytes \<Rightarrow> bytes \<Rightarrow> rpc_message" where
  "result_message rid result =
     empty_message\<lparr>m_jsonrpc := jsonRPCVersion, m_id := rid, m_result := result\<rparr>"

definition sendPeerResultAny ::
    "nat \<Rightarrow> bytes \<Rightarrow> any_result \<Rightarrow> 'h server \<Rightarrow> gerror option \<times> 'h server" where
  "sendPeerResultAny ref rid result s =
     (case marshalAnyResult result of
        Inl e \<Rightarrow> sendPeerError ref rid codeInternalError ''internal error'' GNull s
      | Inr resultRaw \<Rightarrow>
          (case marshalMessage (result_message rid resultRaw) of
             Inl e \<Rightarrow> sendPeerError ref rid codeInternalError ''internal error'' GNull s
           | Inr msg \<Rightarrow> writePeer ref msg s))"

definition sendPeerResult ::
    "nat \<Rightarrow> bytes \<Rightarrow> object option \<Rightarrow> 'h server \<Rightarrow> gerror option \<times> 'h server" where
  "sendPeerResult ref rid result s = sendPeerResultAny ref rid (ResMap result) s"

section \<open>Broadcasts\<close>

definition snapshotPeerIDsExcluding :: "string \<Rightarrow> 'h server \<Rightarrow> string list" where
  "snapshotPeerIDsExcluding excluded s = filter (\<lambda>cid. cid \<noteq> excluded) (mkeys (s_peers s))"

definition peerExists :: "string \<Rightarrow> 'h server \<Rightarrow> bool" where
  "peerExists cid s = (mget (s_peers s) cid \<noteq> None)"

definition notification_message :: "string \<Rightarrow> bytes \<Rightarrow> rpc_message" where
  "notification_message method params =
     empty_message\<lparr>m_jsonrpc := jsonRPCVersion, m_method := method, m_params := params\<rparr>"

text \<open>Go visits the peers in an unspecified order, the model in the order of the keys.\<close>

definition broadcastNotificationMany ::
    "string list \<Rightarrow> string \<Rightarrow> object option \<Rightarrow> 'h server \<Rightarrow> 'h server" where
  "broadcastNotificationMany exclude method payload s =
     (case marshalObject payload of
        Inl e \<Rightarrow> s
      | Inr paramsRaw \<Rightarrow>
          (case marshalMessage (notification_message method paramsRaw) of
             Inl e \<Rightarrow> s
           | Inr msg \<Rightarrow>
               foldl (\<lambda>acc e. snd (writePeer (snd e) msg acc)) s
                 (filter (\<lambda>e. fst e \<notin> set exclude) (s_peers s))))"

definition broadcastNotification ::
    "string \<Rightarrow> string \<Rightarrow> object option \<Rightarrow> 'h server \<Rightarrow> 'h server" where
  "broadcastNotification excludePeerID method payload s =
     broadcastNotificationMany (if excludePeerID \<noteq> [] then [excludePeerID] else []) method payload s"

section \<open>Fan-out\<close>

text \<open>
  A fan-out under way: the targets whose goroutine has not begun, the calls that wait,
  and the entries in the order of the channel. The goroutines run in any order.
\<close>

record fan =
  fan_method :: string
  fan_params :: object
  fan_todo :: "string list"
  fan_calls :: "(string \<times> call) list"
  fan_entries :: "fanoutResult list"

definition dispatchFanOut :: "nat \<Rightarrow> string \<Rightarrow> object \<Rightarrow> 'h server \<Rightarrow> fan res" where
  "dispatchFanOut caller method params s =
     (let targets = snapshotPeerIDsExcluding (p_id (s_heap s caller)) s in
      if targets = [] then Inl (rpc_err 5 ''no connected peers'')
      else Inr \<lparr>fan_method = method, fan_params = params, fan_todo = targets,
                fan_calls = [], fan_entries = []\<rparr>)"

definition fan_entry :: "string \<Rightarrow> object res \<Rightarrow> fanoutResult" where
  "fan_entry target r =
     (case r of
        Inl e \<Rightarrow> \<lparr>f_peer = target, f_result = None, f_error = toResponseError (Some e)\<rparr>
      | Inr out \<Rightarrow> \<lparr>f_peer = target, f_result = Some out, f_error = None\<rparr>)"

text \<open>The goroutine of one target, up to its wait and from there to its entry.\<close>

definition fan_begin :: "string \<Rightarrow> fan \<Rightarrow> 'h server \<Rightarrow> (fan \<times> 'h server) option" where
  "fan_begin target f s =
     (if target \<notin> set (fan_todo f) then None
      else
        (case invoke_begin target (fan_method f) (Some (fan_params f)) s of
           (Inl e, s') \<Rightarrow>
             Some (f\<lparr>fan_todo := remove1 target (fan_todo f),
                     fan_entries := fan_entries f @ [fan_entry target (Inl e)]\<rparr>, s')
         | (Inr c, s') \<Rightarrow>
             Some (f\<lparr>fan_todo := remove1 target (fan_todo f),
                     fan_calls := fan_calls f @ [(target, c)]\<rparr>, s')))"

definition fan_end :: "string \<Rightarrow> wake \<Rightarrow> fan \<Rightarrow> 'h server \<Rightarrow> (fan \<times> 'h server) option" where
  "fan_end target w f s =
     (case map_of (fan_calls f) target of
        None \<Rightarrow> None
      | Some c \<Rightarrow>
          (case invoke_end w c s of
             None \<Rightarrow> None
           | Some (r, s') \<Rightarrow>
               Some (f\<lparr>fan_calls := filter (\<lambda>e. fst e \<noteq> target) (fan_calls f),
                       fan_entries := fan_entries f @ [fan_entry target r]\<rparr>, s')))"

text \<open>\<open>wg.Wait()\<close>\<close>

definition fan_complete :: "fan \<Rightarrow> bool" where
  "fan_complete f \<longleftrightarrow> fan_todo f = [] \<and> fan_calls f = []"

section \<open>Routing a request\<close>

definition entry_payload :: "fanoutResult \<Rightarrow> object" where
  "entry_payload entry =
     (let payload = [(''peer'', GStr (f_peer entry))] in
      case f_error entry of
        Some e \<Rightarrow>
          mput ''error''
            (GObj (mputs [(''code'', GNum (itoa (re_code e))), (''message'', GStr (re_message e)),
                          (''data'', re_data e)] [])) payload
      | None \<Rightarrow>
          mput ''result'' (case f_result entry of None \<Rightarrow> GNull | Some r \<Rightarrow> GObj r) payload)"

text \<open>
  \<open>routePeerRequest\<close> either leaves the request to the handlers, or is finished, or
  waits: for the entries of a fan-out or for the answer of the target peer.
\<close>

datatype route_task = RouteFan fan | RouteCall call

datatype route_outcome = NotRouted | Routed | RouteWaits route_task

definition answer_error :: "nat \<Rightarrow> bytes \<Rightarrow> gerror \<Rightarrow> 'h server \<Rightarrow> 'h server" where
  "answer_error ref reqID err s = (if hasID reqID then snd (sendRPCError ref reqID err s) else s)"

definition routePeerRequest ::
    "nat \<Rightarrow> bytes \<Rightarrow> string \<Rightarrow> object \<Rightarrow> routeHints \<Rightarrow> bool \<Rightarrow> 'h server \<Rightarrow> route_outcome \<times> 'h server" where
  "routePeerRequest caller reqID method params hints fanOut s =
     (if fanOut then
        (case dispatchFanOut caller method params s of
           Inl err \<Rightarrow> (Routed, answer_error caller reqID err s)
         | Inr f \<Rightarrow> (RouteWaits (RouteFan f), s))
      else if targetPeerID hints = [] then (NotRouted, s)
      else if \<not> peerExists (targetPeerID hints) s then
        (Routed, answer_error caller reqID
           (rpc_err 5 (''peer '' @ quote_q (targetPeerID hints) @ '' not found'')) s)
      else
        (case invoke_begin (targetPeerID hints) method (Some params) s of
           (Inl err, s') \<Rightarrow> (Routed, answer_error caller reqID err s')
         | (Inr c, s') \<Rightarrow> (RouteWaits (RouteCall c), s')))"

text \<open>The rest of the two waiting branches.\<close>

definition route_fan_end ::
    "nat \<Rightarrow> bytes \<Rightarrow> string \<Rightarrow> routeHints \<Rightarrow> fanoutResult list \<Rightarrow> 'h server \<Rightarrow> 'h server" where
  "route_fan_end caller reqID method hints entries s =
     (let s1 =
            (if mode hints = routeModeFullBroadcast then
               foldl (\<lambda>acc entry. broadcastNotificationMany [p_id (s_heap acc caller), f_peer entry]
                        method (Some (entry_payload entry)) acc) s entries
             else s)
      in if hasID reqID then snd (sendPeerResultAny caller reqID (ResEntries entries) s1) else s1)"

definition route_call_end ::
    "nat \<Rightarrow> bytes \<Rightarrow> string \<Rightarrow> routeHints \<Rightarrow> object res \<Rightarrow> 'h server \<Rightarrow> 'h server" where
  "route_call_end caller reqID method hints r s =
     (case r of
        Inl err \<Rightarrow> answer_error caller reqID err s
      | Inr result \<Rightarrow>
          (let s1 =
                 (if mode hints = routeModeBroadcastResponse then
                    broadcastNotificationMany [p_id (s_heap s caller), targetPeerID hints] method
                      (Some [(''peer'', GStr (targetPeerID hints)), (''result'', GObj result)]) s
                  else s)
           in if hasID reqID then snd (sendPeerResult caller reqID (Some result) s1) else s1))"

end
