(* ===== verification/Steps.thy ===== *)
theory Steps
  imports GoPrelude
begin

text \<open>
  Systems that move by steps: the states reachable in a number of steps, and the
  contract under which an invariant indexed by that number holds in all of them. The
  index lets an invariant speak of counters that wrap around at 64 bits.
\<close>

inductive reach_in :: "'s \<Rightarrow> ('s \<Rightarrow> 's \<Rightarrow> bool) \<Rightarrow> nat \<Rightarrow> 's \<Rightarrow> bool"
  for start :: 's and move :: "'s \<Rightarrow> 's \<Rightarrow> bool" where
  reach_start: "reach_in start move 0 start"
| reach_move: "reach_in start move n w \<Longrightarrow> move w w' \<Longrightarrow> reach_in start move (Suc n) w'"

locale bounded_system =
  fixes start :: 's and move :: "'s \<Rightarrow> 's \<Rightarrow> bool" and good :: "nat \<Rightarrow> 's \<Rightarrow> bool" and bound :: nat
  assumes start_good: "good 0 start"
    and move_good: "n < bound \<Longrightarrow> good n w \<Longrightarrow> move w w' \<Longrightarrow> good (Suc n) w'"
begin

lemma reachable_good: "reach_in start move n w \<Longrightarrow> n \<le> bound \<Longrightarrow> good n w"
  by (induction rule: reach_in.induct) (auto intro: start_good move_good)

lemma reachable_move_good:
  "reach_in start move n w \<Longrightarrow> n < bound \<Longrightarrow> move w w' \<Longrightarrow> good (Suc n) w'"
  by (rule move_good [OF _ reachable_good]) simp_all

end

text \<open>A state property that every move keeps.\<close>

locale closed_system =
  fixes start :: 's and move :: "'s \<Rightarrow> 's \<Rightarrow> bool" and inv :: "'s \<Rightarrow> bool"
  assumes start_inv: "inv start"
    and move_inv: "inv w \<Longrightarrow> move w w' \<Longrightarrow> inv w'"
begin

lemma reachable_inv: "reach_in start move n w \<Longrightarrow> inv w"
  by (induction rule: reach_in.induct) (auto intro: start_inv move_inv)

end

text \<open>
  Systems whose steps may carry a label, the runs of such a system with the labels they show,
  and of a specification that takes labels only.
\<close>

fun run_labels :: "('e \<Rightarrow> 'c \<Rightarrow> ('l option \<times> 'c) option) \<Rightarrow> 'e list \<Rightarrow> 'c \<Rightarrow> ('l list \<times> 'c) option" where
  "run_labels move [] c = Some ([], c)"
| "run_labels move (e # es) c =
     (case move e c of
        None \<Rightarrow> None
      | Some (l, c') \<Rightarrow>
          (case run_labels move es c' of
             None \<Rightarrow> None
           | Some (ls, d) \<Rightarrow> Some ((case l of None \<Rightarrow> ls | Some x \<Rightarrow> x # ls), d)))"

fun run_spec :: "('l \<Rightarrow> 'a \<Rightarrow> 'a option) \<Rightarrow> 'l list \<Rightarrow> 'a \<Rightarrow> 'a option" where
  "run_spec move [] a = Some a"
| "run_spec move (l # ls) a = (case move l a of None \<Rightarrow> None | Some a' \<Rightarrow> run_spec move ls a')"

text \<open>
  A simulation: a step without a label leaves the specification where it is, a labelled one is
  a step of it. As for the invariants, the relation is indexed by the number of steps.
\<close>

locale label_simulation =
  fixes move :: "'e \<Rightarrow> 'c \<Rightarrow> ('l option \<times> 'c) option" and spec :: "'l \<Rightarrow> 'a \<Rightarrow> 'a option"
    and rel :: "nat \<Rightarrow> 'c \<Rightarrow> 'a \<Rightarrow> bool" and bound :: nat
  assumes silent: "n < bound \<Longrightarrow> rel n c a \<Longrightarrow> move e c = Some (None, c') \<Longrightarrow> rel (Suc n) c' a"
    and visible: "n < bound \<Longrightarrow> rel n c a \<Longrightarrow> move e c = Some (Some l, c') \<Longrightarrow>
      \<exists>a'. spec l a = Some a' \<and> rel (Suc n) c' a'"
begin

lemma run_simulated:
  "rel n c a \<Longrightarrow> run_labels move es c = Some (ls, d) \<Longrightarrow> n + length es \<le> bound \<Longrightarrow>
   \<exists>a'. run_spec spec ls a = Some a' \<and> rel (n + length es) d a'"
proof (induction es arbitrary: n c a ls)
  case (Cons e es)
  then obtain l c' ls' where m: "move e c = Some (l, c')" "run_labels move es c' = Some (ls', d)"
    "ls = (case l of None \<Rightarrow> ls' | Some x \<Rightarrow> x # ls')"
    by (auto split: option.splits)
  have n: "n < bound" "Suc n + length es \<le> bound" using Cons.prems(3) by simp_all
  obtain a' where a': "rel (Suc n) c' a'" "case l of None \<Rightarrow> a' = a | Some x \<Rightarrow> spec x a = Some a'"
  proof (cases l)
    case None
    with silent [OF n(1) Cons.prems(1)] m(1) that show thesis by simp
  next
    case (Some x)
    with visible [OF n(1) Cons.prems(1)] m(1) that show thesis by auto
  qed
  from Cons.IH [OF a'(1) m(2) n(2)] a'(2) m(3) show ?case by (auto split: option.splits)
qed simp

end

end
