(* ===== verification/Client.thy ===== *)
theory Client
  imports Routing Steps Complex_Main
begin

text \<open>
  \<^verbatim>\<open>pkg/holonrpc/client.go\<close>: the state of a \<open>Client\<close>, its connections and reconnect loops,
  \<open>Connect\<close>, \<open>ConnectWithReconnect\<close>, \<open>Close\<close>, \<open>Invoke\<close>, the read loop, the requests of
  the server, and the reconnect loop as a state machine.
\<close>

section \<open>State\<close>

text \<open>
  A connection: what its \<open>Write\<close> answers, the text frames sent, the close frames asked for,
  whether the receive context made for it is done, and whether its read loop runs (the
  channel \<open>done\<close> of the connection is closed when it has returned).
\<close>

record conn =
  n_ws :: "gerror option"
  n_sent :: "bytes list"
  n_closed :: "(nat \<times> string) list"
  n_rx_done :: bool
  n_reading :: bool

text \<open>
  A reconnect loop: its context, the token in its channel \<open>wake\<close> of capacity one, and where
  it stands. \<open>LoopLooks\<close>, \<open>LoopDials\<close>, \<open>LoopChecks\<close> and \<open>LoopSleeps\<close> carry the attempt.
\<close>

datatype loop_pc =
    LoopWaits
  | LoopLooks nat
  | LoopDials nat string
  | LoopChecks nat
  | LoopSleeps nat
  | LoopEnded

record rloop =
  l_ctx_done :: bool
  l_wake :: bool
  l_pc :: loop_pc

text \<open>
  A \<open>Client\<close>. Connections and loops are references into stores. The five \<open>reconnect...\<close>
  fields that are assigned and cleared together are one reference, \<open>k_reconnect\<close>; the four
  fields of the connection are apart, because \<open>Close\<close> leaves \<open>rxCtx\<close> in place.
\<close>

record 'h client =
  k_ws :: "nat option"
  k_rxCtx :: "nat option"
  k_cancel :: "nat option"
  k_done :: "nat option"
  k_closed :: bool
  k_reconnectURL :: string
  k_reconnect :: "nat option"
  k_handlers :: "(string, 'h) gmap"
  k_pend :: "rpc_message pend"
  k_nextClientID :: "64 word"
  k_conns :: "nat \<Rightarrow> conn"
  k_next_conn :: nat
  k_loops :: "nat \<Rightarrow> rloop"
  k_next_loop :: nat

definition new_conn :: conn where
  "new_conn = \<lparr>n_ws = None, n_sent = [], n_closed = [], n_rx_done = False, n_reading = False\<rparr>"

definition new_loop :: rloop where
  "new_loop = \<lparr>l_ctx_done = False, l_wake = False, l_pc = LoopWaits\<rparr>"

definition NewClient :: "'h client" where
  "NewClient =
     \<lparr>k_ws = None, k_rxCtx = None, k_cancel = None, k_done = None, k_closed = False,
      k_reconnectURL = [], k_reconnect = None, k_handlers = [], k_pend = pend_empty,
      k_nextClientID = 0, k_conns = (\<lambda>_. new_conn), k_next_conn = 0,
      k_loops = (\<lambda>_. new_loop), k_next_loop = 0\<rparr>"

definition upd_conn :: "nat \<Rightarrow> (conn \<Rightarrow> conn) \<Rightarrow> 'h client \<Rightarrow> 'h client" where
  "upd_conn r f c = c\<lparr>k_conns := (k_conns c)(r := f (k_conns c r))\<rparr>"

definition upd_loop :: "nat \<Rightarrow> (rloop \<Rightarrow> rloop) \<Rightarrow> 'h client \<Rightarrow> 'h client" where
  "upd_loop l f c = c\<lparr>k_loops := (k_loops c)(l := f (k_loops c l))\<rparr>"

definition upd_pending :: "(rpc_message pend \<Rightarrow> rpc_message pend) \<Rightarrow> 'h client \<Rightarrow> 'h client" where
  "upd_pending f c = c\<lparr>k_pend := f (k_pend c)\<rparr>"

definition client_Register :: "string \<Rightarrow> 'h \<Rightarrow> 'h client \<Rightarrow> 'h client" where
  "client_Register mname handler c = c\<lparr>k_handlers := mput mname handler (k_handlers c)\<rparr>"

definition client_Unregister :: "string \<Rightarrow> 'h client \<Rightarrow> 'h client" where
  "client_Unregister mname c = c\<lparr>k_handlers := mdel mname (k_handlers c)\<rparr>"

section \<open>Connecting\<close>

definition err_client_closed :: gerror where
  "err_client_closed = ErrText ''holon-rpc: client is closed''"

definition err_already :: gerror where
  "err_already = ErrText ''holon-rpc: client already connected''"

definition conn_close :: "nat \<Rightarrow> nat \<Rightarrow> string \<Rightarrow> 'h client \<Rightarrow> 'h client" where
  "conn_close r code reason = upd_conn r (\<lambda>n. n\<lparr>n_closed := n_closed n @ [(code, reason)]\<rparr>)"

definition rx_cancel :: "nat \<Rightarrow> 'h client \<Rightarrow> 'h client" where
  "rx_cancel r = upd_conn r (\<lambda>n. n\<lparr>n_rx_done := True\<rparr>)"

definition open_conn :: "'h client \<Rightarrow> nat \<times> 'h client" where
  "open_conn c =
     (let r = k_next_conn c in (r, c\<lparr>k_next_conn := Suc r, k_conns := (k_conns c)(r := new_conn)\<rparr>))"

text \<open>The assignment of the four fields and \<open>go c.readLoop\<close>.\<close>

definition install :: "nat \<Rightarrow> 'h client \<Rightarrow> 'h client" where
  "install r c =
     upd_conn r (\<lambda>n. n\<lparr>n_reading := True\<rparr>)
       (c\<lparr>k_ws := Some r, k_rxCtx := Some r, k_cancel := Some r, k_done := Some r\<rparr>)"

text \<open>\<open>Connect\<close> up to the dial; \<open>None\<close> goes on.\<close>

definition connect_check :: "string \<Rightarrow> 'h client \<Rightarrow> gerror option" where
  "connect_check url c =
     (if TrimSpace url = [] then Some (ErrText ''holon-rpc: url is required'')
      else if k_closed c then Some err_client_closed
      else if k_ws c \<noteq> None then Some err_already
      else None)"

text \<open>The rest, with what \<open>websocket.Dial\<close> returned: an error or the negotiated subprotocol.\<close>

definition connect_dialed :: "string res \<Rightarrow> 'h client \<Rightarrow> gerror option \<times> 'h client" where
  "connect_dialed dialed c =
     (case dialed of
        Inl e \<Rightarrow> (Some (ErrWrap ''holon-rpc: dial failed'' e), c)
      | Inr sub \<Rightarrow>
          (case open_conn c of
             (r, c1) \<Rightarrow>
               if sub \<noteq> ''holon-rpc'' then
                 (Some (ErrText ''holon-rpc: server did not negotiate holon-rpc''),
                  conn_close r 1002 ''missing holon-rpc subprotocol'' c1)
               else if k_closed c1 then
                 (Some err_client_closed, conn_close r 1000 ''client closed'' (rx_cancel r c1))
               else (None, install r c1)))"

definition client_Connect :: "(string \<Rightarrow> string res) \<Rightarrow> string \<Rightarrow> 'h client \<Rightarrow> gerror option \<times> 'h client" where
  "client_Connect dial url c =
     (case connect_check url c of
        Some e \<Rightarrow> (Some e, c)
      | None \<Rightarrow> connect_dialed (dial url) c)"

text \<open>\<open>ConnectWithReconnect\<close> up to its call of \<open>Connect\<close>, with the loop it has started.\<close>

definition reconnect_begin :: "string \<Rightarrow> 'h client \<Rightarrow> nat res \<times> 'h client" where
  "reconnect_begin url c =
     (if TrimSpace url = [] then (Inl (ErrText ''holon-rpc: url is required''), c)
      else if k_closed c then (Inl err_client_closed, c)
      else if k_ws c \<noteq> None \<or> k_reconnect c \<noteq> None then (Inl err_already, c)
      else
        (let l = k_next_loop c in
         (Inr l, c\<lparr>k_reconnectURL := url, k_reconnect := Some l, k_next_loop := Suc l,
                   k_loops := (k_loops c)(l := new_loop)\<rparr>)))"

definition loop_cancel :: "nat \<Rightarrow> 'h client \<Rightarrow> 'h client" where
  "loop_cancel l = upd_loop l (\<lambda>p. p\<lparr>l_ctx_done := True\<rparr>)"

text \<open>\<open>disableReconnect\<close> up to its wait for the end of the loop.\<close>

definition disableReconnect :: "nat \<Rightarrow> 'h client \<Rightarrow> 'h client" where
  "disableReconnect expected c =
     (if k_reconnect c \<noteq> Some expected then c
      else loop_cancel expected (c\<lparr>k_reconnectURL := [], k_reconnect := None\<rparr>))"

definition ConnectWithReconnect ::
    "(string \<Rightarrow> string res) \<Rightarrow> string \<Rightarrow> 'h client \<Rightarrow> gerror option \<times> 'h client" where
  "ConnectWithReconnect dial url c =
     (case reconnect_begin url c of
        (Inl e, c1) \<Rightarrow> (Some e, c1)
      | (Inr l, c1) \<Rightarrow>
          (case client_Connect dial url c1 of
             (Some e, c2) \<Rightarrow> (Some e, disableReconnect l c2)
           | (None, c2) \<Rightarrow> (None, c2)))"

definition Connected :: "'h client \<Rightarrow> bool" where
  "Connected c \<longleftrightarrow> \<not> k_closed c \<and> k_ws c \<noteq> None"

section \<open>Closing\<close>

definition failAllPending :: "gerror \<Rightarrow> 'h client \<Rightarrow> 'h client" where
  "failAllPending err = upd_pending (pend_fail (unavailable_message err))"

text \<open>
  \<open>Close\<close> up to its waits: the read loop and the reconnect loop it waits for. \<open>None\<close>: the
  client is closed already and \<open>Close\<close> returns.
\<close>

definition on_ref :: "(nat \<Rightarrow> 'h client \<Rightarrow> 'h client) \<Rightarrow> nat option \<Rightarrow> 'h client \<Rightarrow> 'h client" where
  "on_ref f r c = (case r of None \<Rightarrow> c | Some x \<Rightarrow> f x c)"

definition client_close_begin :: "'h client \<Rightarrow> (nat option \<times> nat option) option \<times> 'h client" where
  "client_close_begin c =
     (if k_closed c then (None, c)
      else
        (let c1 = c\<lparr>k_closed := True, k_ws := None, k_cancel := None, k_done := None,
                    k_reconnectURL := [], k_reconnect := None\<rparr>;
             c2 = on_ref rx_cancel (k_cancel c) c1;
             c3 = on_ref loop_cancel (k_reconnect c) c2;
             c4 = on_ref (\<lambda>r. conn_close r 1000 ''client close'') (k_ws c) c3
         in (Some (k_done c, k_reconnect c), c4)))"

definition client_close_end :: "nat option \<times> nat option \<Rightarrow> 'h client \<Rightarrow> 'h client option" where
  "client_close_end w c =
     (if (\<forall>r \<in> set_option (fst w). \<not> n_reading (k_conns c r)) \<and>
         (\<forall>l \<in> set_option (snd w). l_pc (k_loops c l) = LoopEnded)
      then Some (failAllPending ErrConnectionClosed c) else None)"

section \<open>Sending\<close>

definition client_write :: "nat \<Rightarrow> bytes \<Rightarrow> 'h client \<Rightarrow> gerror option \<times> 'h client" where
  "client_write r payload c =
     (case n_ws (k_conns c r) of
        Some e \<Rightarrow> (Some (ErrWrap ''holon-rpc: write failed'' e), c)
      | None \<Rightarrow> (None, upd_conn r (\<lambda>n. n\<lparr>n_sent := n_sent n @ [payload]\<rparr>) c))"

definition sendError ::
    "nat \<Rightarrow> bytes \<Rightarrow> int \<Rightarrow> string \<Rightarrow> gany \<Rightarrow> 'h client \<Rightarrow> gerror option \<times> 'h client" where
  "sendError r rid code message data c =
     (case marshalMessage (error_message rid code message data) of
        Inl e \<Rightarrow> (Some e, c)
      | Inr msg \<Rightarrow> client_write r msg c)"

definition sendResult :: "nat \<Rightarrow> bytes \<Rightarrow> object option \<Rightarrow> 'h client \<Rightarrow> gerror option \<times> 'h client" where
  "sendResult r rid result c =
     (case marshalObject result of
        Inl e \<Rightarrow> sendError r rid codeInternalError ''internal error'' GNull c
      | Inr resultRaw \<Rightarrow>
          (case marshalMessage (result_message rid resultRaw) of
             Inl e \<Rightarrow> sendError r rid codeInternalError ''internal error'' GNull c
           | Inr data \<Rightarrow> client_write r data c))"

section \<open>Invoke\<close>

definition currentConn :: "'h client \<Rightarrow> (nat \<times> nat) res" where
  "currentConn c =
     (if k_closed c then Inl err_client_closed
      else
        (case (k_ws c, k_cancel c, k_rxCtx c) of
           (Some ws, Some _, Some rx) \<Rightarrow> Inr (ws, rx)
         | _ \<Rightarrow>
             if k_reconnect c \<noteq> None then
               Inl (rpc_err codeUnavailable (error_text ErrConnectionClosed))
             else Inl (ErrText ''holon-rpc: client is not connected'')))"

text \<open>A call under way: its key, its channel, and the connection whose receive context it watches.\<close>

record ccall =
  cc_key :: bytes
  cc_chan :: nat
  cc_rx :: nat

definition ccall_done :: "ccall \<Rightarrow> 'h client \<Rightarrow> 'h client" where
  "ccall_done cl = upd_pending (pend_remove (cc_key cl))"

definition client_send ::
    "nat \<Rightarrow> bytes \<Rightarrow> string \<Rightarrow> object option \<Rightarrow> 'h client \<Rightarrow> gerror option \<times> 'h client" where
  "client_send ws idRaw mname params c =
     (case marshalObject params of
        Inl e \<Rightarrow> (Some (ErrWrap ''holon-rpc: marshal params'' e), c)
      | Inr paramsRaw \<Rightarrow>
          (case marshalMessage (request_message idRaw mname paramsRaw) of
             Inl e \<Rightarrow> (Some (ErrWrap ''holon-rpc: marshal request'' e), c)
           | Inr msg \<Rightarrow> client_write ws msg c))"

definition client_invoke_begin :: "string \<Rightarrow> object option \<Rightarrow> 'h client \<Rightarrow> ccall res \<times> 'h client" where
  "client_invoke_begin mname params c =
     (if TrimSpace mname = [] then (Inl (ErrText ''holon-rpc: method is required''), c)
      else
        (case currentConn c of
           Inl e \<Rightarrow> (Inl e, c)
         | Inr (ws, rx) \<Rightarrow>
             (let n = k_nextClientID c + 1;
                  idRaw = makeID (client_id n);
                  key = (case idKey idRaw of None \<Rightarrow> [] | Some k \<Rightarrow> k);
                  ch = fst (pend_register key (k_pend c));
                  cl = \<lparr>cc_key = key, cc_chan = ch, cc_rx = rx\<rparr>;
                  c1 = upd_pending (\<lambda>p. snd (pend_register key p)) (c\<lparr>k_nextClientID := n\<rparr>)
              in (case client_send ws idRaw mname params c1 of
                    (Some e, c2) \<Rightarrow> (Inl e, ccall_done cl c2)
                  | (None, c2) \<Rightarrow> (Inr cl, c2)))))"

definition client_invoke_end :: "wake \<Rightarrow> ccall \<Rightarrow> 'h client \<Rightarrow> (object res \<times> 'h client) option" where
  "client_invoke_end w cl c =
     (case w of
        WakeResponse \<Rightarrow>
          (case pend_take (cc_chan cl) (k_pend c) of
             None \<Rightarrow> None
           | Some (resp, pd) \<Rightarrow> Some (response_result resp, ccall_done cl (upd_pending (\<lambda>_. pd) c)))
      | WakeCtx e \<Rightarrow> Some (Inl e, ccall_done cl c)
      | WakePeerGone \<Rightarrow>
          if n_rx_done (k_conns c (cc_rx cl)) then Some (Inl ErrConnectionClosed, ccall_done cl c)
          else None)"

section \<open>Frames\<close>

definition handleResponse :: "rpc_message \<Rightarrow> 'h client \<Rightarrow> 'h client" where
  "handleResponse msg c =
     (case idKey (m_id msg) of
        None \<Rightarrow> c
      | Some key \<Rightarrow>
          if mget (pd_map (k_pend c)) key = None then c
          else
            (let msg' =
                   (if m_jsonrpc msg \<noteq> jsonRPCVersion
                    then msg\<lparr>m_error := Some \<lparr>re_code = codeInvalidRequest,
                                re_message = ''invalid response'', re_data = GNull\<rparr>,
                             m_result := []\<rparr>
                    else msg)
             in upd_pending (pend_deliver key msg') c))"

text \<open>One turn of \<open>readLoop\<close>; the message goes to \<open>go c.handleRequest(ws, c.rxCtx, msg)\<close>.\<close>

definition client_read_frame ::
    "bool \<Rightarrow> bytes \<Rightarrow> nat \<Rightarrow> 'h client \<Rightarrow> rpc_message option \<times> 'h client" where
  "client_read_frame is_text data r c =
     (if \<not> is_text then (None, c)
      else
        (case unmarshalMessage data of
           None \<Rightarrow>
             (let code = classifyDecodeError data;
                  message = (if code = codeParseError then ''parse error'' else ''invalid request'')
              in (None, snd (sendError r ''null'' code message GNull c)))
         | Some msg \<Rightarrow>
             if m_method msg \<noteq> [] then (Some msg, c)
             else if m_result msg \<noteq> [] \<or> m_error msg \<noteq> None then (None, handleResponse msg c)
             else if hasID (m_id msg) then
               (None, snd (sendError r (m_id msg) codeInvalidRequest ''invalid request'' GNull c))
             else (None, c)))"

definition onDisconnect :: "nat \<Rightarrow> 'h client \<Rightarrow> 'h client" where
  "onDisconnect r c =
     (if k_ws c \<noteq> Some r then c
      else
        (let c1 = on_ref rx_cancel (k_cancel c)
                    (c\<lparr>k_ws := None, k_cancel := None, k_rxCtx := None, k_done := None\<rparr>);
             c2 = failAllPending ErrConnectionClosed c1
         in if k_closed c then c2
            else on_ref (\<lambda>l. upd_loop l (\<lambda>p. p\<lparr>l_wake := True\<rparr>)) (k_reconnect c) c2))"

text \<open>The return of \<open>readLoop\<close>: its two deferred calls.\<close>

definition read_end :: "nat \<Rightarrow> 'h client \<Rightarrow> 'h client" where
  "read_end r c = upd_conn r (\<lambda>n. n\<lparr>n_reading := False\<rparr>) (onDisconnect r c)"

section \<open>Requests of the server\<close>

definition client_answer :: "nat \<Rightarrow> bytes \<Rightarrow> int \<Rightarrow> string \<Rightarrow> 'h client \<Rightarrow> 'h client" where
  "client_answer r reqID code message c =
     (if hasID reqID then snd (sendError r reqID code message GNull c) else c)"

text \<open>\<open>handleRequest\<close> up to the call of the handler: the handler and its parameters.\<close>

definition handleRequest ::
    "nat \<Rightarrow> rpc_message \<Rightarrow> 'h client \<Rightarrow> ('h \<times> object) option \<times> 'h client" where
  "handleRequest r msg c =
     (let reqID = m_id msg; mname = TrimSpace (m_method msg) in
      if m_jsonrpc msg \<noteq> jsonRPCVersion then
        (None, client_answer r reqID codeInvalidRequest ''invalid request'' c)
      else if mname = [] then
        (None, client_answer r reqID codeInvalidRequest ''invalid request'' c)
      else if mname = ''rpc.heartbeat'' then
        (None, if hasID reqID then snd (sendResult r reqID (Some []) c) else c)
      else if hasID reqID \<and>
              (case decodeStringID reqID of Inl _ \<Rightarrow> True | Inr sid \<Rightarrow> \<not> HasPrefix ''s'' sid) then
        (None, snd (sendError r reqID codeInvalidRequest
                (''server request id must start with '' @ [CHR 0x27, CHR ''s'', CHR 0x27]) GNull c))
      else
        (case decodeParams (m_params msg) of
           Inl err \<Rightarrow> (None, client_answer r reqID codeInvalidParams (error_text err) c)
         | Inr params \<Rightarrow>
             (case mget (k_handlers c) mname of
                None \<Rightarrow>
                  (None, client_answer r reqID codeMethodNotFound (''method '' @ quote_q mname @ '' not found'') c)
              | Some handler \<Rightarrow> (Some (handler, params), c))))"

text \<open>The rest of \<open>handleRequest\<close>, with what the handler returned.\<close>

definition client_handler_end :: "nat \<Rightarrow> bytes \<Rightarrow> object option res \<Rightarrow> 'h client \<Rightarrow> 'h client" where
  "client_handler_end r reqID out c =
     (case out of
        Inl err \<Rightarrow>
          if \<not> hasID reqID then c
          else
            (case as_rpc err of
               Some e \<Rightarrow> snd (sendError r reqID (re_code e) (re_message e) (re_data e) c)
             | None \<Rightarrow> snd (sendError r reqID codeInternalError ''internal error'' GNull c))
      | Inr result \<Rightarrow> if hasID reqID then snd (sendResult r reqID result c) else c)"

section \<open>The reconnect loop\<close>

text \<open>
  The delay in nanoseconds before the next attempt, for a value \<open>u\<close> of \<open>rand.Float64()\<close>,
  which lies in [0, 1). Powers of two and the cap are exact in \<^verbatim>\<open>float64\<close>; the rounding of
  the product with the jitter is not modelled.
\<close>

definition reconnectMinDelay :: nat where "reconnectMinDelay = 500000000"
definition reconnectMaxDelay :: nat where "reconnectMaxDelay = 30000000000"

definition reconnectDelay :: "nat \<Rightarrow> rat \<Rightarrow> int" where
  "reconnectDelay attempt u =
     (let base = (if reconnectMinDelay * 2 ^ attempt > reconnectMaxDelay then reconnectMaxDelay
                  else reconnectMinDelay * 2 ^ attempt)
      in \<lfloor>of_nat base * (1 + u * (1 / 10))\<rfloor>)"

datatype loop_event = OnCtx | OnWake | OnLook | OnDial "string res" | OnCheck | OnTimer

definition loop_goto :: "nat \<Rightarrow> loop_pc \<Rightarrow> 'h client \<Rightarrow> 'h client" where
  "loop_goto l pc = upd_loop l (\<lambda>p. p\<lparr>l_pc := pc\<rparr>)"

text \<open>The switch after a dial that negotiated the subprotocol.\<close>

definition loop_dialed :: "nat \<Rightarrow> nat \<Rightarrow> nat \<Rightarrow> 'h client \<Rightarrow> 'h client" where
  "loop_dialed l attempt r c =
     (if k_closed c then loop_goto l LoopEnded (conn_close r 1000 ''client closed'' (rx_cancel r c))
      else if k_ws c \<noteq> None then
        loop_goto l (LoopChecks attempt) (conn_close r 1000 ''already connected'' (rx_cancel r c))
      else loop_goto l (LoopChecks attempt) (install r c))"

fun loop_step :: "loop_event \<Rightarrow> loop_pc \<Rightarrow> nat \<Rightarrow> 'h client \<Rightarrow> 'h client option" where
  "loop_step OnCtx LoopWaits l c =
     (if l_ctx_done (k_loops c l) then Some (loop_goto l LoopEnded c) else None)"
| "loop_step OnWake LoopWaits l c =
     (if l_wake (k_loops c l)
      then Some (loop_goto l (LoopLooks 0) (upd_loop l (\<lambda>p. p\<lparr>l_wake := False\<rparr>) c)) else None)"
| "loop_step OnLook (LoopLooks attempt) l c =
     Some (if k_closed c then loop_goto l LoopEnded c
           else if k_ws c \<noteq> None then loop_goto l LoopWaits c
           else loop_goto l (LoopDials attempt (k_reconnectURL c)) c)"
| "loop_step (OnDial dialed) (LoopDials attempt url) l c =
     Some (case dialed of
             Inl e \<Rightarrow> loop_goto l (LoopSleeps attempt) c
           | Inr sub \<Rightarrow>
               (case open_conn c of
                  (r, c1) \<Rightarrow>
                    if sub \<noteq> ''holon-rpc'' then
                      loop_goto l (LoopSleeps attempt) (conn_close r 1002 ''missing holon-rpc subprotocol'' c1)
                    else loop_dialed l attempt r c1))"
| "loop_step OnCheck (LoopChecks attempt) l c =
     Some (if Connected c then loop_goto l LoopWaits c else loop_goto l (LoopSleeps attempt) c)"
| "loop_step OnCtx (LoopSleeps attempt) l c =
     (if l_ctx_done (k_loops c l) then Some (loop_goto l LoopEnded c) else None)"
| "loop_step OnTimer (LoopSleeps attempt) l c = Some (loop_goto l (LoopLooks (Suc attempt)) c)"
| "loop_step _ _ l c = None"

end
