(* ===== verification/Dispatch.thy ===== *)
theory Dispatch
  imports Routing Steps
begin

text \<open>
  The dispatch of one request (\<open>handlePeerRequest\<close> and \<open>callPeerHandler\<close> of
  \<^verbatim>\<open>pkg/holonrpc/server.go\<close>) and the server as a whole: its state together with the
  goroutines that wait, and the steps that the environment and the goroutines make.
\<close>

section \<open>Goroutines\<close>

text \<open>
  A goroutine at a point where it waits: a request that has been read and not begun, a
  request that waits for other peers, a request whose handler runs, a caller of
  \<open>Invoke\<close>, and a \<open>Start\<close> between its two critical sections (the address it listens on
  and the path).
\<close>

datatype 'h task =
    ReqTask nat rpc_message
  | RouteTask nat bytes string routeHints route_task
  | HandlerTask nat bytes 'h object
  | ApiTask call
  | StartTask string string

section \<open>Requests\<close>

definition answer_code :: "nat \<Rightarrow> bytes \<Rightarrow> int \<Rightarrow> string \<Rightarrow> 'h server \<Rightarrow> 'h server" where
  "answer_code ref reqID code message s =
     (if hasID reqID then snd (sendPeerError ref reqID code message GNull s) else s)"

definition handlePeerRequest :: "nat \<Rightarrow> rpc_message \<Rightarrow> 'h server \<Rightarrow> 'h task option \<times> 'h server" where
  "handlePeerRequest ref msg s =
     (let reqID = m_id msg; method = TrimSpace (m_method msg) in
      if m_jsonrpc msg \<noteq> jsonRPCVersion then
        (None, answer_code ref reqID codeInvalidRequest ''invalid request'' s)
      else if method = [] then
        (None, answer_code ref reqID codeInvalidRequest ''invalid request'' s)
      else if method = ''rpc.heartbeat'' then
        (None, if hasID reqID then snd (sendPeerResult ref reqID (Some []) s) else s)
      else if method = ''rpc.peers'' then
        (None, if hasID reqID then snd (sendPeerResult ref reqID (Some [(''peers'', peersResult s)]) s) else s)
      else
        (case decodeParams (m_params msg) of
           Inl err \<Rightarrow> (None, answer_code ref reqID codeInvalidParams (error_text err) s)
         | Inr params \<Rightarrow>
             (case parseRouteHints method params of
                Inl err \<Rightarrow> (None, answer_error ref reqID err s)
              | Inr (method', fanOut, params', hints) \<Rightarrow>
                  (case routePeerRequest ref reqID method' params' hints fanOut s of
                     (Routed, s') \<Rightarrow> (None, s')
                   | (RouteWaits rt, s') \<Rightarrow> (Some (RouteTask ref reqID method' hints rt), s')
                   | (NotRouted, s') \<Rightarrow>
                       (case mget (s_handlers s') method' of
                          None \<Rightarrow>
                            (None, answer_code ref reqID codeMethodNotFound
                               (''method '' @ quote_q method' @ '' not found'') s')
                        | Some handler \<Rightarrow> (Some (HandlerTask ref reqID handler params'), s'))))))"

text \<open>
  The \<open>select\<close> of \<open>callPeerHandler\<close>: the handler has returned (an error or a map, which
  may be nil), or the context of the peer is done.
\<close>

datatype handler_wake = HandlerReturned "object option res" | HandlerCtx

definition callPeerHandler_end :: "handler_wake \<Rightarrow> nat \<Rightarrow> 'h server \<Rightarrow> object option res option" where
  "callPeerHandler_end w ref s =
     (case w of
        HandlerReturned out \<Rightarrow> Some out
      | HandlerCtx \<Rightarrow> if p_cancelled (s_heap s ref) then Some (Inl ErrCanceled) else None)"

text \<open>The rest of \<open>handlePeerRequest\<close>.\<close>

definition handler_end :: "nat \<Rightarrow> bytes \<Rightarrow> object option res \<Rightarrow> 'h server \<Rightarrow> 'h server" where
  "handler_end ref reqID out s =
     (case out of
        Inl err \<Rightarrow>
          if is_canceled err \<or> is_deadline err then s
          else if \<not> hasID reqID then s
          else
            (case as_rpc err of
               Some e \<Rightarrow> snd (sendPeerError ref reqID (re_code e) (re_message e) (re_data e) s)
             | None \<Rightarrow> snd (sendPeerError ref reqID codeInternalError ''internal error'' GNull s))
      | Inr result \<Rightarrow> if hasID reqID then snd (sendPeerResult ref reqID result s) else s)"

section \<open>What a goroutine does next\<close>

datatype task_event =
    Go
  | Woken wake
  | FanGo string
  | FanWoken string wake
  | FanDone
  | HandlerWoken handler_wake

text \<open>The context of a routed call is the caller's, which is cancelled and has no deadline.\<close>

definition ctx_ready :: "nat \<Rightarrow> wake \<Rightarrow> 'h server \<Rightarrow> bool" where
  "ctx_ready ref w s =
     (case w of
        WakeCtx e \<Rightarrow> p_cancelled (s_heap s ref) \<and> e = ErrCanceled
      | _ \<Rightarrow> True)"

text \<open>
  One step of a goroutine: the task it becomes, if it waits again, and the state.
  \<open>None\<close>: the event does not concern the task or is not ready.
\<close>

fun run_task :: "task_event \<Rightarrow> 'h task \<Rightarrow> 'h server \<Rightarrow> ('h task option \<times> 'h server) option" where
  "run_task Go (ReqTask ref msg) s = Some (handlePeerRequest ref msg s)"
| "run_task Go (StartTask addr path) s = Some (None, snd (start_commit addr path s))"
| "run_task (Woken w) (ApiTask c) s = map_option (\<lambda>(r, s'). (None, s')) (invoke_end w c s)"
| "run_task (Woken w) (RouteTask caller reqID method hints (RouteCall c)) s =
     (if ctx_ready caller w s then
        map_option (\<lambda>(r, s'). (None, route_call_end caller reqID method hints r s')) (invoke_end w c s)
      else None)"
| "run_task (FanGo target) (RouteTask caller reqID method hints (RouteFan f)) s =
     map_option (\<lambda>(f', s'). (Some (RouteTask caller reqID method hints (RouteFan f')), s'))
       (fan_begin target f s)"
| "run_task (FanWoken target w) (RouteTask caller reqID method hints (RouteFan f)) s =
     (if ctx_ready caller w s then
        map_option (\<lambda>(f', s'). (Some (RouteTask caller reqID method hints (RouteFan f')), s'))
          (fan_end target w f s)
      else None)"
| "run_task FanDone (RouteTask caller reqID method hints (RouteFan f)) s =
     (if fan_complete f then
        Some (None, route_fan_end caller reqID method hints (fan_entries f) s)
      else None)"
| "run_task (HandlerWoken w) (HandlerTask ref reqID handler params) s =
     map_option (\<lambda>out. (None, handler_end ref reqID out s)) (callPeerHandler_end w ref s)"
| "run_task _ _ _ = None"

section \<open>The server and its environment\<close>

record 'h world =
  w_srv :: "'h server"
  w_tasks :: "(nat, 'h task) gmap"
  w_next :: nat

definition new_world :: "string \<Rightarrow> 'h world" where
  "new_world bindURL = \<lparr>w_srv = NewServer bindURL, w_tasks = [], w_next = 0\<rparr>"

definition spawn :: "'h task option \<Rightarrow> 'h world \<Rightarrow> 'h world" where
  "spawn k w =
     (case k of
        None \<Rightarrow> w
      | Some task \<Rightarrow> w\<lparr>w_tasks := mput (w_next w) task (w_tasks w), w_next := Suc (w_next w)\<rparr>)"

definition set_task :: "nat \<Rightarrow> 'h task option \<Rightarrow> 'h world \<Rightarrow> 'h world" where
  "set_task t k w =
     w\<lparr>w_tasks := (case k of None \<Rightarrow> mdel t (w_tasks w) | Some task \<Rightarrow> mput t task (w_tasks w))\<rparr>"

datatype 'h event =
    EvTask nat task_event
  | EvFrame nat bool bytes
  | EvAccept "string option"
  | EvDisconnect nat
  | EvInvoke string string "object option"
  | EvRegister string 'h
  | EvUnregister string
  | EvWait wait_choice
  | EvStart "parsed_url res" "string res"
  | EvClose "gerror option"
  | EvWrite nat "gerror option"

text \<open>\<open>Start\<close> up to the end of \<open>net.Listen\<close>.\<close>

definition start_begin ::
    "(string \<Rightarrow> parsed_url res) \<Rightarrow> (string \<Rightarrow> string res) \<Rightarrow> 'h server \<Rightarrow>
     (string res + (string \<times> string)) \<times> 'h server" where
  "start_begin url_parse listen s =
     (case start_check s of
        Inl r \<Rightarrow> (Inl r, s)
      | Inr bindURL \<Rightarrow>
          (case start_plan (url_parse bindURL) of
             Inl e \<Rightarrow> (Inl (Inl e), s)
           | Inr (hostport, path) \<Rightarrow>
               (case listen hostport of
                  Inl e \<Rightarrow> (Inl (Inl (ErrWrap ''holon-rpc: listen failed'' e)), s)
                | Inr addr \<Rightarrow> (Inr (addr, path), start_listen addr s))))"

definition reading :: "nat \<Rightarrow> 'h server \<Rightarrow> bool" where
  "reading ref s \<longleftrightarrow> ref < s_next_ref s \<and> p_reading (s_heap s ref)"

text \<open>
  The effect of an event, \<open>None\<close> where it cannot happen. \<open>EvWrite\<close> changes what the
  connection of a peer answers to \<open>Write\<close>.
\<close>

definition with_srv :: "'h task option \<times> 'h server \<Rightarrow> 'h world \<Rightarrow> 'h world" where
  "with_srv r w = spawn (fst r) (w\<lparr>w_srv := snd r\<rparr>)"

fun happen :: "'h event \<Rightarrow> 'h world \<Rightarrow> 'h world option" where
  "happen (EvTask t ev) w =
     (case mget (w_tasks w) t of
        None \<Rightarrow> None
      | Some task \<Rightarrow>
          map_option (\<lambda>(k, s'). set_task t k (w\<lparr>w_srv := s'\<rparr>)) (run_task ev task (w_srv w)))"
| "happen (EvFrame ref text data) w =
     (if reading ref (w_srv w) then
        (case read_frame text data ref (w_srv w) of
           (m, s') \<Rightarrow> Some (with_srv (map_option (ReqTask ref) m, s') w))
      else None)"
| "happen (EvAccept sub) w = Some (with_srv (None, snd (accept_peer sub (w_srv w))) w)"
| "happen (EvDisconnect ref) w =
     (if reading ref (w_srv w) then Some (with_srv (None, disconnect ref (w_srv w)) w) else None)"
| "happen (EvInvoke clientID method params) w =
     (case invoke_begin clientID method params (w_srv w) of
        (Inl e, s') \<Rightarrow> Some (with_srv (None, s') w)
      | (Inr c, s') \<Rightarrow> Some (with_srv (Some (ApiTask c), s') w))"
| "happen (EvRegister method handler) w = Some (with_srv (None, Register method handler (w_srv w)) w)"
| "happen (EvUnregister method) w = Some (with_srv (None, Unregister method (w_srv w)) w)"
| "happen (EvWait choice) w =
     map_option (\<lambda>(r, s'). with_srv (None, s') w) (WaitForClient choice (w_srv w))"
| "happen (EvStart parsed lis) w =
     (case start_begin (\<lambda>_. parsed) (\<lambda>_. lis) (w_srv w) of
        (Inl r, s') \<Rightarrow> Some (with_srv (None, s') w)
      | (Inr (addr, path), s') \<Rightarrow> Some (with_srv (Some (StartTask addr path), s') w))"
| "happen (EvClose shutdown) w = Some (with_srv (None, snd (Close shutdown (w_srv w))) w)"
| "happen (EvWrite ref e) w =
     Some (with_srv (None, upd_peer ref (\<lambda>p. p\<lparr>p_ws := e\<rparr>) (w_srv w)) w)"

inductive step :: "'h world \<Rightarrow> 'h world \<Rightarrow> bool" where
  happens: "happen e w = Some w' \<Longrightarrow> step w w'"

text \<open>Reachable from a new server in a number of steps.\<close>

abbreviation reach :: "string \<Rightarrow> nat \<Rightarrow> 'h world \<Rightarrow> bool" where
  "reach bindURL \<equiv> reach_in (new_world bindURL) step"

text \<open>Running a list of events.\<close>

fun run :: "'h event list \<Rightarrow> 'h world \<Rightarrow> 'h world option" where
  "run [] w = Some w"
| "run (e # es) w = (case happen e w of None \<Rightarrow> None | Some w' \<Rightarrow> run es w')"

inductive_cases stepE [elim!]: "step w w'"

lemma run_reach: "reach b n w \<Longrightarrow> run es w = Some w' \<Longrightarrow> reach b (n + length es) w'"
proof (induction es arbitrary: n w)
  case (Cons e es)
  then obtain w1 where "happen e w = Some w1" "run es w1 = Some w'"
    by (auto split: option.splits)
  with Cons.IH [of "Suc n" w1] Cons.prems(1) show ?case
    by (auto intro: reach_move happens)
qed simp

end
