(* ===== verification/ServerInv.thy ===== *)
theory ServerInv
  imports Dispatch
begin

text \<open>
  What every reachable state of the server satisfies. The operations are sorted by what
  they touch: \<open>only_sends\<close> (frames are appended), \<open>calm\<close> (only frames, tables of calls
  and the counter of calls change), \<open>keeps K\<close> (calls outside the keys \<open>K\<close> keep waiting).
\<close>

section \<open>Operations that only send\<close>

definition only_sends :: "'h server \<Rightarrow> 'h server \<Rightarrow> bool" where
  "only_sends s s' \<longleftrightarrow>
     (\<exists>h. s' = s\<lparr>s_heap := h\<rparr> \<and>
       (\<forall>r. \<exists>fs. h r = (s_heap s r)\<lparr>p_sent := p_sent (s_heap s r) @ fs\<rparr>))"

lemma only_sends_refl [simp, intro]: "only_sends s s"
proof -
  have "s = s\<lparr>s_heap := s_heap s\<rparr> \<and>
      (\<forall>r. \<exists>fs. s_heap s r = (s_heap s r)\<lparr>p_sent := p_sent (s_heap s r) @ fs\<rparr>)"
    by (auto intro: exI [of _ "[]"])
  then show ?thesis unfolding only_sends_def by blast
qed

lemma only_sends_trans [trans]:
  assumes "only_sends s t" and "only_sends t u"
  shows "only_sends s u"
proof -
  from assms(1) obtain h where t: "t = s\<lparr>s_heap := h\<rparr>"
    and h: "\<And>r. \<exists>fs. h r = (s_heap s r)\<lparr>p_sent := p_sent (s_heap s r) @ fs\<rparr>"
    unfolding only_sends_def by blast
  from assms(2) obtain g where u: "u = t\<lparr>s_heap := g\<rparr>"
    and g: "\<And>r. \<exists>fs. g r = (s_heap t r)\<lparr>p_sent := p_sent (s_heap t r) @ fs\<rparr>"
    unfolding only_sends_def by blast
  have "\<exists>fs. g r = (s_heap s r)\<lparr>p_sent := p_sent (s_heap s r) @ fs\<rparr>" for r
  proof -
    obtain fs gs where "h r = (s_heap s r)\<lparr>p_sent := p_sent (s_heap s r) @ fs\<rparr>"
      and "g r = (h r)\<lparr>p_sent := p_sent (h r) @ gs\<rparr>"
      using h [of r] g [of r] by (auto simp: t)
    then show ?thesis by (intro exI [of _ "fs @ gs"]) simp
  qed
  with t u show ?thesis unfolding only_sends_def by (intro exI [of _ g]) simp
qed

lemma only_sends_foldl: "(\<And>acc e. only_sends acc (f acc e)) \<Longrightarrow> only_sends s (foldl f s es)"
  by (induction es arbitrary: s) (auto intro: only_sends_trans)

lemma writePeer_sends: "only_sends s (snd (writePeer ref payload s))"
proof (cases "p_ws (s_heap s ref)")
  case None
  then show ?thesis
    unfolding only_sends_def
    by (intro exI [of _ "s_heap (snd (writePeer ref payload s))"])
      (auto simp: writePeer_def upd_peer_def intro: exI [of _ "[]"])
qed (simp add: writePeer_def)

lemma sendPeerError_sends: "only_sends s (snd (sendPeerError ref rid code message data s))"
  by (auto simp: sendPeerError_def writePeer_sends split: sum.split)

lemma sendPeerResultAny_sends: "only_sends s (snd (sendPeerResultAny ref rid result s))"
  by (auto simp: sendPeerResultAny_def writePeer_sends sendPeerError_sends split: sum.split)

lemma sendPeerResult_sends: "only_sends s (snd (sendPeerResult ref rid result s))"
  by (simp add: sendPeerResult_def sendPeerResultAny_sends)

lemma answer_error_sends: "only_sends s (answer_error ref reqID err s)"
  by (auto simp: answer_error_def sendRPCError_def sendPeerError_sends split: option.split)

lemma answer_code_sends: "only_sends s (answer_code ref reqID code message s)"
  by (simp add: answer_code_def sendPeerError_sends)

lemma broadcast_sends: "only_sends s (broadcastNotificationMany exclude mname payload s)"
  by (auto simp: broadcastNotificationMany_def writePeer_sends split: sum.split intro!: only_sends_foldl)

lemma handler_end_sends: "only_sends s (handler_end ref reqID out s)"
  by (auto simp: handler_end_def sendPeerError_sends sendPeerResult_sends split: sum.split option.split)

lemma route_call_end_sends: "only_sends s (route_call_end caller reqID mname hints r s)"
  by (auto simp: route_call_end_def Let_def answer_error_sends broadcast_sends sendPeerResult_sends
      split: sum.split intro: only_sends_trans [OF broadcast_sends sendPeerResult_sends])

lemma route_fan_end_sends: "only_sends s (route_fan_end caller reqID mname hints entries s)"
  by (auto simp: route_fan_end_def Let_def broadcast_sends sendPeerResultAny_sends
      intro!: only_sends_foldl only_sends_trans [OF only_sends_foldl sendPeerResultAny_sends])

lemma invoke_send_sends: "only_sends s (snd (invoke_send ref idRaw mname params s))"
  by (auto simp: invoke_send_def writePeer_sends split: sum.split)

lemmas sends = writePeer_sends sendPeerError_sends sendPeerResultAny_sends sendPeerResult_sends
  answer_error_sends answer_code_sends broadcast_sends handler_end_sends route_call_end_sends
  route_fan_end_sends invoke_send_sends

section \<open>Operations that leave the peers in place\<close>

definition calm :: "'h server \<Rightarrow> 'h server \<Rightarrow> bool" where
  "calm s s' \<longleftrightarrow>
     s_shut s' = s_shut s \<and> s_running s' = s_running s \<and> s_listener s' = s_listener s \<and>
     s_open s' = s_open s \<and>
     s_handlers s' = s_handlers s \<and> s_peers s' = s_peers s \<and> s_next_ref s' = s_next_ref s \<and>
     s_connectQ s' = s_connectQ s \<and> s_nextClientID s' = s_nextClientID s \<and>
     (\<forall>r. p_id (s_heap s' r) = p_id (s_heap s r) \<and>
          p_cancelled (s_heap s' r) = p_cancelled (s_heap s r) \<and>
          p_reading (s_heap s' r) = p_reading (s_heap s r) \<and>
          (pend_inv (peer_pend s r) \<longrightarrow> pend_inv (peer_pend s' r)))"

lemma calm_refl [simp, intro]: "calm s s"
  by (simp add: calm_def)

lemma calm_trans [trans]: "calm s t \<Longrightarrow> calm t u \<Longrightarrow> calm s u"
  by (simp add: calm_def)

lemma sends_fields:
  assumes "only_sends s s'"
  shows "calm s s'" and "peer_pend s' r = peer_pend s r" and "s_nextServerID s' = s_nextServerID s"
    and "p_cancelled (s_heap s' r) = p_cancelled (s_heap s r)"
proof -
  from assms obtain h where s': "s' = s\<lparr>s_heap := h\<rparr>"
    and h: "\<And>r. \<exists>fs. h r = (s_heap s r)\<lparr>p_sent := p_sent (s_heap s r) @ fs\<rparr>"
    unfolding only_sends_def by blast
  have fields: "p_id (h r) = p_id (s_heap s r)" "p_cancelled (h r) = p_cancelled (s_heap s r)"
    "p_reading (h r) = p_reading (s_heap s r)" "p_pend (h r) = p_pend (s_heap s r)" for r
    using h [of r] by auto
  then show "calm s s'" and "peer_pend s' r = peer_pend s r" and "s_nextServerID s' = s_nextServerID s"
    and "p_cancelled (s_heap s' r) = p_cancelled (s_heap s r)"
    by (simp_all add: s' calm_def peer_pend_def)
qed

lemma upd_pend_calm: "(\<And>p. pend_inv p \<Longrightarrow> pend_inv (f p)) \<Longrightarrow> calm s (upd_pend ref f s)"
  by (simp add: calm_def upd_pend_def upd_peer_def peer_pend_def)

lemma peer_pend_upd [simp]:
  "peer_pend (upd_pend ref f s) r = (if r = ref then f (peer_pend s ref) else peer_pend s r)"
  by (simp add: peer_pend_def upd_pend_def upd_peer_def)

lemma upd_pend_fields [simp]:
  "s_nextServerID (upd_pend ref f s) = s_nextServerID s"
  "p_cancelled (s_heap (upd_pend ref f s) r) = p_cancelled (s_heap s r)"
  "s_next_ref (upd_pend ref f s) = s_next_ref s" "s_peers (upd_pend ref f s) = s_peers s"
  by (simp_all add: upd_pend_def upd_peer_def)

lemma call_done_calm: "calm s (call_done c s)"
  unfolding call_done_def by (rule upd_pend_calm) (rule pend_remove_inv)

lemma handlePeerResponse_calm: "calm s (handlePeerResponse ref msg s)"
  by (auto simp: handlePeerResponse_def Let_def pend_deliver_inv split: option.split intro!: upd_pend_calm)

lemma failPeerPending_calm: "calm s (failPeerPending ref err s)"
  unfolding failPeerPending_def by (rule upd_pend_calm) (rule pend_fail_inv)

lemma invoke_end_calm:
  assumes "invoke_end w c s = Some (r, s')"
  shows "calm s s'" and "s_nextServerID s' = s_nextServerID s"
proof -
  have step: "calm s (call_done c (upd_pend (c_ref c) (\<lambda>_. pd) s))"
    if "pend_take (c_chan c) (peer_pend s (c_ref c)) = Some (resp, pd)" for resp pd
  proof -
    have "calm s (upd_pend (c_ref c) (\<lambda>_. pd) s)"
      using pend_take_inv [OF _ that]
      by (simp add: calm_def upd_pend_def upd_peer_def peer_pend_def)
    then show ?thesis by (rule calm_trans) (rule call_done_calm)
  qed
  from assms step show "calm s s'"
    by (auto simp: invoke_end_def call_done_calm split: wake.splits option.splits if_splits)
  from assms show "s_nextServerID s' = s_nextServerID s"
    by (auto simp: invoke_end_def call_done_def split: wake.splits option.splits if_splits)
qed

lemma read_frame_calm:
  assumes "read_frame text data ref s = (m, s')"
  shows "calm s s'" and "s_nextServerID s' = s_nextServerID s"
proof -
  have resp: "s_nextServerID (handlePeerResponse ref msg s) = s_nextServerID s" for msg
    by (auto simp: handlePeerResponse_def Let_def split: option.split)
  from assms resp handlePeerResponse_calm sends_fields(1,3) [OF sendPeerError_sends]
  show "calm s s'" and "s_nextServerID s' = s_nextServerID s"
    by (fastforce simp: read_frame_def Let_def split: if_splits option.splits)+
qed

section \<open>Waiting calls\<close>

text \<open>
  A call under way is never forgotten: its entry leads to its channel, or the context of
  its peer is done.
\<close>

definition waiting :: "'h server \<Rightarrow> call \<Rightarrow> bool" where
  "waiting s c \<longleftrightarrow>
     c_ref c < s_next_ref s \<and>
     (p_cancelled (s_heap s (c_ref c)) \<or>
      mget (pd_map (peer_pend s (c_ref c))) (c_key c) = Some (c_chan c))"

definition tables :: "'h server \<Rightarrow> bool" where
  "tables s \<longleftrightarrow> (\<forall>r. pend_inv (peer_pend s r))"

definition keeps :: "bytes set \<Rightarrow> 'h server \<Rightarrow> 'h server \<Rightarrow> bool" where
  "keeps K s s' \<longleftrightarrow> (\<forall>c. waiting s c \<longrightarrow> c_key c \<notin> K \<longrightarrow> waiting s' c)"

lemma keeps_refl [simp, intro]: "keeps K s s"
  by (simp add: keeps_def)

lemma keeps_trans: "keeps K s t \<Longrightarrow> keeps L t u \<Longrightarrow> keeps (K \<union> L) s u"
  by (simp add: keeps_def)

lemma keeps_trans_empty: "keeps K s t \<Longrightarrow> keeps {} t u \<Longrightarrow> keeps K s u"
  using keeps_trans [of K s t "{}" u] by simp

lemma keeps_mono: "keeps K s t \<Longrightarrow> K \<subseteq> L \<Longrightarrow> keeps L s t"
  by (auto simp: keeps_def)

lemma calm_tables: "calm s s' \<Longrightarrow> tables s \<Longrightarrow> tables s'"
  by (simp add: calm_def tables_def)

lemma keeps_calm:
  assumes "calm s s'"
    and "\<And>c. waiting s c \<Longrightarrow> c_key c \<notin> K \<Longrightarrow> \<not> p_cancelled (s_heap s (c_ref c)) \<Longrightarrow>
           mget (pd_map (peer_pend s' (c_ref c))) (c_key c) = Some (c_chan c)"
  shows "keeps K s s'"
  using assms by (auto simp: keeps_def calm_def waiting_def)

lemma sends_keeps: "only_sends s s' \<Longrightarrow> keeps {} s s'"
  by (rule keeps_calm) (auto simp: sends_fields waiting_def)

lemma call_done_keeps: "tables s \<Longrightarrow> keeps {c_key c} s (call_done c s)"
  by (rule keeps_calm [OF call_done_calm]) (auto simp: call_done_def waiting_def tables_def pend_remove_fields)

lemma deliver_keeps: "keeps {} s (handlePeerResponse ref msg s)"
  by (rule keeps_calm [OF handlePeerResponse_calm])
    (auto simp: handlePeerResponse_def Let_def waiting_def pend_deliver_fields split: option.split)

lemma read_frame_keeps:
  assumes "read_frame text data ref s = (m, s')"
  shows "keeps {} s s'"
  using assms deliver_keeps sends_keeps [OF sendPeerError_sends]
  by (fastforce simp: read_frame_def Let_def split: if_splits option.splits)

lemma take_keeps:
  assumes "pend_take ch (peer_pend s ref) = Some (m, pd)"
  shows "keeps {} s (upd_pend ref (\<lambda>_. pd) s)"
  using assms by (auto simp: keeps_def waiting_def pend_take_fields)

lemma invoke_end_keeps:
  assumes "tables s" and "invoke_end w c s = Some (r, s')"
  shows "keeps {c_key c} s s'"
proof (cases w)
  case WakeResponse
  with assms(2) obtain resp pd where take: "pend_take (c_chan c) (peer_pend s (c_ref c)) = Some (resp, pd)"
    and s': "s' = call_done c (upd_pend (c_ref c) (\<lambda>_. pd) s)"
    by (auto simp: invoke_end_def split: option.splits)
  have "tables (upd_pend (c_ref c) (\<lambda>_. pd) s)"
    using assms(1) pend_take_inv [OF _ take] by (simp add: tables_def)
  from keeps_trans [OF take_keeps [OF take] call_done_keeps [OF this]] show ?thesis by (simp add: s')
qed (use assms call_done_keeps in \<open>auto simp: invoke_end_def split: if_splits\<close>)

text \<open>Registering a call.\<close>

definition registered :: "nat \<Rightarrow> bytes \<Rightarrow> 'h server \<Rightarrow> 'h server" where
  "registered ref key s =
     upd_pend ref (\<lambda>p. snd (pend_register key p)) (s\<lparr>s_nextServerID := s_nextServerID s + 1\<rparr>)"

definition next_key :: "'h server \<Rightarrow> bytes" where
  "next_key s = makeID (server_id (s_nextServerID s + 1))"

definition new_call :: "nat \<Rightarrow> 'h server \<Rightarrow> call" where
  "new_call ref s = \<lparr>c_ref = ref, c_key = next_key s, c_chan = pd_next (peer_pend s ref)\<rparr>"

lemma invoke_begin_eq:
  "invoke_begin clientID mname params s =
     (if TrimSpace mname = [] then (Inl (ErrText ''holon-rpc: method is required''), s)
      else
        (case mget (s_peers s) clientID of
           None \<Rightarrow> (Inl (ErrText (''holon-rpc: unknown client '' @ quote_q clientID)), s)
         | Some ref \<Rightarrow>
             (case invoke_send ref (next_key s) mname params (registered ref (next_key s) s) of
                (Some e, s2) \<Rightarrow> (Inl e, call_done (new_call ref s) s2)
              | (None, s2) \<Rightarrow> (Inr (new_call ref s), s2))))"
  unfolding invoke_begin_def next_key_def new_call_def registered_def
  by (simp add: Let_def pend_register_fields split: option.split)

lemma registered_calm: "calm s (registered ref key s)"
  by (simp add: registered_def calm_def upd_pend_def upd_peer_def peer_pend_def pend_register_inv)

lemma registered_keeps:
  assumes "tables s"
  shows "keeps {key} s (registered ref key s)"
proof (rule keeps_calm [OF registered_calm])
  fix c
  assume "waiting s c" "c_key c \<notin> {key}" "\<not> p_cancelled (s_heap s (c_ref c))"
  then have c: "mget (pd_map (peer_pend s (c_ref c))) (c_key c) = Some (c_chan c)" "key \<noteq> c_key c"
    by (auto simp: waiting_def)
  have "pend_inv (peer_pend s (c_ref c))" using assms by (simp add: tables_def)
  from pt.others_keep_waiting(5) [OF this c, of "fst (pend_register key (peer_pend s (c_ref c)))"
      "snd (pend_register key (peer_pend s (c_ref c)))"]
  have "mget (pd_map (snd (pend_register key (peer_pend s (c_ref c))))) (c_key c) = Some (c_chan c)"
    by simp
  with c(1) show "mget (pd_map (peer_pend (registered ref key s) (c_ref c))) (c_key c) = Some (c_chan c)"
    by (auto simp: registered_def peer_pend_def upd_pend_def upd_peer_def)
qed

lemma registered_waiting:
  assumes "tables s" and "ref < s_next_ref s"
  shows "waiting (registered ref (next_key s) s) (new_call ref s)"
proof -
  have "wf_map (pd_map (p_pend (s_heap s ref)))"
    using assms(1) by (simp add: tables_def pend_inv_def peer_pend_def)
  with assms(2) show ?thesis
    by (simp add: waiting_def registered_def new_call_def pend_register_fields upd_pend_def upd_peer_def peer_pend_def)
qed

lemma invoke_begin_cases:
  assumes "invoke_begin clientID mname params s = (r, s')"
  obtains (early) e where "r = Inl e" "s' = s"
    | (failed) ref s2 e where "mget (s_peers s) clientID = Some ref" "r = Inl e"
        "only_sends (registered ref (next_key s) s) s2" "s' = call_done (new_call ref s) s2"
    | (sent) ref where "mget (s_peers s) clientID = Some ref" "r = Inr (new_call ref s)"
        "only_sends (registered ref (next_key s) s) s'"
proof (cases "TrimSpace mname = [] \<or> mget (s_peers s) clientID = None")
  case True
  with assms show thesis by (auto simp: invoke_begin_eq intro: early split: if_splits)
next
  case False
  then obtain ref where ref: "mget (s_peers s) clientID = Some ref" and m: "TrimSpace mname \<noteq> []" by auto
  obtain e s2 where send: "invoke_send ref (next_key s) mname params (registered ref (next_key s) s) = (e, s2)"
    by (cases "invoke_send ref (next_key s) mname params (registered ref (next_key s) s)")
  have sends: "only_sends (registered ref (next_key s) s) s2"
    using invoke_send_sends [of "registered ref (next_key s) s" ref "next_key s" mname params] send by simp
  show thesis
  proof (cases e)
    case None
    with assms ref m send sends show thesis by (intro sent) (auto simp: invoke_begin_eq)
  next
    case (Some err)
    with assms ref m send sends show thesis by (intro failed) (auto simp: invoke_begin_eq)
  qed
qed

lemma invoke_begin_calm:
  assumes "invoke_begin clientID mname params s = (r, s')"
  shows "calm s s'"
  using assms
proof (cases rule: invoke_begin_cases)
  case (failed ref s2 e)
  have "calm s s2" using registered_calm sends_fields(1) [OF failed(3)] by (rule calm_trans)
  then show ?thesis using call_done_calm unfolding failed(4) by (rule calm_trans)
next
  case (sent ref)
  show ?thesis using registered_calm sends_fields(1) [OF sent(3)] by (rule calm_trans)
qed simp

lemma registered_counter: "s_nextServerID (registered ref key s) = s_nextServerID s + 1"
  by (simp add: registered_def)

lemma call_done_counter: "s_nextServerID (call_done c s) = s_nextServerID s"
  by (simp add: call_done_def)

lemma invoke_begin_counter:
  assumes "invoke_begin clientID mname params s = (r, s')"
  shows "s_nextServerID s' = s_nextServerID s \<and> isl r \<and> s' = s \<or> s_nextServerID s' = s_nextServerID s + 1"
  using assms
  by (cases rule: invoke_begin_cases) (auto simp: sends_fields registered_counter call_done_counter)

lemma invoke_begin_keeps:
  assumes "tables s" and "invoke_begin clientID mname params s = (r, s')"
  shows "keeps {next_key s} s s'"
  using assms(2)
proof (cases rule: invoke_begin_cases)
  case (failed ref s2 e)
  have keep: "keeps {next_key s} s s2"
    using registered_keeps [OF assms(1)] sends_keeps [OF failed(3)] by (rule keeps_trans_empty)
  have "calm s s2" using registered_calm sends_fields(1) [OF failed(3)] by (rule calm_trans)
  then have "tables s2" using assms(1) by (rule calm_tables)
  from keeps_trans [OF keep call_done_keeps [OF this, of "new_call ref s"]]
  show ?thesis by (simp add: failed(4) new_call_def)
next
  case (sent ref)
  show ?thesis using registered_keeps [OF assms(1)] sends_keeps [OF sent(3)] by (rule keeps_trans_empty)
qed simp

lemma invoke_begin_waiting:
  assumes "tables s" and "\<And>cid ref. mget (s_peers s) cid = Some ref \<Longrightarrow> ref < s_next_ref s"
    and "invoke_begin clientID mname params s = (Inr c, s')"
  shows "waiting s' c" and "c_key c = next_key s" and "s_nextServerID s' = s_nextServerID s + 1"
proof -
  from assms(3) obtain ref where ref: "mget (s_peers s) clientID = Some ref" "c = new_call ref s"
    "only_sends (registered ref (next_key s) s) s'"
    by (cases rule: invoke_begin_cases) auto
  from registered_waiting [OF assms(1) assms(2) [OF ref(1)]] sends_keeps [OF ref(3)]
  show "waiting s' c" by (simp add: keeps_def ref(2))
  show "c_key c = next_key s" by (simp add: ref(2) new_call_def)
  show "s_nextServerID s' = s_nextServerID s + 1"
    using sends_fields(3) [OF ref(3)] by (simp add: registered_counter)
qed

end
