(* ===== verification/WorldInv.thy ===== *)
theory WorldInv
  imports ServerInv
begin

text \<open>
  The invariant of the running server, as an instance of \<open>bounded_system\<close>: it holds in
  every state reached in less than 2 to the 64 steps, before the identifiers of calls and
  of clients wrap around.
\<close>

section \<open>The invariant of the server\<close>

definition life_ok :: "bool \<Rightarrow> bool \<Rightarrow> string option \<Rightarrow> bool" where
  "life_ok shut running listener \<longleftrightarrow> (shut \<longrightarrow> \<not> running) \<and> (running \<longleftrightarrow> listener \<noteq> None)"

lemma life_ok_simps [simp]:
  "life_ok shut False None" "life_ok False True (Some addr)"
  by (simp_all add: life_ok_def)

definition ids_ok :: "64 word \<Rightarrow> nat \<Rightarrow> (nat \<Rightarrow> peer) \<Rightarrow> bool" where
  "ids_ok cnt next_ref heap \<longleftrightarrow>
     cnt = of_nat next_ref \<and> (\<forall>ref < next_ref. p_id (heap ref) = client_id (of_nat (Suc ref)))"

definition peers_ok :: "(string, nat) gmap \<Rightarrow> nat \<Rightarrow> (nat \<Rightarrow> peer) \<Rightarrow> bool" where
  "peers_ok peers next_ref heap \<longleftrightarrow>
     (\<forall>cid ref. mget peers cid = Some ref \<longrightarrow>
        ref < next_ref \<and> p_id (heap ref) = cid \<and> \<not> p_cancelled (heap ref) \<and> p_reading (heap ref))"

lemma ids_ok_same: "(\<And>r. p_id (h' r) = p_id (h r)) \<Longrightarrow> ids_ok cnt n h' = ids_ok cnt n h"
  by (simp add: ids_ok_def)

lemma peers_ok_same:
  assumes "peers_ok m n h"
    and "\<And>cid ref. mget m' cid = Some ref \<Longrightarrow> mget m cid = Some ref \<and> p_id (h' ref) = p_id (h ref) \<and>
           p_cancelled (h' ref) = p_cancelled (h ref) \<and> p_reading (h' ref) = p_reading (h ref)"
  shows "peers_ok m' n h'"
  using assms unfolding peers_ok_def by metis

lemma ids_ok_new:
  "ids_ok cnt n h \<Longrightarrow> ids_ok (cnt + 1) (Suc n) (h(n := new_peer (client_id (cnt + 1))))"
  by (auto simp: ids_ok_def new_peer_def less_Suc_eq add.commute)

lemma peers_ok_new:
  assumes "peers_ok m n h" and "wf_map m"
  shows "peers_ok (mput cid n m) (Suc n) (h(n := new_peer cid))"
  unfolding peers_ok_def
proof (intro allI impI)
  fix c ref
  assume "mget (mput cid n m) c = Some ref"
  with assms(2) have "c = cid \<and> ref = n \<or> c \<noteq> cid \<and> mget m c = Some ref" by (auto split: if_splits)
  with assms(1) show "ref < Suc n \<and> p_id ((h(n := new_peer cid)) ref) = c \<and>
      \<not> p_cancelled ((h(n := new_peer cid)) ref) \<and> p_reading ((h(n := new_peer cid)) ref)"
    unfolding peers_ok_def by (auto simp: new_peer_def intro: less_SucI)
qed

lemma peers_ok_Nil [simp]: "peers_ok [] n h"
  by (simp add: peers_ok_def)

definition srv_inv :: "'h server \<Rightarrow> bool" where
  "srv_inv s \<longleftrightarrow>
     tables s \<and> wf_map (s_handlers s) \<and> wf_map (s_peers s) \<and>
     length (s_connectQ s) \<le> queue_size \<and>
     life_ok (s_shut s) (s_running s) (s_listener s) \<and>
     ids_ok (s_nextClientID s) (s_next_ref s) (s_heap s) \<and>
     peers_ok (s_peers s) (s_next_ref s) (s_heap s)"

text \<open>Every peer whose context is not done is in the map.\<close>

definition present :: "'h server \<Rightarrow> bool" where
  "present s \<longleftrightarrow>
     (\<forall>ref < s_next_ref s. \<not> p_cancelled (s_heap s ref) \<longrightarrow>
        mget (s_peers s) (p_id (s_heap s ref)) = Some ref)"

lemma calm_inv: "calm s s' \<Longrightarrow> srv_inv s \<Longrightarrow> srv_inv s'"
  unfolding srv_inv_def
  using calm_tables [of s s'] ids_ok_same [of "s_heap s'" "s_heap s"]
    peers_ok_same [of "s_peers s" "s_next_ref s" "s_heap s" "s_peers s'" "s_heap s'"]
  by (simp add: calm_def)

lemma calm_present: "calm s s' \<Longrightarrow> present s \<Longrightarrow> present s'"
  by (simp add: present_def calm_def)

lemma srv_inv_tables: "srv_inv s \<Longrightarrow> tables s"
  by (simp add: srv_inv_def)

lemma srv_inv_peers: "srv_inv s \<Longrightarrow> mget (s_peers s) cid = Some ref \<Longrightarrow> ref < s_next_ref s"
  by (simp add: srv_inv_def peers_ok_def)

lemma of_nat_word64_inj:
  assumes "of_nat i = (of_nat j :: 64 word)" and "i < 2 ^ 64" and "j < 2 ^ 64"
  shows "i = j"
proof -
  have "unat (of_nat i :: 64 word) = i" "unat (of_nat j :: 64 word) = j"
    using assms(2,3) by (simp_all add: unat_of_nat)
  with assms(1) show ?thesis by metis
qed

lemma client_id_inj: "client_id m = client_id n \<Longrightarrow> m = n"
  unfolding client_id_def by (auto dest!: itoa_inj intro: signed_word_eqI)

text \<open>Cancelling peers and telling their calls.\<close>

definition dims :: "nat set \<Rightarrow> 'h server \<Rightarrow> 'h server \<Rightarrow> bool" where
  "dims R s s' \<longleftrightarrow>
     s_shut s' = s_shut s \<and> s_running s' = s_running s \<and> s_listener s' = s_listener s \<and>
     s_handlers s' = s_handlers s \<and> s_peers s' = s_peers s \<and> s_next_ref s' = s_next_ref s \<and>
     s_connectQ s' = s_connectQ s \<and> s_nextClientID s' = s_nextClientID s \<and>
     s_nextServerID s' = s_nextServerID s \<and>
     (\<forall>r. p_id (s_heap s' r) = p_id (s_heap s r) \<and>
          p_cancelled (s_heap s' r) = (p_cancelled (s_heap s r) \<or> r \<in> R) \<and>
          p_reading (s_heap s' r) = p_reading (s_heap s r) \<and>
          (pend_inv (peer_pend s r) \<longrightarrow> pend_inv (peer_pend s' r)) \<and>
          (r \<notin> R \<longrightarrow> peer_pend s' r = peer_pend s r))"

lemma dims_refl: "dims {} s s"
  by (simp add: dims_def)

lemma dims_trans: "dims R s t \<Longrightarrow> dims S t u \<Longrightarrow> dims (R \<union> S) s u"
  by (auto simp: dims_def)

lemma dims_keeps: "dims R s s' \<Longrightarrow> keeps {} s s'"
  unfolding keeps_def waiting_def dims_def by metis

lemma dims_tables: "dims R s s' \<Longrightarrow> tables s \<Longrightarrow> tables s'"
  by (simp add: dims_def tables_def)

lemma close_peer_dims: "dims {ref} s (close_peer ref s)"
  by (simp add: dims_def close_peer_def ws_close_def failPeerPending_def cancel_peer_def upd_pend_def
      upd_peer_def peer_pend_def pend_fail_inv)

lemma close_peers_dims: "dims (snd ` set es) s (foldl (\<lambda>acc e. close_peer (snd e) acc) s es)"
proof (induction es arbitrary: s)
  case Nil
  show ?case by (simp add: dims_refl)
next
  case (Cons e es)
  from dims_trans [OF close_peer_dims Cons.IH, of "snd e"] show ?case by simp
qed

section \<open>The operations keep it\<close>

lemma NewServer_inv: "srv_inv (NewServer b)" and NewServer_present: "present (NewServer b)"
  by (simp_all add: srv_inv_def ids_ok_def peers_ok_def present_def NewServer_def tables_def peer_pend_def new_peer_def queue_size_def)

text \<open>Changes outside the tables of the peers.\<close>

lemma same_heap:
  assumes "s_heap s' = s_heap s" and "s_next_ref s' = s_next_ref s"
  shows "keeps {} s s'" and "tables s \<Longrightarrow> tables s'"
    and "s_peers s' = s_peers s \<Longrightarrow> present s \<Longrightarrow> present s'"
  using assms by (simp_all add: keeps_def waiting_def tables_def peer_pend_def present_def)

lemma Register_inv: "srv_inv s \<Longrightarrow> srv_inv (Register mname handler s)"
  and Unregister_inv: "srv_inv s \<Longrightarrow> srv_inv (Unregister mname s)"
  by (auto simp: srv_inv_def Register_def Unregister_def gomap tables_def peer_pend_def)

lemma WaitForClient_inv: "srv_inv s \<Longrightarrow> WaitForClient choice s = Some (r, s') \<Longrightarrow> srv_inv s'"
  by (auto simp: srv_inv_def WaitForClient_def tables_def peer_pend_def
      split: wait_choice.splits list.splits)

lemma start_commit_inv: "srv_inv s \<Longrightarrow> srv_inv (snd (start_commit addr path s))"
  by (auto simp: srv_inv_def start_commit_def Let_def close_listener_def tables_def peer_pend_def)

lemma start_begin_inv: "srv_inv s \<Longrightarrow> srv_inv (snd (start_begin url_parse listen s))"
  by (auto simp: srv_inv_def start_begin_def start_listen_def tables_def peer_pend_def split: sum.split)

lemma start_frame:
  "s_heap (snd (start_commit addr path s)) = s_heap s"
  "s_next_ref (snd (start_commit addr path s)) = s_next_ref s"
  "s_peers (snd (start_commit addr path s)) = s_peers s"
  "s_nextServerID (snd (start_commit addr path s)) = s_nextServerID s"
  "s_heap (snd (start_begin url_parse listen s)) = s_heap s"
  "s_next_ref (snd (start_begin url_parse listen s)) = s_next_ref s"
  "s_peers (snd (start_begin url_parse listen s)) = s_peers s"
  "s_nextServerID (snd (start_begin url_parse listen s)) = s_nextServerID s"
  by (auto simp: start_commit_def Let_def close_listener_def start_begin_def start_listen_def split: sum.split)

lemma accept_inv:
  assumes "srv_inv s"
  shows "srv_inv (snd (accept_peer sub s))"
proof -
  have "tables (snd (accept_peer sub s))"
    using srv_inv_tables [OF assms]
    by (auto simp: accept_peer_def Let_def tables_def peer_pend_def new_peer_def split: option.split)
  then show ?thesis
    using assms ids_ok_new peers_ok_new
    by (auto simp: srv_inv_def accept_peer_def Let_def wf_map_mput split: option.split)
qed

lemma accept_present:
  assumes "srv_inv s" and "present s" and "s_next_ref s < 2 ^ 64 - 1"
  shows "present (snd (accept_peer sub s))"
proof -
  have fresh: "client_id (of_nat (Suc ref)) \<noteq> client_id (of_nat (Suc (s_next_ref s)))"
    if "ref < s_next_ref s" for ref
    using that assms(3) of_nat_word64_inj [of "Suc ref" "Suc (s_next_ref s)"]
    by (auto dest!: client_id_inj)
  have "client_id (s_nextClientID s + 1) = client_id (of_nat (Suc (s_next_ref s)))"
    using assms(1) by (simp add: srv_inv_def ids_ok_def add.commute)
  note new_id = this
  show ?thesis
  proof (cases "sub = Some ''holon-rpc''")
    case True
    have wf: "wf_map (s_peers s)" using assms(1) by (simp add: srv_inv_def)
    show ?thesis
      unfolding present_def
    proof (intro allI impI)
      fix ref
      assume "ref < s_next_ref (snd (accept_peer sub s))"
        and "\<not> p_cancelled (s_heap (snd (accept_peer sub s)) ref)"
      then have "ref = s_next_ref s \<or> ref < s_next_ref s \<and> \<not> p_cancelled (s_heap s ref)"
        using True by (auto simp: accept_peer_def Let_def less_Suc_eq split: if_splits)
      then show "mget (s_peers (snd (accept_peer sub s))) (p_id (s_heap (snd (accept_peer sub s)) ref)) = Some ref"
      proof
        assume "ref = s_next_ref s"
        with True wf show ?thesis by (simp add: accept_peer_def Let_def new_peer_def)
      next
        assume ref: "ref < s_next_ref s \<and> \<not> p_cancelled (s_heap s ref)"
        then have "p_id (s_heap s ref) \<noteq> client_id (s_nextClientID s + 1)"
          using fresh [of ref] new_id assms(1) by (auto simp: srv_inv_def ids_ok_def)
        with ref True wf assms(2) show ?thesis by (simp add: accept_peer_def Let_def present_def)
      qed
    qed
  next
    case False
    with assms(2) show ?thesis by (auto simp: accept_peer_def split: option.split)
  qed
qed

lemma accept_keeps: "keeps {} s (snd (accept_peer sub s))"
  by (auto simp: keeps_def waiting_def accept_peer_def Let_def peer_pend_def split: option.split)

lemma accept_counters:
  "s_next_ref (snd (accept_peer sub s)) \<le> Suc (s_next_ref s)"
  "s_nextServerID (snd (accept_peer sub s)) = s_nextServerID s"
  by (auto simp: accept_peer_def Let_def split: option.split)

lemma disconnect_shape:
  "s_peers (disconnect ref s) = mdel (p_id (s_heap s ref)) (s_peers s)"
  "s_next_ref (disconnect ref s) = s_next_ref s"
  "s_nextServerID (disconnect ref s) = s_nextServerID s"
  "s_handlers (disconnect ref s) = s_handlers s" "s_connectQ (disconnect ref s) = s_connectQ s"
  "s_shut (disconnect ref s) = s_shut s" "s_running (disconnect ref s) = s_running s"
  "s_listener (disconnect ref s) = s_listener s" "s_nextClientID (disconnect ref s) = s_nextClientID s"
  "p_id (s_heap (disconnect ref s) r) = p_id (s_heap s r)"
  "p_cancelled (s_heap (disconnect ref s) r) = (p_cancelled (s_heap s r) \<or> r = ref)"
  "p_reading (s_heap (disconnect ref s) r) = (p_reading (s_heap s r) \<and> r \<noteq> ref)"
  "peer_pend (disconnect ref s) r =
     (if r = ref then pend_fail (unavailable_message ErrConnectionClosed) (peer_pend s r) else peer_pend s r)"
  by (auto simp: disconnect_def Let_def failPeerPending_def cancel_peer_def upd_pend_def upd_peer_def peer_pend_def)

lemma disconnect_inv:
  assumes "srv_inv s"
  shows "srv_inv (disconnect ref s)"
proof -
  have "peers_ok (s_peers (disconnect ref s)) (s_next_ref s) (s_heap (disconnect ref s))"
  proof (rule peers_ok_same)
    show ok: "peers_ok (s_peers s) (s_next_ref s) (s_heap s)" using assms by (simp add: srv_inv_def)
    fix cid r
    assume "mget (s_peers (disconnect ref s)) cid = Some r"
    with ok show "mget (s_peers s) cid = Some r \<and> p_id (s_heap (disconnect ref s) r) = p_id (s_heap s r) \<and>
        p_cancelled (s_heap (disconnect ref s) r) = p_cancelled (s_heap s r) \<and>
        p_reading (s_heap (disconnect ref s) r) = p_reading (s_heap s r)"
      by (auto simp: disconnect_shape peers_ok_def split: if_splits)
  qed
  moreover have "tables (disconnect ref s)"
    using srv_inv_tables [OF assms] by (simp add: tables_def disconnect_shape pend_fail_inv)
  ultimately show ?thesis
    using assms ids_ok_same [of "s_heap (disconnect ref s)" "s_heap s"]
    by (simp add: srv_inv_def disconnect_shape wf_map_mdel)
qed

lemma disconnect_present:
  assumes "srv_inv s" and "present s" and "s_next_ref s < 2 ^ 64" and "ref < s_next_ref s"
  shows "present (disconnect ref s)"
proof -
  have distinct: "p_id (s_heap s r) \<noteq> p_id (s_heap s ref)" if "r < s_next_ref s" "r \<noteq> ref" for r
  proof -
    have "p_id (s_heap s r) = client_id (of_nat (Suc r))" "p_id (s_heap s ref) = client_id (of_nat (Suc ref))"
      using assms(1,4) that(1) by (simp_all add: srv_inv_def ids_ok_def)
    moreover have "of_nat (Suc r) \<noteq> (of_nat (Suc ref) :: 64 word)"
      using of_nat_word64_inj [of "Suc r" "Suc ref"] that assms(3,4) by auto
    ultimately show ?thesis using client_id_inj by metis
  qed
  with assms(2) show ?thesis by (simp add: present_def disconnect_shape)
qed

lemma disconnect_keeps: "keeps {} s (disconnect ref s)"
  by (auto simp: keeps_def waiting_def disconnect_shape split: if_splits)

definition close_begin :: "'h server \<Rightarrow> 'h server" where
  "close_begin s =
     (case s_listener s of None \<Rightarrow> s | Some addr \<Rightarrow> close_listener addr s)
       \<lparr>s_shut := True, s_running := False, s_listener := None, s_peers := []\<rparr>"

lemma Close_eq:
  "snd (Close shutdown s) =
     (if s_shut s then s
      else foldl (\<lambda>acc e. close_peer (snd e) acc) (close_begin s) (s_peers s))"
  by (simp add: Close_def Let_def close_begin_def)

lemma close_begin_heap: "s_heap (close_begin s) = s_heap s" "s_next_ref (close_begin s) = s_next_ref s"
  "s_nextServerID (close_begin s) = s_nextServerID s" "s_peers (close_begin s) = []"
  by (auto simp: close_begin_def close_listener_def split: option.split)

lemma Close_inv:
  assumes "srv_inv s"
  shows "srv_inv (snd (Close shutdown s))"
proof (cases "s_shut s")
  case False
  define t where "t = foldl (\<lambda>acc e. close_peer (snd e) acc) (close_begin s) (s_peers s)"
  have dims: "dims (snd ` set (s_peers s)) (close_begin s) t"
    unfolding t_def by (rule close_peers_dims)
  have "tables (close_begin s)"
    by (rule same_heap(2) [OF _ _ srv_inv_tables [OF assms]]) (simp_all add: close_begin_heap)
  with dims have "tables t" by (rule dims_tables)
  moreover have "ids_ok cnt n (s_heap t) = ids_ok cnt n (s_heap s)" for cnt n
    using dims by (intro ids_ok_same) (simp add: dims_def close_begin_heap)
  moreover have "s_handlers t = s_handlers s" "s_connectQ t = s_connectQ s" "\<not> s_running t" "s_listener t = None"
    "s_nextClientID t = s_nextClientID s" "s_next_ref t = s_next_ref s" "s_peers t = []"
    using dims by (auto simp: dims_def close_begin_def close_listener_def split: option.split)
  ultimately have "srv_inv t" using assms by (simp add: srv_inv_def)
  with False show ?thesis by (simp add: Close_eq t_def)
qed (use assms in \<open>simp add: Close_eq\<close>)

lemma Close_present:
  assumes "srv_inv s" and "present s"
  shows "present (snd (Close shutdown s))"
proof (cases "s_shut s")
  case False
  have "r \<in> snd ` set (s_peers s)" if "r < s_next_ref s" "\<not> p_cancelled (s_heap s r)" for r
  proof -
    have "mget (s_peers s) (p_id (s_heap s r)) = Some r" using assms(2) that by (simp add: present_def)
    then have "(p_id (s_heap s r), r) \<in> set (s_peers s)" by (simp add: mget_def map_of_SomeD)
    then show ?thesis by force
  qed
  with close_peers_dims [of "s_peers s" "close_begin s"] False show ?thesis
    by (auto simp: Close_eq dims_def present_def close_begin_heap)
qed (use assms in \<open>simp add: Close_eq\<close>)

lemma Close_keeps: "keeps {} s (snd (Close shutdown s))"
proof (cases "s_shut s")
  case False
  have "keeps {} s (close_begin s)" by (rule same_heap(1)) (simp_all add: close_begin_heap)
  from keeps_trans_empty [OF this dims_keeps [OF close_peers_dims]] False show ?thesis
    by (simp add: Close_eq)
qed (simp add: Close_eq)

lemma Close_counters:
  "s_next_ref (snd (Close shutdown s)) = s_next_ref s"
  "s_nextServerID (snd (Close shutdown s)) = s_nextServerID s"
  using close_peers_dims [of "s_peers s" "close_begin s"]
  by (simp_all add: Close_eq dims_def close_begin_heap)

section \<open>The calls of the goroutines\<close>

fun task_calls :: "'h task \<Rightarrow> call list" where
  "task_calls (ApiTask c) = [c]"
| "task_calls (RouteTask caller reqID mname hints (RouteCall c)) = [c]"
| "task_calls (RouteTask caller reqID mname hints (RouteFan f)) = map snd (fan_calls f)"
| "task_calls _ = []"

definition next_calls :: "'h task option \<Rightarrow> call list" where
  "next_calls k = (case k of None \<Rightarrow> [] | Some task \<Rightarrow> task_calls task)"

lemma next_calls_simps [simp]: "next_calls None = []" "next_calls (Some task) = task_calls task"
  by (simp_all add: next_calls_def)

lemma routePeerRequest_cases:
  assumes "routePeerRequest caller reqID m ps h fo s = (out, s')"
  obtains (quiet) "only_sends s s'" "\<And>rt. out = RouteWaits rt \<Longrightarrow> \<exists>f. rt = RouteFan f \<and> fan_calls f = []"
    | (failed) e s1 where "invoke_begin (targetPeerID h) m (Some ps) s = (Inl e, s1)"
        "only_sends s1 s'" "out = Routed"
    | (waits) c where "invoke_begin (targetPeerID h) m (Some ps) s = (Inr c, s')"
        "out = RouteWaits (RouteCall c)"
proof (cases "fo \<or> targetPeerID h = [] \<or> \<not> peerExists (targetPeerID h) s")
  case True
  with assms show thesis
    by (intro quiet) (auto simp: routePeerRequest_def dispatchFanOut_def Let_def answer_error_sends
        split: sum.splits if_splits)
next
  case False
  obtain r s1 where r: "invoke_begin (targetPeerID h) m (Some ps) s = (r, s1)"
    by (cases "invoke_begin (targetPeerID h) m (Some ps) s")
  show thesis
  proof (cases r)
    case (Inl e)
    with assms False r show thesis
      by (intro failed [of e s1]) (auto simp: routePeerRequest_def answer_error_sends)
  next
    case (Inr c)
    with assms False r show thesis by (intro waits [of c]) (auto simp: routePeerRequest_def)
  qed
qed

lemma handlePeerRequest_route:
  assumes "handlePeerRequest ref msg s = (k, s')"
  obtains (direct) "only_sends s s'" "next_calls k = []"
    | (routed) m fo ps h out s1 where
        "routePeerRequest ref (m_id msg) m ps h fo s = (out, s1)"
        "only_sends s1 s'" "(\<forall>rt. out \<noteq> RouteWaits rt) \<Longrightarrow> next_calls k = []"
        "\<And>rt. out = RouteWaits rt \<Longrightarrow> k = Some (RouteTask ref (m_id msg) m h rt) \<and> s1 = s'"
proof (cases "m_jsonrpc msg = jsonRPCVersion \<and> TrimSpace (m_method msg) \<notin> {[], ''rpc.heartbeat'', ''rpc.peers''} \<and>
      \<not> isl (decodeParams (m_params msg)) \<and>
      \<not> isl (parseRouteHints (TrimSpace (m_method msg)) (projr (decodeParams (m_params msg))))")
  case False
  with assms show thesis
    by (intro direct)
      (auto simp: handlePeerRequest_def Let_def answer_code_sends sendPeerResult_sends answer_error_sends
        split: if_splits sum.splits)
next
  case True
  then obtain ps m fo ps' h where p: "decodeParams (m_params msg) = Inr ps"
    and h: "parseRouteHints (TrimSpace (m_method msg)) ps = Inr (m, fo, ps', h)"
    by (auto simp: isl_def) (metis sum.collapse(2) isl_def prod_cases4)
  obtain out s1 where r: "routePeerRequest ref (m_id msg) m ps' h fo s = (out, s1)"
    by (cases "routePeerRequest ref (m_id msg) m ps' h fo s")
  from assms True p h r show thesis
    by (intro routed [OF r])
      (auto simp: handlePeerRequest_def Let_def answer_code_sends split: route_outcome.splits option.splits)
qed

text \<open>What one step of a goroutine does with calls.\<close>

lemma Some_eq_map_option [simp]: "Some y = map_option f x \<longleftrightarrow> (\<exists>z. x = Some z \<and> y = f z)"
  by (cases x) auto

lemma handlePeerRequest_calls:
  assumes "handlePeerRequest ref msg s = (k, s')"
  obtains (quiet) "only_sends s s'" "next_calls k = []"
    | (starts) target mname params r s1 where
        "invoke_begin target mname params s = (r, s1)" "only_sends s1 s'"
        "next_calls k = (case r of Inl e \<Rightarrow> [] | Inr c \<Rightarrow> [c])"
  using assms
proof (cases rule: handlePeerRequest_route)
  case direct
  then show thesis by (rule quiet)
next
  case (routed m fo ps h out s1)
  from routed(1) show thesis
  proof (cases rule: routePeerRequest_cases)
    case q: quiet
    have "next_calls k = []" using routed(3,4) q(2) by (cases out) auto
    with only_sends_trans [OF q(1) routed(2)] show thesis by (rule quiet)
  next
    case (failed e s0)
    from failed(3) routed(3) have "next_calls k = []" by simp
    with failed(1) only_sends_trans [OF failed(2) routed(2)] show thesis
      by (intro starts) auto
  next
    case (waits c)
    with routed(2) routed(4) [OF waits(2)] show thesis
      by (intro starts [OF waits(1)]) auto
  qed
qed

lemma run_task_calls:
  assumes "run_task ev task s = Some (k, s')" and "distinct (map c_key (task_calls task))"
  obtains (quiet) "only_sends s s'" "next_calls k = []"
    | (starts) target mname params r s1 where
        "invoke_begin target mname params s = (r, s1)" "only_sends s1 s'"
        "next_calls k = task_calls task @ (case r of Inl e \<Rightarrow> [] | Inr c \<Rightarrow> [c])"
    | (finishes) w c r s1 where
        "invoke_end w c s = Some (r, s1)" "only_sends s1 s'" "c \<in> set (task_calls task)"
        "set (next_calls k) \<subseteq> {d \<in> set (task_calls task). c_key d \<noteq> c_key c}"
        "distinct (map c_key (next_calls k))"
    | (server) addr path where "s' = snd (start_commit addr path s)" "next_calls k = []"
  using assms(1)
proof (cases rule: run_task.elims)
  case (1 ref msg s0)
  then have "handlePeerRequest ref msg s = (k, s')" by simp
  then show thesis
    by (cases rule: handlePeerRequest_calls) (use 1 quiet starts in auto)
next
  case (2 addr path s0)
  then show thesis by (intro server) auto
next
  case (3 w c s0)
  with assms(1) obtain r where "invoke_end w c s = Some (r, s')" "k = None" by auto
  with 3 show thesis by (intro finishes [of w c r s']) auto
next
  case (4 w caller reqID mname hints c s0)
  with assms(1) obtain r s1 where "invoke_end w c s = Some (r, s1)" "k = None"
    "s' = route_call_end caller reqID mname hints r s1" by (auto split: if_splits)
  with 4 show thesis by (intro finishes [of w c r s1]) (auto simp: route_call_end_sends)
next
  case (5 target caller reqID mname hints f s0)
  obtain r s1 where r: "invoke_begin target (fan_method f) (Some (fan_params f)) s = (r, s1)"
    by (cases "invoke_begin target (fan_method f) (Some (fan_params f)) s")
  with 5 assms(1) show thesis
    by (intro starts [OF r]) (auto simp: fan_begin_def split: if_splits sum.splits)
next
  case (6 target w caller reqID mname hints f s0)
  with assms(1) obtain f' where f': "fan_end target w f s = Some (f', s')" "k = Some (RouteTask caller reqID mname hints (RouteFan f'))"
    by (auto split: if_splits)
  then obtain c r where c: "map_of (fan_calls f) target = Some c" "invoke_end w c s = Some (r, s')"
    and calls: "fan_calls f' = filter (\<lambda>e. fst e \<noteq> target) (fan_calls f)"
    by (auto simp: fan_end_def split: option.splits)
  have mem: "(target, c) \<in> set (fan_calls f)" using c(1) by (rule map_of_SomeD)
  have dist: "distinct (map (c_key \<circ> snd) (fan_calls f))" using assms(2) 6 by simp
  have only: "c_key (snd e) \<noteq> c_key c" if "e \<in> set (fan_calls f)" "fst e \<noteq> target" for e
    using dist that mem by (auto simp: distinct_map inj_on_def)
  have k: "next_calls k = map snd (filter (\<lambda>e. fst e \<noteq> target) (fan_calls f))"
    and old: "task_calls task = map snd (fan_calls f)"
    using f'(2) calls 6(2) by simp_all
  show thesis
  proof (rule finishes [OF c(2) only_sends_refl])
    show "c \<in> set (task_calls task)" using mem unfolding old by force
    show "set (next_calls k) \<subseteq> {d \<in> set (task_calls task). c_key d \<noteq> c_key c}"
      using only unfolding old k by auto
    show "distinct (map c_key (next_calls k))"
      using dist unfolding k by (simp add: distinct_map_filter)
  qed
next
  case (7 caller reqID mname hints f s0)
  with assms(1) show thesis
    by (intro quiet) (auto simp: route_fan_end_sends split: if_splits)
next
  case (8 w ref reqID handler params s0)
  with assms(1) show thesis
    by (intro quiet) (auto simp: handler_end_sends)
qed simp_all

section \<open>The invariant of the world\<close>

definition key_used :: "nat \<Rightarrow> bytes \<Rightarrow> bool" where
  "key_used k key \<longleftrightarrow> (\<exists>i. 1 \<le> i \<and> i \<le> k \<and> key = makeID (server_id (of_nat i)))"

text \<open>The calls under way, each with the goroutine that waits for it.\<close>

definition calls_ok :: "nat \<Rightarrow> 'h server \<Rightarrow> (nat \<times> call) set \<Rightarrow> bool" where
  "calls_ok k s cs \<longleftrightarrow>
     s_nextServerID s = of_nat k \<and>
     (\<forall>e\<in>cs. waiting s (snd e) \<and> key_used k (c_key (snd e))) \<and>
     (\<forall>e\<in>cs. \<forall>e'\<in>cs. c_key (snd e) = c_key (snd e') \<longrightarrow> e = e')"

definition calls_of :: "'h world \<Rightarrow> (nat \<times> call) set" where
  "calls_of w = {(t, c). \<exists>task. mget (w_tasks w) t = Some task \<and> c \<in> set (task_calls task)}"

definition tasks_ok :: "'h world \<Rightarrow> bool" where
  "tasks_ok w \<longleftrightarrow>
     wf_map (w_tasks w) \<and>
     (\<forall>t task. mget (w_tasks w) t = Some task \<longrightarrow>
        t < w_next w \<and> distinct (map c_key (task_calls task)))"

definition world_inv :: "nat \<Rightarrow> 'h world \<Rightarrow> bool" where
  "world_inv n w \<longleftrightarrow>
     srv_inv (w_srv w) \<and> present (w_srv w) \<and> s_next_ref (w_srv w) \<le> n \<and> tasks_ok w \<and>
     (\<exists>k \<le> n. calls_ok k (w_srv w) (calls_of w))"

lemma server_id_utf8: "utf8_valid (server_id n)"
proof -
  have "ord c < 128" if "c \<in> set (nat_digits i)" for c i
    using nat_digits_digits [OF that] by (simp add: is_digit_def)
  then have "\<forall>c\<in>set (server_id n). ord c < 128"
    by (auto simp: server_id_def itoa_def int_digits_def)
  then show ?thesis by (rule utf8_valid_ascii)
qed

lemma server_key_inj: "makeID (server_id m) = makeID (server_id n) \<Longrightarrow> m = n"
  by (drule makeID_inj [OF _ server_id_utf8 server_id_utf8])
    (auto simp: server_id_def dest!: itoa_inj intro: signed_word_eqI)

lemma next_key_fresh:
  assumes "s_nextServerID s = of_nat k" and "Suc k < 2 ^ 64"
  shows "\<not> key_used k (next_key s)" and "key_used (Suc k) (next_key s)"
proof -
  have key: "next_key s = makeID (server_id (of_nat (Suc k)))"
    by (simp add: next_key_def assms(1) add.commute)
  show "\<not> key_used k (next_key s)"
  proof
    assume "key_used k (next_key s)"
    then obtain i where i: "i \<le> k" "next_key s = makeID (server_id (of_nat i))"
      by (auto simp: key_used_def)
    then have "(of_nat i :: 64 word) = of_nat (Suc k)" using key by (metis server_key_inj)
    then have "i = Suc k" by (rule of_nat_word64_inj) (use i(1) assms(2) in auto)
    with i(1) show False by simp
  qed
  show "key_used (Suc k) (next_key s)" by (auto simp: key_used_def key intro: exI [of _ "Suc k"])
qed

lemma key_used_mono: "key_used k key \<Longrightarrow> k \<le> k' \<Longrightarrow> key_used k' key"
  by (auto simp: key_used_def intro: le_trans)

lemma calls_shrink:
  assumes "calls_ok k s cs" and "keeps K s s'" and "s_nextServerID s' = of_nat k'" and "k \<le> k'"
    and "cs' \<subseteq> cs" and "\<And>e. e \<in> cs' \<Longrightarrow> c_key (snd e) \<notin> K"
  shows "calls_ok k' s' cs'"
  unfolding calls_ok_def
proof (intro conjI ballI impI)
  show "s_nextServerID s' = of_nat k'" by (rule assms(3))
  fix e
  assume e: "e \<in> cs'"
  then have "e \<in> cs" using assms(5) by blast
  with assms(1) have old: "waiting s (snd e)" "key_used k (c_key (snd e))" by (auto simp: calls_ok_def)
  with assms(2) assms(6) [OF e] show "waiting s' (snd e)" by (simp add: keeps_def)
  show "key_used k' (c_key (snd e))" using old(2) assms(4) by (rule key_used_mono)
  fix e'
  assume "e' \<in> cs'" "c_key (snd e) = c_key (snd e')"
  with \<open>e \<in> cs\<close> assms(1,5) show "e = e'" unfolding calls_ok_def by blast
qed

lemma calls_insert:
  assumes "calls_ok k s cs" and "waiting s c" and "key_used k (c_key c)"
    and "\<And>e. e \<in> cs \<Longrightarrow> c_key (snd e) \<noteq> c_key c"
  shows "calls_ok k s (cs \<union> {(t, c)})"
  unfolding calls_ok_def
proof (intro conjI ballI impI)
  show "s_nextServerID s = of_nat k" using assms(1) by (simp add: calls_ok_def)
  fix e e'
  assume e: "e \<in> cs \<union> {(t, c)}"
  then show "waiting s (snd e)" and "key_used k (c_key (snd e))"
    using assms(1,2,3) by (auto simp: calls_ok_def)
  assume "e' \<in> cs \<union> {(t, c)}" "c_key (snd e) = c_key (snd e')"
  with e assms(4) [of e] assms(4) [of e'] assms(1) show "e = e'"
    unfolding calls_ok_def by (metis UnE singletonD snd_conv)
qed

lemma calls_counter: "calls_ok k s cs \<Longrightarrow> s_nextServerID s = of_nat k"
  by (simp add: calls_ok_def)

lemma calls_sends: "calls_ok k s cs \<Longrightarrow> only_sends s s' \<Longrightarrow> calls_ok k s' cs"
  by (rule calls_shrink [OF _ sends_keeps]) (auto simp: sends_fields calls_counter)

lemma calls_grow:
  assumes ok: "calls_ok k s cs" and inv: "srv_inv s" and k: "Suc k < 2 ^ 64"
    and beg: "invoke_begin target mname params s = (r, s')"
  obtains k' where "k \<le> k'" "k' \<le> Suc k"
    "calls_ok k' s' (cs \<union> (case r of Inl e \<Rightarrow> {} | Inr c \<Rightarrow> {(t, c)}))"
    "\<And>c e. r = Inr c \<Longrightarrow> e \<in> cs \<Longrightarrow> c_key (snd e) \<noteq> c_key c"
proof -
  note tab = srv_inv_tables [OF inv]
  have cnt: "s_nextServerID s = of_nat k" using ok by (simp add: calls_ok_def)
  note fresh = next_key_fresh [OF cnt k]
  have old: "c_key (snd e) \<noteq> next_key s" if "e \<in> cs" for e
    using ok fresh(1) that by (auto simp: calls_ok_def)
  note kp = invoke_begin_keeps [OF tab beg]
  have later: "calls_ok (Suc k) s' cs" if "s_nextServerID s' = of_nat (Suc k)"
    using calls_shrink [OF ok kp that] old by auto
  show thesis
  proof (cases r)
    case (Inl e)
    show thesis
    proof (cases "s' = s")
      case True
      with ok Inl show thesis by (intro that [of k]) auto
    next
      case False
      with invoke_begin_counter [OF beg] cnt have "s_nextServerID s' = of_nat (Suc k)"
        by (auto simp: add.commute)
      with later Inl show thesis by (intro that [of "Suc k"]) auto
    qed
  next
    case (Inr c)
    note new = invoke_begin_waiting [OF tab srv_inv_peers [OF inv] beg [unfolded Inr]]
    have "s_nextServerID s' = of_nat (Suc k)" using new(3) cnt by (simp add: add.commute)
    then have "calls_ok (Suc k) s' cs" by (rule later)
    moreover have "\<And>e. e \<in> cs \<Longrightarrow> c_key (snd e) \<noteq> c_key c" using old new(2) by simp
    ultimately have "calls_ok (Suc k) s' (cs \<union> {(t, c)})"
      using new(1,2) fresh(2) by (intro calls_insert) auto
    with old new(2) Inr show thesis by (intro that [of "Suc k"]) auto
  qed
qed

lemma begin_step:
  assumes "srv_inv s" and "present s" and "invoke_begin target mname params s = (r, s1)"
    and "only_sends s1 s'"
  shows "srv_inv s'" and "present s'" and "s_next_ref s' = s_next_ref s"
proof -
  have "calm s s'" using invoke_begin_calm [OF assms(3)] sends_fields(1) [OF assms(4)] by (rule calm_trans)
  then show "srv_inv s'" and "present s'" and "s_next_ref s' = s_next_ref s"
    using calm_inv calm_present assms(1,2) by (blast, blast, simp add: calm_def)
qed

text \<open>Replacing and adding goroutines.\<close>

lemma calls_of_set:
  assumes "tasks_ok w"
  shows "calls_of (set_task t k w) = {e \<in> calls_of w. fst e \<noteq> t} \<union> {t} \<times> set (next_calls k)"
  using assms
  by (cases k) (auto simp: calls_of_def set_task_def tasks_ok_def next_calls_def split: if_splits)

lemma tasks_set:
  assumes "tasks_ok w" and "mget (w_tasks w) t \<noteq> None" and "distinct (map c_key (next_calls k))"
  shows "tasks_ok (set_task t k w)"
  using assms
  by (cases k) (auto simp: set_task_def tasks_ok_def gomap split: if_splits)

lemma calls_of_spawn:
  assumes "tasks_ok w"
  shows "calls_of (spawn k w) = calls_of w \<union> {w_next w} \<times> set (next_calls k)"
  using assms
  by (cases k) (fastforce simp: calls_of_def spawn_def tasks_ok_def next_calls_def split: if_splits)+

lemma tasks_spawn:
  assumes "tasks_ok w" and "distinct (map c_key (next_calls k))"
  shows "tasks_ok (spawn k w)"
  using assms
  by (cases k) (auto simp: spawn_def tasks_ok_def gomap less_Suc_eq split: if_splits)

lemma world_srv_simps [simp]:
  "w_srv (spawn k w) = w_srv w" "w_srv (set_task t k w) = w_srv w"
  "calls_of (w\<lparr>w_srv := s\<rparr>) = calls_of w" "tasks_ok (w\<lparr>w_srv := s\<rparr>) = tasks_ok w"
  by (auto simp: spawn_def set_task_def calls_of_def tasks_ok_def split: option.split)

section \<open>Every event keeps the invariant\<close>

lemma quiet_event:
  assumes inv: "world_inv n w" and "srv_inv s'" and "present s'" and "s_next_ref s' \<le> Suc n"
    and "keeps {} (w_srv w) s'" and "s_nextServerID s' = s_nextServerID (w_srv w)"
    and "next_calls k = []"
  shows "world_inv (Suc n) (with_srv (k, s') w)"
proof -
  from inv obtain m where m: "m \<le> n" "calls_ok m (w_srv w) (calls_of w)" and tasks: "tasks_ok w"
    by (auto simp: world_inv_def)
  have "calls_ok m s' (calls_of w)"
    using calls_shrink [OF m(2) assms(5), of m] assms(6) calls_counter [OF m(2)] by auto
  with m(1) assms(2-4,7) tasks tasks_spawn [of "w\<lparr>w_srv := s'\<rparr>" k] show ?thesis
    by (auto simp: world_inv_def with_srv_def calls_of_spawn intro!: exI [of _ m])
qed

lemma calm_world:
  assumes "calm s s'" and "srv_inv s" and "present s"
  shows "srv_inv s'" and "present s'" and "s_next_ref s' = s_next_ref s"
  using assms calm_inv calm_present by (blast, blast, simp add: calm_def)

lemma quiet_calm:
  assumes "world_inv n w" and "calm (w_srv w) s'"
    and "keeps {} (w_srv w) s'" and "s_nextServerID s' = s_nextServerID (w_srv w)"
    and "next_calls k = []"
  shows "world_inv (Suc n) (with_srv (k, s') w)"
proof -
  have srv: "srv_inv (w_srv w)" "present (w_srv w)" "s_next_ref (w_srv w) \<le> n"
    using assms(1) by (auto simp: world_inv_def)
  note next_srv = calm_world [OF assms(2) srv(1,2)]
  show ?thesis
    by (rule quiet_event [OF assms(1) next_srv(1,2) _ assms(3-5)]) (use next_srv(3) srv(3) in simp)
qed

lemma begin_event:
  assumes inv: "world_inv n w" and n: "Suc n < 2 ^ 64"
    and beg: "invoke_begin target mname params (w_srv w) = (r, s')"
    and k: "k = (case r of Inl e \<Rightarrow> None | Inr c \<Rightarrow> Some (ApiTask c))"
  shows "world_inv (Suc n) (with_srv (k, s') w)"
proof -
  from inv obtain m where m: "m \<le> n" "calls_ok m (w_srv w) (calls_of w)" and tasks: "tasks_ok w"
    and srv: "srv_inv (w_srv w)" "present (w_srv w)" "s_next_ref (w_srv w) \<le> n"
    by (auto simp: world_inv_def)
  have small: "Suc m < 2 ^ 64" using m(1) n by linarith
  obtain m' where m': "m' \<le> Suc m"
    "calls_ok m' s' (calls_of w \<union> (case r of Inl e \<Rightarrow> {} | Inr c \<Rightarrow> {(w_next w, c)}))"
    by (rule calls_grow [OF m(2) srv(1) small beg, where t = "w_next w"]) (rule that, assumption+)
  have calls: "calls_of (with_srv (k, s') w) =
      calls_of w \<union> (case r of Inl e \<Rightarrow> {} | Inr c \<Rightarrow> {(w_next w, c)})"
    using tasks by (auto simp: with_srv_def calls_of_spawn k split: sum.split)
  have "tasks_ok (with_srv (k, s') w)"
    using tasks_spawn [of "w\<lparr>w_srv := s'\<rparr>" k] tasks
    by (auto simp: with_srv_def k split: sum.split)
  with begin_step [OF srv(1,2) beg only_sends_refl] srv(3) calls m' m(1) show ?thesis
    by (auto simp: world_inv_def with_srv_def intro!: exI [of _ m'])
qed

text \<open>A step of a goroutine.\<close>

lemma task_event:
  assumes inv: "world_inv n w" and n: "Suc n < 2 ^ 64" and task: "mget (w_tasks w) t = Some task"
    and run: "run_task ev task (w_srv w) = Some (k, s')"
  shows "world_inv (Suc n) (set_task t k (w\<lparr>w_srv := s'\<rparr>))"
proof -
  from inv obtain m where m: "m \<le> n" "calls_ok m (w_srv w) (calls_of w)" and tasks: "tasks_ok w"
    and srv: "srv_inv (w_srv w)" "present (w_srv w)" "s_next_ref (w_srv w) \<le> n"
    by (auto simp: world_inv_def)
  have dist: "distinct (map c_key (task_calls task))" using tasks task by (auto simp: tasks_ok_def)
  have own: "{t} \<times> set (task_calls task) \<subseteq> calls_of w" using task by (auto simp: calls_of_def)
  define rest where "rest = {e \<in> calls_of w. fst e \<noteq> t}"
  have calls: "calls_of (set_task t k (w\<lparr>w_srv := s'\<rparr>)) = rest \<union> {t} \<times> set (next_calls k)"
    using tasks by (simp add: calls_of_set rest_def)
  have unique: "c_key (snd e) \<noteq> c_key c" if "e \<in> rest" "c \<in> set (task_calls task)" for e c
  proof
    assume "c_key (snd e) = c_key c"
    moreover have "e \<in> calls_of w" "(t, c) \<in> calls_of w" using own that by (auto simp: rest_def)
    ultimately have "e = (t, c)" using m(2) unfolding calls_ok_def by fastforce
    with that(1) show False by (simp add: rest_def)
  qed
  have result: ?thesis
    if "distinct (map c_key (next_calls k))" "srv_inv s'" "present s'" "s_next_ref s' = s_next_ref (w_srv w)"
      "m' \<le> Suc n" "calls_ok m' s' (rest \<union> {t} \<times> set (next_calls k))" for m'
  proof -
    have "tasks_ok (set_task t k (w\<lparr>w_srv := s'\<rparr>))"
      using tasks task that(1) by (intro tasks_set) simp_all
    with that(2-6) srv(3) show ?thesis
      unfolding world_inv_def calls by (intro conjI exI [of _ m']) simp_all
  qed
  have sub: "calls_ok m (w_srv w) rest"
    by (rule calls_shrink [OF m(2) keeps_refl [of "{}"]]) (auto simp: rest_def calls_counter [OF m(2)])
  from run dist show ?thesis
  proof (cases rule: run_task_calls)
    case quiet
    note next_srv = calm_world [OF sends_fields(1) [OF quiet(1)] srv(1,2)]
    show ?thesis
      by (rule result [of m]) (use calls_sends [OF sub quiet(1)] quiet(2) m(1) next_srv in auto)
  next
    case (starts target mname params r s1)
    have all: "rest \<union> {t} \<times> set (task_calls task) \<subseteq> calls_of w" using own by (auto simp: rest_def)
    have ok: "calls_ok m (w_srv w) (rest \<union> {t} \<times> set (task_calls task))"
      by (rule calls_shrink [OF m(2) keeps_refl [of "{}"]]) (use all calls_counter [OF m(2)] in auto)
    have small: "Suc m < 2 ^ 64" using m(1) n by linarith
    obtain m' where m': "m' \<le> Suc m"
      "calls_ok m' s1 (rest \<union> {t} \<times> set (task_calls task) \<union> (case r of Inl e \<Rightarrow> {} | Inr c \<Rightarrow> {(t, c)}))"
      "\<And>c e. r = Inr c \<Longrightarrow> e \<in> rest \<union> {t} \<times> set (task_calls task) \<Longrightarrow> c_key (snd e) \<noteq> c_key c"
      by (rule calls_grow [OF ok srv(1) small starts(1), where t = t]) (rule that, assumption+)
    have "rest \<union> {t} \<times> set (next_calls k) =
        rest \<union> {t} \<times> set (task_calls task) \<union> (case r of Inl e \<Rightarrow> {} | Inr c \<Rightarrow> {(t, c)})"
      by (auto simp: starts(3) split: sum.split)
    moreover have "distinct (map c_key (next_calls k))"
    proof (cases r)
      case (Inr c)
      with m'(3) have "c_key d \<noteq> c_key c" if "d \<in> set (task_calls task)" for d
        using that by force
      with dist Inr show ?thesis by (auto simp: starts(3)) metis
    qed (use dist in \<open>simp add: starts(3)\<close>)
    ultimately show ?thesis
      using calls_sends [OF m'(2) starts(2)] begin_step [OF srv(1,2) starts(1,2)] m'(1) m(1)
      by (intro result [of m']) simp_all
  next
    case (finishes u c r s1)
    have "calm (w_srv w) s'"
      using invoke_end_calm(1) [OF finishes(1)] sends_fields(1) [OF finishes(2)] by (rule calm_trans)
    moreover have "keeps {c_key c} (w_srv w) s'"
      using invoke_end_keeps [OF srv_inv_tables [OF srv(1)] finishes(1)] sends_keeps [OF finishes(2)]
      by (rule keeps_trans_empty)
    moreover have "s_nextServerID s' = of_nat m"
      using invoke_end_calm(2) [OF finishes(1)] sends_fields(3) [OF finishes(2)] calls_counter [OF m(2)] by simp
    moreover have "rest \<union> {t} \<times> set (next_calls k) \<subseteq> calls_of w"
      using own finishes(4) by (auto simp: rest_def)
    ultimately have "calls_ok m s' (rest \<union> {t} \<times> set (next_calls k))"
      using unique [OF _ finishes(3)] finishes(4)
      by (intro calls_shrink [OF m(2)]) auto
    with finishes(5) m(1) calm_world [OF \<open>calm (w_srv w) s'\<close> srv(1,2)] show ?thesis
      by (intro result [of m]) simp_all
  next
    case (server addr path)
    have "calls_ok m s' rest"
      using calls_shrink [OF sub same_heap(1) [OF start_frame(1,2)]] calls_counter [OF m(2)]
      by (auto simp: server(1) start_frame)
    with server(2) m(1) srv start_commit_inv [OF srv(1)]
      same_heap(3) [OF start_frame(1,2,3) srv(2)] show ?thesis
      by (intro result [of m]) (simp_all add: server(1) start_frame)
  qed
qed

lemma env_write_calm:
  "calm s (upd_peer ref (\<lambda>p. p\<lparr>p_ws := e\<rparr>) s)"
  "keeps {} s (upd_peer ref (\<lambda>p. p\<lparr>p_ws := e\<rparr>) s)"
  "s_nextServerID (upd_peer ref (\<lambda>p. p\<lparr>p_ws := e\<rparr>) s) = s_nextServerID s"
  by (auto simp: calm_def keeps_def waiting_def upd_peer_def peer_pend_def)

lemma happen_inv:
  assumes inv: "world_inv n w" and n: "Suc n < 2 ^ 64" and ev: "happen e w = Some w'"
  shows "world_inv (Suc n) w'"
proof -
  have srv: "srv_inv (w_srv w)" "present (w_srv w)" "s_next_ref (w_srv w) \<le> n"
    using inv by (auto simp: world_inv_def)
  note quiet = quiet_event [OF inv] and frame = same_heap [of _ "w_srv w"]
  show ?thesis
  proof (cases e)
    case (EvTask t te)
    with ev show ?thesis using task_event [OF inv n] by (auto split: option.splits)
  next
    case (EvFrame ref is_text data)
    obtain m s' where "read_frame is_text data ref (w_srv w) = (m, s')"
      by (cases "read_frame is_text data ref (w_srv w)")
    with ev EvFrame show ?thesis
      using quiet_calm [OF inv read_frame_calm(1) read_frame_keeps read_frame_calm(2)]
      by (auto simp: next_calls_def split: if_splits option.split)
  next
    case (EvAccept sub)
    have "srv_inv (snd (accept_peer sub (w_srv w)))" by (rule accept_inv [OF srv(1)])
    moreover have "present (snd (accept_peer sub (w_srv w)))"
      using srv n by (intro accept_present) auto
    ultimately show ?thesis
      using ev EvAccept srv(3) accept_keeps accept_counters [of sub "w_srv w"]
      by (auto intro!: quiet)
  next
    case (EvDisconnect ref)
    with ev have ref: "ref < s_next_ref (w_srv w)" and w': "w' = with_srv (None, disconnect ref (w_srv w)) w"
      by (auto simp: reading_def split: if_splits)
    have "present (disconnect ref (w_srv w))" using srv n ref by (intro disconnect_present) auto
    with disconnect_inv [OF srv(1)] disconnect_keeps srv(3) show ?thesis
      unfolding w' by (intro quiet) (auto simp: disconnect_shape)
  next
    case (EvInvoke cid mname params)
    obtain r s' where r: "invoke_begin cid mname params (w_srv w) = (r, s')"
      by (cases "invoke_begin cid mname params (w_srv w)")
    note begin_event [OF inv n r refl]
    with ev EvInvoke r show ?thesis by (auto split: sum.splits)
  next
    case (EvRegister mname handler)
    with ev show ?thesis
      using Register_inv [OF srv(1)] frame(1) frame(3) [OF _ _ _ srv(2)] srv(3)
      by (auto intro!: quiet simp: Register_def)
  next
    case (EvUnregister mname)
    with ev show ?thesis
      using Unregister_inv [OF srv(1)] frame(1) frame(3) [OF _ _ _ srv(2)] srv(3)
      by (auto intro!: quiet simp: Unregister_def)
  next
    case (EvWait choice)
    with ev obtain r s' where w: "WaitForClient choice (w_srv w) = Some (r, s')"
      and w': "w' = with_srv (None, s') w" by auto
    then have "s_heap s' = s_heap (w_srv w)" "s_next_ref s' = s_next_ref (w_srv w)"
      "s_peers s' = s_peers (w_srv w)" "s_nextServerID s' = s_nextServerID (w_srv w)"
      by (auto simp: WaitForClient_def split: wait_choice.splits list.splits)
    with w' show ?thesis
      using WaitForClient_inv [OF srv(1) w] frame(1) frame(3) [OF _ _ _ srv(2)] srv(3)
      by (auto intro!: quiet)
  next
    case (EvStart parsed lis)
    obtain r s' where r: "start_begin (\<lambda>_. parsed) (\<lambda>_. lis) (w_srv w) = (r, s')"
      by (cases "start_begin (\<lambda>_. parsed) (\<lambda>_. lis) (w_srv w)")
    then have s': "s' = snd (start_begin (\<lambda>_. parsed) (\<lambda>_. lis) (w_srv w))" by simp
    have "world_inv (Suc n) (with_srv (k, s') w)" if "next_calls k = []" for k
      using start_begin_inv [OF srv(1)] frame(1) frame(3) [OF _ _ _ srv(2)] srv(3) that
      unfolding s' by (intro quiet) (auto simp: start_frame)
    with ev EvStart r show ?thesis by (auto split: sum.splits)
  next
    case (EvClose shutdown)
    with ev show ?thesis
      using Close_inv [OF srv(1)] Close_present [OF srv(1,2)] Close_keeps srv(3)
      by (auto intro!: quiet simp: Close_counters)
  next
    case (EvWrite ref err)
    with ev show ?thesis by (auto intro!: quiet_calm [OF inv] env_write_calm)
  qed
qed

lemma new_world_inv: "world_inv 0 (new_world b)"
  using NewServer_inv NewServer_present
  by (auto simp: world_inv_def new_world_def tasks_ok_def calls_ok_def calls_of_def NewServer_def)

text \<open>The running server is a bounded system.\<close>

interpretation srv: bounded_system "new_world b" step world_inv "2 ^ 64 - 1"
proof
  show "world_inv 0 (new_world b)" by (rule new_world_inv)
  fix n and w w' :: "'a world"
  assume "n < 2 ^ 64 - 1" "world_inv n w" "step w w'"
  then show "world_inv (Suc n) w'" by (auto intro: happen_inv)
qed

end
