(* ===== verification/TypesSpec.thy ===== *)
theory TypesSpec
  imports RpcTypes
begin

text \<open>
  Properties of the wire types: the round trip of envelopes, identifiers, the decoding of
  parameters and results, and the two classes of frames that cannot be decoded.
\<close>

section \<open>Printed values have no white space at their ends\<close>

definition solid_ends :: "string \<Rightarrow> bool" where
  "solid_ends s \<longleftrightarrow> s \<noteq> [] \<and> solid (hd s) \<and> solid (last s)"

lemma TrimSpace_solid_ends: "solid_ends s \<Longrightarrow> TrimSpace s = s"
proof (cases s rule: rev_cases)
  case (snoc u d)
  then show "solid_ends s \<Longrightarrow> TrimSpace s = s"
    using TrimSpace_solid by (cases u) (auto simp: solid_ends_def)
qed (simp add: solid_ends_def)

lemma solid_num_char: "num_char c \<Longrightarrow> solid c"
  by (auto simp: num_char_def is_digit_def solid_def)

lemma solid_ends_print: "wf_any v \<Longrightarrow> solid_ends (json_print v)"
proof (cases v)
  case (GNum t)
  moreover assume "wf_any v"
  ultimately have "\<forall>c\<in>set t. solid c" "t \<noteq> []"
    using pnum_chars [of t t "[]"] pnum_split [of t t "[]"] solid_num_char by auto
  then show ?thesis using GNum by (simp add: solid_ends_def)
qed (auto simp: solid_ends_def solid_def json_quote_def)

lemma TrimSpace_print [simp]: "wf_any v \<Longrightarrow> TrimSpace (json_print v) = json_print v"
  by (rule TrimSpace_solid_ends) (rule solid_ends_print)

lemma TrimSpace_null [simp]: "TrimSpace ''null'' = ''null''"
  using TrimSpace_print [of GNull] by simp

lemma print_nonempty: "wf_any v \<Longrightarrow> json_print v \<noteq> []"
  using solid_ends_print by (auto simp: solid_ends_def)

lemma wire_any_wf: "wire_any v \<Longrightarrow> wf_any v"
  by (simp add: wire_any_def)

lemma print_inj: "wire_any v \<Longrightarrow> wire_any u \<Longrightarrow> json_print v = json_print u \<Longrightarrow> v = u"
  using json_round_trip by (metis option.inject)

lemma wire_null [simp]: "wire_any GNull"
  by (simp add: wire_any_def max_depth_def)

lemma print_null: "wire_any v \<Longrightarrow> json_print v = ''null'' \<longleftrightarrow> v = GNull"
  using print_inj [of v GNull] by auto

lemma hasID_print: "wire_any v \<Longrightarrow> hasID (json_print v) \<longleftrightarrow> v \<noteq> GNull"
  by (simp add: hasID_def wire_any_wf print_nonempty print_null)

lemma decodeParams_print:
  assumes "wire_any v"
  shows "decodeParams (json_print v) =
    (case v of
       GObj params \<Rightarrow> Inr params
     | GNull \<Rightarrow> Inr []
     | _ \<Rightarrow> Inl (ErrText ''params must be an object''))"
  using assms
  by (cases "v = GNull")
    (auto simp: decodeParams_def Let_def wire_any_wf print_nonempty print_null json_round_trip
      split: gany.split)

lemma decodeResult_print:
  assumes "wire_any v"
  shows "decodeResult (json_print v) =
    (case v of GNull \<Rightarrow> Inr [] | GObj obj \<Rightarrow> Inr obj | _ \<Rightarrow> Inr [(''value'', v)])"
  using assms
  by (auto simp: decodeResult_def Let_def wire_any_wf print_nonempty json_round_trip split: gany.split)

lemma wire_raw_print: "wf_any v \<Longrightarrow> depth v < max_depth \<Longrightarrow> wire_raw (json_print v)"
  by (auto simp: wire_raw_def)

lemma wire_raw_makeID [simp]: "utf8_valid s \<Longrightarrow> wire_raw (makeID s)"
  using wire_raw_print [of "GStr s"] by (simp add: makeID_def max_depth_def)

lemma wire_raw_Nil [simp]: "wire_raw []"
  by (simp add: wire_raw_def)

lemma wire_raw_null [simp]: "wire_raw ''null''"
  using wire_raw_print [of GNull] by (simp add: max_depth_def)

text \<open>Reading back a frame that was marshalled.\<close>

lemma frame_reads:
  assumes "wire_message m"
  obtains data where "marshalMessage m = Inr data" "unmarshalMessage data = Some m"
  using wire_round_trip [OF assms] by blast

lemma utf8_valid_jsonrpc [simp]: "utf8_valid jsonRPCVersion"
  by (rule utf8_valid_ascii) (simp add: jsonRPCVersion_def)

section \<open>Properties\<close>

text \<open>
  C15: The JSON-RPC envelope survives the wire: an envelope whose texts are UTF-8, whose raw
  members are empty or printed JSON values and whose error code fits 64 bits is marshalled
  without an error, and unmarshalling the frame into a zero \<open>rpcMessage\<close> gives back every
  field.
\<close>

theorem envelope_round_trip:
  assumes "wire_message m"
  shows "\<exists>data. marshalMessage m = Inr data \<and> unmarshalMessage data = Some m"
  by (rule wire_round_trip [OF assms])

definition sample_request :: rpc_message where
  "sample_request =
     empty_message\<lparr>m_jsonrpc := jsonRPCVersion, m_id := makeID ''s1'', m_method := ''sum'',
       m_params := json_print (GObj [(''a'', GNum ''1'')])\<rparr>"

lemma envelope_round_trip_witness:
  "\<exists>data. marshalMessage sample_request = Inr data \<and> unmarshalMessage data = Some sample_request"
proof (rule envelope_round_trip)
  have "wf_any (GObj [(''a'', GNum ''1'')])" "depth (GObj [(''a'', GNum ''1'')]) < max_depth"
    by (simp_all add: gomap max_depth_def) code_simp
  then have "wire_raw (json_print (GObj [(''a'', GNum ''1'')]))" by (rule wire_raw_print)
  then show "wire_message sample_request"
    by (simp add: wire_message_def sample_request_def empty_message_def wire_error_def)
qed

text \<open>
  An identifier that \<open>makeID\<close> made is never taken for a notification, is its own key in
  the table of calls, decodes to the text it was made from, and no other text gives the
  same identifier.
\<close>

lemma identifiers_round_trip:
  assumes "utf8_valid s"
  shows "hasID (makeID s) \<and> idKey (makeID s) = Some (makeID s) \<and> decodeStringID (makeID s) = Inr s \<and>
    {t. utf8_valid t \<and> makeID t = makeID s} = {s}"
  using assms makeID_inj by (auto simp: decodeStringID_makeID)

text \<open>
  \<open>decodeParams\<close> on the text of any JSON value, with white space trimmed around it:
  an object is returned as it is, \<^verbatim>\<open>null\<close> and a missing value are the empty object, and
  anything else is the error "params must be an object".
\<close>

lemma decodeParams_values:
  assumes "wire_any v" and "TrimSpace raw = json_print v"
  shows "decodeParams [] = Inr [] \<and>
    decodeParams raw =
      (case v of
         GObj params \<Rightarrow> Inr params
       | GNull \<Rightarrow> Inr []
       | _ \<Rightarrow> Inl (ErrText ''params must be an object''))"
proof -
  have "decodeParams raw = decodeParams (TrimSpace raw)" by (simp add: decodeParams_def)
  then show ?thesis using decodeParams_print [OF assms(1)] assms(2) by (simp add: decodeParams_def)
qed

text \<open>
  Frames that cannot be an envelope: text that is not JSON is refused and classified as
  a parse error, JSON that is neither an object nor \<^verbatim>\<open>null\<close> is refused and classified as an
  invalid request.
\<close>

lemma bad_frames_classified:
  assumes "json_unmarshal data = r" and "r \<noteq> Some GNull" and "\<And>ms. r \<noteq> Some (GObj ms)"
  shows "unmarshalMessage data = None \<and>
    classifyDecodeError data = (if r = None then codeParseError else codeInvalidRequest)"
  using assms by (auto simp: unmarshalMessage_def classifyDecodeError_def json_valid_def split: option.split gany.split)

end
