(* ===== verification/RoutingSpec.thy ===== *)
theory RoutingSpec
  imports WorldInv TypesSpec "HOL-Library.Multiset"
begin

text \<open>
  Properties of the routing: what the hints of a request may be and what is left of the
  parameters, the mapping of errors, the entries of a fan-out, and who gets a broadcast.
\<close>

section \<open>Routing hints\<close>

definition bad_routing :: "object \<Rightarrow> bool" where
  "bad_routing params \<longleftrightarrow>
     (case mget params ''_routing'' of
        None \<Rightarrow> False
      | Some (GStr raw) \<Rightarrow>
          TrimSpace raw \<notin> {routeModeDefault, routeModeBroadcastResponse, routeModeFullBroadcast}
      | Some _ \<Rightarrow> True)"

definition bad_peer :: "object \<Rightarrow> bool" where
  "bad_peer params \<longleftrightarrow>
     (case mget params ''_peer'' of
        None \<Rightarrow> False
      | Some (GStr raw) \<Rightarrow> TrimSpace raw = []
      | Some _ \<Rightarrow> True)"

definition hinted :: "object \<Rightarrow> string \<Rightarrow> string" where
  "hinted params key = (case mget params key of Some (GStr raw) \<Rightarrow> TrimSpace raw | _ \<Rightarrow> [])"

lemma routing_hint_cases:
  "routing_hint params =
     (if bad_routing params then
        Inl (rpc_err codeInvalidParams
          (case mget params ''_routing'' of
             Some (GStr raw) \<Rightarrow> ''unsupported _routing '' @ quote_q (TrimSpace raw)
           | _ \<Rightarrow> ''_routing must be a string''))
      else Inr (hinted params ''_routing'', mdel ''_routing'' params))"
proof (cases "mget params ''_routing''")
  case None
  then have "mdel ''_routing'' params = params"
    by (auto simp: mdel_def mget_def map_of_eq_None_iff filter_id_conv image_iff)
  with None show ?thesis
    by (simp add: routing_hint_def bad_routing_def hinted_def routeModeDefault_def)
next
  case (Some v)
  then show ?thesis
    by (cases v) (auto simp: routing_hint_def bad_routing_def hinted_def Let_def)
qed

lemma peer_hint_cases:
  "peer_hint params =
     (if bad_peer params then
        Inl (rpc_err codeInvalidParams
          (case mget params ''_peer'' of Some (GStr raw) \<Rightarrow> ''_peer must be non-empty'' | _ \<Rightarrow> ''_peer must be a string''))
      else Inr (hinted params ''_peer'', mdel ''_peer'' params))"
proof (cases "mget params ''_peer''")
  case None
  then have "mdel ''_peer'' params = params"
    by (auto simp: mdel_def mget_def map_of_eq_None_iff filter_id_conv image_iff)
  with None show ?thesis by (simp add: peer_hint_def bad_peer_def hinted_def)
next
  case (Some v)
  then show ?thesis by (cases v) (auto simp: peer_hint_def bad_peer_def hinted_def Let_def)
qed

lemma bad_peer_mdel [simp]: "bad_peer (mdel ''_routing'' params) = bad_peer params"
  by (simp add: bad_peer_def)

lemma hinted_mdel [simp]: "hinted (mdel ''_routing'' params) ''_peer'' = hinted params ''_peer''"
  by (simp add: hinted_def)

definition fan_name :: "string \<Rightarrow> string" where
  "fan_name mname =
     (if HasPrefix ''*.'' (TrimSpace mname) then TrimSpace (TrimPrefix ''*.'' (TrimSpace mname))
      else TrimSpace mname)"

definition stripped :: "object \<Rightarrow> object" where
  "stripped params = mdel ''_peer'' (mdel ''_routing'' params)"

text \<open>\<open>parseRouteHints\<close> in one equation.\<close>

lemma parseRouteHints_eq:
  assumes "TrimSpace mname \<noteq> []" and "\<not> bad_routing params" and "\<not> bad_peer params"
    and "fan_name mname \<noteq> []"
  shows "parseRouteHints mname params =
    (if hinted params ''_routing'' = routeModeFullBroadcast \<and> \<not> HasPrefix ''*.'' (TrimSpace mname) then
       Inl (rpc_err codeInvalidParams ''full-broadcast requires a fan-out method'')
     else Inr (fan_name mname, HasPrefix ''*.'' (TrimSpace mname), stripped params,
       \<lparr>targetPeerID = hinted params ''_peer'', mode = hinted params ''_routing''\<rparr>))"
  using assms
  by (auto simp: parseRouteHints_def routing_hint_cases peer_hint_cases fan_out_method_def fan_name_def
      stripped_def Let_def)

text \<open>
  \<open>parseRouteHints\<close> accepts exactly the requests whose method is not blank, also after
  the fan-out prefix, whose \<^verbatim>\<open>_routing\<close> is absent or a text naming one of the three modes,
  whose \<^verbatim>\<open>_peer\<close> is absent or a non-blank text, and which ask for a full broadcast only
  with the prefix. It then returns the bare method name, whether to fan out, the parameters
  without the two hints and otherwise unchanged, and the trimmed hints.
\<close>

lemma parseRouteHints_accepts:
  "parseRouteHints mname params = Inr (m, fo, ps, h) \<longleftrightarrow>
     TrimSpace mname \<noteq> [] \<and> \<not> bad_routing params \<and> \<not> bad_peer params \<and> fan_name mname \<noteq> [] \<and>
     \<not> (mode h = routeModeFullBroadcast \<and> \<not> fo) \<and>
     m = fan_name mname \<and> fo = HasPrefix ''*.'' (TrimSpace mname) \<and>
     ps = filter (\<lambda>e. fst e \<noteq> ''_routing'' \<and> fst e \<noteq> ''_peer'') params \<and>
     h = \<lparr>targetPeerID = hinted params ''_peer'', mode = hinted params ''_routing''\<rparr>"
proof (cases "TrimSpace mname \<noteq> [] \<and> \<not> bad_routing params \<and> \<not> bad_peer params \<and> fan_name mname \<noteq> []")
  case True
  have "stripped params = filter (\<lambda>e. fst e \<noteq> ''_routing'' \<and> fst e \<noteq> ''_peer'') params"
    by (simp add: stripped_def mdel_def conj_commute)
  with True parseRouteHints_eq [of mname params] show ?thesis by auto
next
  case False
  then have "isl (parseRouteHints mname params)"
    by (auto simp: parseRouteHints_def routing_hint_cases peer_hint_cases fan_out_method_def fan_name_def Let_def
        split: if_splits)
  with False show ?thesis by auto
qed

lemma parseRouteHints_error:
  assumes "parseRouteHints mname params = Inl e"
  shows "\<exists>message. e =
    rpc_err (if TrimSpace mname = [] \<or> \<not> bad_routing params \<and> \<not> bad_peer params \<and> fan_name mname = []
             then codeInvalidRequest else codeInvalidParams) message"
proof (cases "TrimSpace mname \<noteq> [] \<and> \<not> bad_routing params \<and> \<not> bad_peer params \<and> fan_name mname \<noteq> []")
  case True
  with assms show ?thesis by (auto simp: parseRouteHints_eq split: if_splits)
next
  case False
  with assms show ?thesis
    by (auto simp: parseRouteHints_def routing_hint_cases peer_hint_cases fan_out_method_def fan_name_def
        Let_def split: if_splits)
qed

section \<open>Errors\<close>

text \<open>
  \<open>toResponseError\<close>: a JSON-RPC error keeps its code, message and data through any
  number of \<^verbatim>\<open>%w\<close> wrappings; a cancelled context becomes code 1, an exceeded deadline
  code 4 and every other failure code 14 (unavailable), each with the text of the whole
  error and without data; nil stays nil.
\<close>

lemma toResponseError_maps:
  "toResponseError None = None \<and>
   toResponseError (Some (foldr ErrWrap ws (ErrRPC r))) = Some r \<and>
   (\<forall>e code. (e, code) \<in> {(ErrCanceled, 1), (ErrDeadline, 4), (ErrConnectionClosed, 14), (ErrText t, 14)} \<longrightarrow>
      toResponseError (Some (foldr ErrWrap ws e)) =
        Some \<lparr>re_code = code, re_message = error_text (foldr ErrWrap ws e), re_data = GNull\<rparr>)"
proof -
  have wraps: "as_rpc (foldr ErrWrap ws e) = as_rpc e" "is_canceled (foldr ErrWrap ws e) = is_canceled e"
    "is_deadline (foldr ErrWrap ws e) = is_deadline e" for e
    by (induction ws) simp_all
  show ?thesis by (auto simp: toResponseError_def wraps codeUnavailable_def)
qed

section \<open>Fan-out\<close>

text \<open>
  A schedule of the goroutines of a fan-out: each event with the state of the server in
  which it happens, which other goroutines may have changed in between.
\<close>

datatype fan_event = FanStarts string | FanWakes string wake

fun fan_run :: "(fan_event \<times> 'h server) list \<Rightarrow> fan \<Rightarrow> fan option" where
  "fan_run [] f = Some f"
| "fan_run ((FanStarts target, s) # es) f =
     (case fan_begin target f s of None \<Rightarrow> None | Some (f', s') \<Rightarrow> fan_run es f')"
| "fan_run ((FanWakes target w, s) # es) f =
     (case fan_end target w f s of None \<Rightarrow> None | Some (f', s') \<Rightarrow> fan_run es f')"

definition entry_ok :: "fanoutResult \<Rightarrow> bool" where
  "entry_ok e \<longleftrightarrow> (f_result e = None) \<noteq> (f_error e = None)"

definition fan_inv :: "string list \<Rightarrow> fan \<Rightarrow> bool" where
  "fan_inv targets f \<longleftrightarrow>
     distinct targets \<and>
     mset (fan_todo f) + mset (map fst (fan_calls f)) + mset (map f_peer (fan_entries f)) = mset targets \<and>
     list_all entry_ok (fan_entries f)"

lemma fan_entry_facts [simp]: "f_peer (fan_entry t r) = t" "entry_ok (fan_entry t r)"
proof -
  have "toResponseError (Some e) \<noteq> None" for e by (simp add: toResponseError_def split: option.split)
  then show "f_peer (fan_entry t r) = t" "entry_ok (fan_entry t r)"
    by (auto simp: fan_entry_def entry_ok_def split: sum.split)
qed

lemma fan_inv_distinct: "fan_inv targets f \<Longrightarrow> distinct (map fst (fan_calls f))"
proof -
  assume inv: "fan_inv targets f"
  then have "mset (fan_todo f @ map fst (fan_calls f) @ map f_peer (fan_entries f)) = mset targets"
    by (simp add: fan_inv_def add.assoc)
  then have "distinct (fan_todo f @ map fst (fan_calls f) @ map f_peer (fan_entries f)) = distinct targets"
    by (rule mset_eq_imp_distinct_iff)
  with inv show ?thesis by (simp add: fan_inv_def)
qed

lemma fan_begin_inv:
  assumes "fan_inv targets f" and "fan_begin t f s = Some (f', s')"
  shows "fan_inv targets f'"
proof -
  have t: "t \<in> set (fan_todo f)" using assms(2) by (simp add: fan_begin_def split: if_splits)
  then have m: "mset (fan_todo f) = add_mset t (mset (remove1 t (fan_todo f)))" by simp
  have "fan_todo f' = remove1 t (fan_todo f) \<and>
      (\<exists>r. fan_calls f' = fan_calls f \<and> fan_entries f' = fan_entries f @ [fan_entry t r]) \<or>
      fan_todo f' = remove1 t (fan_todo f) \<and>
      (\<exists>c. fan_calls f' = fan_calls f @ [(t, c)] \<and> fan_entries f' = fan_entries f)"
    using assms(2) t by (auto simp: fan_begin_def split: prod.splits sum.splits)
  with assms(1) m show ?thesis
    unfolding fan_inv_def by (auto simp del: mset_remove1)
qed

lemma fan_end_inv:
  assumes "fan_inv targets f" and "fan_end t w f s = Some (f', s')"
  shows "fan_inv targets f'"
proof -
  from assms(2) obtain c r where c: "map_of (fan_calls f) t = Some c"
    and f': "fan_todo f' = fan_todo f" "fan_calls f' = filter (\<lambda>e. fst e \<noteq> t) (fan_calls f)"
      "fan_entries f' = fan_entries f @ [fan_entry t r]"
    by (auto simp: fan_end_def split: option.splits)
  have mem: "t \<in> set (map fst (fan_calls f))" using map_of_SomeD [OF c] by force
  have "map fst (filter (\<lambda>e. fst e \<noteq> t) es) = filter (\<lambda>x. x \<noteq> t) (map fst es)" for es :: "(string \<times> call) list"
    by (induction es) auto
  moreover have "filter (\<lambda>x. x \<noteq> t) (map fst (fan_calls f)) = remove1 t (map fst (fan_calls f))"
    using fan_inv_distinct [OF assms(1)] by (simp add: distinct_remove1_removeAll removeAll_filter_not_eq)
      (metis (mono_tags, lifting) filter_cong)
  ultimately have "mset (map fst (fan_calls f)) = add_mset t (mset (map fst (fan_calls f')))"
    using mem f'(2) by simp
  with assms(1) f'(1,3) show ?thesis
    unfolding fan_inv_def by auto
qed

lemma fan_run_inv: "fan_inv targets f \<Longrightarrow> fan_run es f = Some f' \<Longrightarrow> fan_inv targets f'"
proof (induction es f rule: fan_run.induct)
  case (2 t s es f)
  from 2(3) obtain f1 s1 where "fan_begin t f s = Some (f1, s1)" "fan_run es f1 = Some f'"
    by (auto split: option.splits)
  with 2(1) fan_begin_inv [OF 2(2)] show ?case by blast
next
  case (3 t w s es f)
  from 3(3) obtain f1 s1 where "fan_end t w f s = Some (f1, s1)" "fan_run es f1 = Some f'"
    by (auto split: option.splits)
  with 3(1) fan_end_inv [OF 3(2)] show ?case by blast
qed simp

lemma dispatchFanOut_inv:
  assumes "wf_map (s_peers s)" and "dispatchFanOut caller mname params s = Inr f"
  shows "fan_inv (snapshotPeerIDsExcluding (p_id (s_heap s caller)) s) f"
  using assms mkeys_distinct [OF assms(1)]
  by (auto simp: dispatchFanOut_def fan_inv_def snapshotPeerIDsExcluding_def Let_def split: if_splits)

text \<open>
  C23: Whatever the order in which the goroutines of a fan-out run and whatever happens to
  the server meanwhile, once all have ended there is exactly one entry for every peer that
  was connected when the fan-out began, none for the caller, and every entry has either a
  result or an error and not both.
\<close>

theorem fan_out_complete:
  assumes "wf_map (s_peers s)" and "dispatchFanOut caller mname params s = Inr f0"
    and "fan_run es f0 = Some f" and "fan_complete f"
  shows "mset (map f_peer (fan_entries f)) =
      mset (filter (\<lambda>cid. cid \<noteq> p_id (s_heap s caller)) (ClientIDs s)) \<and>
    distinct (map f_peer (fan_entries f)) \<and>
    list_all (\<lambda>e. (f_result e = None) \<noteq> (f_error e = None)) (fan_entries f)"
proof -
  have inv: "fan_inv (snapshotPeerIDsExcluding (p_id (s_heap s caller)) s) f"
    by (rule fan_run_inv [OF dispatchFanOut_inv [OF assms(1,2)] assms(3)])
  then have m: "mset (map f_peer (fan_entries f)) = mset (snapshotPeerIDsExcluding (p_id (s_heap s caller)) s)"
    and d: "distinct (snapshotPeerIDsExcluding (p_id (s_heap s caller)) s)"
    and ok: "list_all entry_ok (fan_entries f)"
    using assms(4) by (simp_all add: fan_inv_def fan_complete_def)
  from mset_eq_imp_distinct_iff [OF m] d have "distinct (map f_peer (fan_entries f))" by simp
  with m ok show ?thesis by (simp add: snapshotPeerIDsExcluding_def ClientIDs_def entry_ok_def list_all_iff)
qed

definition two_peers :: "nat server" where
  "two_peers =
     snd (accept_peer (Some ''holon-rpc'') (snd (accept_peer (Some ''holon-rpc'') (NewServer ''ws://h''))))"

lemma two_peers_map: "s_peers two_peers = [(''c1'', 0), (''c2'', 1)]"
  "p_id (s_heap two_peers 0) = ''c1''"
  by (simp_all add: two_peers_def accept_peer_def NewServer_def Let_def client_id_def queue_size_def
      itoa_def int_digits_def nat_digits.simps digit_def new_peer_def)

lemma two_peers_inv: "srv_inv two_peers"
  unfolding two_peers_def by (intro accept_inv NewServer_inv)

lemma fan_out_complete_witness:
  "\<exists>f0 f. dispatchFanOut 0 ''m'' [] two_peers = Inr f0 \<and>
     fan_run [(FanStarts ''c2'', NewServer ''ws://h'' :: nat server)] f0 = Some f \<and>
     mset (map f_peer (fan_entries f)) = {# ''c2'' #}"
proof -
  define f0 where "f0 = \<lparr>fan_method = ''m'', fan_params = [], fan_todo = [''c2''], fan_calls = [], fan_entries = []\<rparr>"
  define f where "f = f0\<lparr>fan_todo := [],
    fan_entries := [fan_entry ''c2'' (Inl (ErrText (''holon-rpc: unknown client '' @ quote_q ''c2'')))]\<rparr>"
  have d: "dispatchFanOut 0 ''m'' [] two_peers = Inr f0"
    by (simp add: dispatchFanOut_def snapshotPeerIDsExcluding_def mkeys_def two_peers_map f0_def)
  have "TrimSpace ''m'' = ''m''"
    using TrimSpace_solid(2) [of "CHR ''m''" "CHR ''m''"] by (simp add: solid_def)
  then have r: "fan_run [(FanStarts ''c2'', NewServer ''ws://h'' :: nat server)] f0 = Some f"
    by (simp add: fan_begin_def invoke_begin_def NewServer_def f0_def f_def)
  have "wf_map (s_peers two_peers)" using two_peers_inv by (simp add: srv_inv_def)
  from fan_out_complete [OF this d r] have "mset (map f_peer (fan_entries f)) = {# ''c2'' #}"
    by (simp add: fan_complete_def f_def f0_def ClientIDs_def mkeys_def two_peers_map)
  with d r show ?thesis by (intro exI [of _ f0] exI [of _ f]) simp
qed

section \<open>Frames on the wire\<close>

text \<open>One frame that reads as the message \<open>m\<close> is sent to a peer, and nothing else happens.\<close>

definition sends_message :: "nat \<Rightarrow> rpc_message \<Rightarrow> 'h server \<Rightarrow> 'h server \<Rightarrow> bool" where
  "sends_message ref m s s' \<longleftrightarrow>
     (\<exists>data. unmarshalMessage data = Some m \<and>
       s' = upd_peer ref (\<lambda>p. p\<lparr>p_sent := p_sent p @ [data]\<rparr>) s)"

definition writable :: "nat \<Rightarrow> 'h server \<Rightarrow> bool" where
  "writable ref s \<longleftrightarrow> p_ws (s_heap s ref) = None"

lemma writePeer_message:
  assumes "writable ref s" and "wire_message m" and "marshalMessage m = Inr data"
  shows "sends_message ref m s (snd (writePeer ref data s))" and "fst (writePeer ref data s) = None"
proof -
  have "unmarshalMessage data = Some m" using frame_reads [OF assms(2)] assms(3) by auto
  with assms(1) show "sends_message ref m s (snd (writePeer ref data s))" and "fst (writePeer ref data s) = None"
    by (auto simp: writePeer_def writable_def sends_message_def)
qed

lemma error_message_wire:
  assumes "wire_raw rid" and "wire_error (Some \<lparr>re_code = code, re_message = message, re_data = data\<rparr>)"
  shows "wire_message (error_message rid code message data)"
  using assms by (simp add: wire_message_def error_message_def empty_message_def)

lemma sendPeerError_message:
  assumes "writable ref s" and "wire_raw rid"
    and "wire_error (Some \<lparr>re_code = code, re_message = message, re_data = data\<rparr>)"
  shows "sends_message ref (error_message rid code message data) s (snd (sendPeerError ref rid code message data s))"
proof -
  note wire = error_message_wire [OF assms(2,3)]
  from frame_reads [OF wire] obtain frame where
    "marshalMessage (error_message rid code message data) = Inr frame" by blast
  with writePeer_message(1) [OF assms(1) wire this] show ?thesis by (simp add: sendPeerError_def)
qed

lemma wire_error_plain:
  assumes "- (2 ^ 63) \<le> code" and "code < 2 ^ 63" and "utf8_valid message"
  shows "wire_error (Some \<lparr>re_code = code, re_message = message, re_data = GNull\<rparr>)"
  using assms by (simp add: wire_error_def max_depth_def)

lemma sendPeerResult_message:
  assumes "writable ref s" and "wire_raw rid" and "wire_any (GObj ms)" and "depth (GObj ms) < max_depth"
  shows "sends_message ref (result_message rid (json_print (GObj ms))) s
    (snd (sendPeerResult ref rid (Some ms) s))"
proof -
  have "wire_raw (json_print (GObj ms))" using assms(3,4) by (intro wire_raw_print wire_any_wf)
  with assms(2) have wire: "wire_message (result_message rid (json_print (GObj ms)))"
    by (simp add: wire_message_def result_message_def empty_message_def wire_error_def)
  from frame_reads [OF wire] obtain frame where
    f: "marshalMessage (result_message rid (json_print (GObj ms))) = Inr frame" by blast
  have "marshalAnyResult (ResMap (Some ms)) = Inr (json_print (GObj ms))"
    using json_marshal_wire [OF assms(3)] by (simp add: marshalAnyResult_def del: json_print.simps)
  with writePeer_message(1) [OF assms(1) wire f] f show ?thesis
    by (simp add: sendPeerResult_def sendPeerResultAny_def del: json_print.simps)
qed

lemma utf8_valid_append: "utf8_valid s \<Longrightarrow> utf8_valid t \<Longrightarrow> utf8_valid (s @ t)"
proof (induction s rule: utf8_valid.induct)
  case (2 c s)
  let ?k = "utf8_len (c # s)"
  have k: "?k \<noteq> 0" and rest: "utf8_valid (drop ?k (c # s))"
    using 2(2) by (auto simp: Let_def split: if_splits)
  have le: "?k \<le> length (c # s)" by (rule utf8_len_le)
  have "utf8_len ((c # s) @ t) = ?k"
    using utf8_len_take [OF refl k, of "drop ?k (c # s) @ t"] le by (simp flip: append_assoc)
  moreover have "drop ?k ((c # s) @ t) = drop ?k (c # s) @ t"
    using le drop_append [of ?k "c # s" t] by simp
  moreover have "utf8_valid (drop ?k (c # s) @ t)" using 2(1) [OF refl k rest 2(3)] .
  ultimately show ?case using k by (simp add: Let_def)
qed simp

lemma quote_rune_high: "128 \<le> ord c \<Longrightarrow> quote_rune c = [c]"
  by (auto simp: quote_rune_def)

lemma quote_runes_high: "\<forall>c\<in>set s. 128 \<le> ord c \<Longrightarrow> concat (map quote_rune s) = s"
  by (induction s) (auto simp: quote_rune_high)

lemma lower_hex_ascii: "ord (lower_hex (n mod 16)) < 128"
proof -
  have "list_all (\<lambda>k. ord (lower_hex k) < 128) [0..<16]" by code_simp
  then show ?thesis by (simp add: list_all_iff)
qed

lemma quote_rune_ascii:
  assumes "ord c < 128"
  shows "utf8_valid (quote_rune c)"
proof (rule utf8_valid_ascii)
  have "ord c div 16 = ord c div 16 mod 16" using assms by simp
  then show "\<forall>d\<in>set (quote_rune c). ord d < 128"
    using assms lower_hex_ascii [of "ord c div 16"] lower_hex_ascii [of "ord c"]
    by (auto simp: quote_rune_def)
qed

lemma utf8_valid_quote_runes: "utf8_valid s \<Longrightarrow> utf8_valid (concat (map quote_rune s))"
proof (induction s rule: utf8_valid.induct)
  case (2 c s)
  let ?k = "utf8_len (c # s)"
  have k: "?k \<noteq> 0" and rest: "utf8_valid (drop ?k (c # s))"
    using 2(2) by (auto simp: Let_def split: if_splits)
  have split: "concat (map quote_rune (c # s)) =
      concat (map quote_rune (take ?k (c # s))) @ concat (map quote_rune (drop ?k (c # s)))"
    by (metis append_take_drop_id concat_append map_append)
  have "utf8_valid (concat (map quote_rune (take ?k (c # s))))"
  proof (cases "ord c < 128")
    case True
    then show ?thesis using quote_rune_ascii by simp
  next
    case False
    then have "\<forall>d\<in>set (take ?k (c # s)). 128 \<le> ord d" using utf8_len_high [OF refl k refl] by auto
    moreover have "utf8_valid (take ?k (c # s))"
    proof -
      have "utf8_len (take ?k (c # s) @ []) = ?k" by (rule utf8_len_take [OF refl k])
      moreover have "length (take ?k (c # s)) = ?k" using utf8_len_le [of "c # s"] by simp
      moreover obtain u where "take ?k (c # s) = c # u" using k by (cases ?k) auto
      ultimately show ?thesis using k by (simp add: Let_def)
    qed
    ultimately show ?thesis by (simp add: quote_runes_high)
  qed
  with 2(1) [OF refl k rest] show ?case unfolding split by (intro utf8_valid_append)
qed simp

lemma utf8_valid_quote: "utf8_valid s \<Longrightarrow> utf8_valid (quote_q s)"
  unfolding quote_q_def by (intro utf8_valid_append utf8_valid_quote_runes) auto

section \<open>Broadcasts\<close>

lemma broadcast_writes:
  assumes "distinct (map snd es)"
  shows "foldl (\<lambda>acc e. snd (writePeer (snd e) msg acc)) s es =
    s\<lparr>s_heap := (\<lambda>r. if r \<in> snd ` set es \<and> p_ws (s_heap s r) = None
                    then (s_heap s r)\<lparr>p_sent := p_sent (s_heap s r) @ [msg]\<rparr> else s_heap s r)\<rparr>"
  using assms
proof (induction es arbitrary: s)
  case (Cons e es)
  have one: "snd (writePeer (snd e) msg s) =
      s\<lparr>s_heap := (\<lambda>r. if r = snd e \<and> p_ws (s_heap s r) = None
                      then (s_heap s r)\<lparr>p_sent := p_sent (s_heap s r) @ [msg]\<rparr> else s_heap s r)\<rparr>"
    by (auto simp: writePeer_def upd_peer_def fun_eq_iff split: option.split)
  have "snd e \<notin> snd ` set es" using Cons.prems by simp
  with Cons show ?case by (auto simp: one fun_eq_iff)
qed simp

lemma peers_refs_distinct:
  assumes "srv_inv s"
  shows "distinct (map snd (s_peers s))"
proof -
  have wf: "wf_map (s_peers s)" using assms by (simp add: srv_inv_def)
  have "p_id (s_heap s (snd e)) = fst e" if "e \<in> set (s_peers s)" for e
    using assms that mget_eq_Some_mem [OF wf, of "fst e" "snd e"] by (simp add: srv_inv_def peers_ok_def)
  then have "inj_on snd (set (s_peers s))"
    by (intro inj_onI) (metis prod.expand)
  moreover have "distinct (s_peers s)" using mkeys_distinct [OF wf] by (simp add: mkeys_def distinct_map)
  ultimately show ?thesis by (simp add: distinct_map)
qed

text \<open>
  A broadcast sends one and the same frame, a notification that reads back with the
  method and the payload given, to every connected peer outside the excluded ones whose
  connection accepts it, and touches no other peer and nothing else of the server.
\<close>

lemma broadcast_reaches_others:
  assumes "srv_inv s" and "utf8_valid mname" and "wire_any (GObj payload)" and "depth (GObj payload) < max_depth"
  shows "\<exists>frame. unmarshalMessage frame = Some (notification_message mname (json_print (GObj payload))) \<and>
    broadcastNotificationMany exclude mname (Some payload) s =
      s\<lparr>s_heap := (\<lambda>ref.
          if p_ws (s_heap s ref) = None \<and>
             (\<exists>cid. cid \<notin> set exclude \<and> mget (s_peers s) cid = Some ref)
          then (s_heap s ref)\<lparr>p_sent := p_sent (s_heap s ref) @ [frame]\<rparr>
          else s_heap s ref)\<rparr>"
proof -
  have raw: "wire_raw (json_print (GObj payload))" using assms(3,4) by (intro wire_raw_print wire_any_wf)
  have wire: "wire_message (notification_message mname (json_print (GObj payload)))"
    using assms(2) raw by (simp add: wire_message_def notification_message_def empty_message_def wire_error_def)
  obtain frame where f: "marshalMessage (notification_message mname (json_print (GObj payload))) = Inr frame"
    "unmarshalMessage frame = Some (notification_message mname (json_print (GObj payload)))"
    by (rule frame_reads [OF wire])
  let ?es = "filter (\<lambda>e. fst e \<notin> set exclude) (s_peers s)"
  have "distinct (map snd ?es)" using peers_refs_distinct [OF assms(1)] by (simp add: distinct_map_filter)
  note writes = broadcast_writes [OF this, of frame s]
  have wf: "wf_map (s_peers s)" using assms(1) by (simp add: srv_inv_def)
  have mem: "ref \<in> snd ` set ?es \<longleftrightarrow> (\<exists>cid. cid \<notin> set exclude \<and> mget (s_peers s) cid = Some ref)" for ref
    using mget_eq_Some_mem [OF wf, of _ ref] by force
  have "marshalObject (Some payload) = Inr (json_print (GObj payload))"
    using json_marshal_wire [OF assms(3)] by (simp add: marshalObject_def del: json_print.simps)
  then have "broadcastNotificationMany exclude mname (Some payload) s =
      foldl (\<lambda>acc e. snd (writePeer (snd e) frame acc)) s ?es"
    by (simp add: broadcastNotificationMany_def f(1) del: json_print.simps)
  with f(2) show ?thesis unfolding writes mem by (intro exI [of _ frame]) (auto simp: fun_eq_iff)
qed

end
