(* ===== verification/ServerSpec.thy ===== *)
theory ServerSpec
  imports RoutingSpec
begin

text \<open>
  Properties of the server: \<open>Invoke\<close> from the identifier to the answer, the calls of the
  running server, the dispatch of requests, the life cycle.
\<close>

section \<open>Starting a call\<close>

lemma request_message_wire:
  assumes "utf8_valid mname" and "wire_any (GObj ps)" and "depth (GObj ps) < max_depth"
  shows "wire_message (request_message (next_key s) mname (json_print (GObj ps)))"
proof -
  have "wire_raw (json_print (GObj ps))" using assms(2,3) by (intro wire_raw_print wire_any_wf)
  moreover have "wire_raw (next_key s)" by (simp add: next_key_def server_id_utf8)
  ultimately show ?thesis
    using assms(1) by (simp add: wire_message_def request_message_def empty_message_def wire_error_def)
qed

lemma writable_registered [simp]: "writable ref (registered r key s) = writable ref s"
  by (simp add: writable_def registered_def upd_pend_def upd_peer_def)

lemma invoke_begin_sends:
  assumes "mget (s_peers s) cid = Some ref" and "TrimSpace mname \<noteq> []" and "utf8_valid mname"
    and "wire_any (GObj ps)" and "depth (GObj ps) < max_depth" and "writable ref s"
  obtains s' where "invoke_begin cid mname (Some ps) s = (Inr (new_call ref s), s')"
    and "sends_message ref (request_message (next_key s) mname (json_print (GObj ps)))
           (registered ref (next_key s) s) s'"
proof -
  let ?m = "request_message (next_key s) mname (json_print (GObj ps))"
  note wire = request_message_wire [OF assms(3-5), of s]
  obtain data where data: "marshalMessage ?m = Inr data" by (rule frame_reads [OF wire])
  have w: "writable ref (registered ref (next_key s) s)" using assms(6) by simp
  note written = writePeer_message [OF w wire data]
  have "marshalObject (Some ps) = Inr (json_print (GObj ps))"
    using json_marshal_wire [OF assms(4)] by (simp add: marshalObject_def del: json_print.simps)
  then have "invoke_send ref (next_key s) mname (Some ps) (registered ref (next_key s) s) =
      writePeer ref data (registered ref (next_key s) s)"
    by (simp add: invoke_send_def data del: json_print.simps)
  with assms(1,2) written(2) have
    "invoke_begin cid mname (Some ps) s =
      (Inr (new_call ref s), snd (writePeer ref data (registered ref (next_key s) s)))"
    by (cases "writePeer ref data (registered ref (next_key s) s)") (simp add: invoke_begin_eq)
  then show thesis using written(1) by (rule that)
qed

lemma sends_message_sends: "sends_message ref m s s' \<Longrightarrow> only_sends s s'"
  unfolding sends_message_def only_sends_def
  by (fastforce simp: upd_peer_def intro: exI [of _ "[]"])

section \<open>Invoke\<close>

lemma result_message_wire: "wire_raw rid \<Longrightarrow> wire_raw res \<Longrightarrow> wire_message (result_message rid res)"
  by (simp add: wire_message_def result_message_def empty_message_def wire_error_def)

lemma invoke_answered:
  assumes inv: "srv_inv s" and peer: "mget (s_peers s) cid = Some ref" and ok: "writable ref s"
    and mname: "TrimSpace mname \<noteq> []" "utf8_valid mname"
    and params: "wire_any (GObj ps)" "depth (GObj ps) < max_depth"
    and fresh: "mget (pd_map (peer_pend s ref)) (next_key s) = None"
    and result: "wire_any v"
    and reads: "unmarshalMessage frame = Some (result_message (next_key s) (json_print v))"
  shows "\<exists>c s1 s2 s3. invoke_begin cid mname (Some ps) s = (Inr c, s1) \<and>
    sends_message ref (request_message (next_key s) mname (json_print (GObj ps)))
      (registered ref (next_key s) s) s1 \<and>
    read_frame True frame ref s1 = (None, s2) \<and>
    invoke_end WakeResponse c s2 = Some (decodeResult (json_print v), s3) \<and>
    pd_map (peer_pend s3 ref) = pd_map (peer_pend s ref) \<and>
    (\<forall>r. writable r s3 = writable r s \<and> (r \<noteq> ref \<longrightarrow> p_sent (s_heap s3 r) = p_sent (s_heap s r)))"
proof -
  let ?key = "next_key s" and ?c = "new_call ref s"
  obtain s1 where s1: "invoke_begin cid mname (Some ps) s = (Inr ?c, s1)"
    and sent: "sends_message ref (request_message ?key mname (json_print (GObj ps))) (registered ref ?key s) s1"
    by (rule invoke_begin_sends [OF peer mname params ok])
  have pinv: "pend_inv (peer_pend s ref)" using srv_inv_tables [OF inv] by (simp add: tables_def)
  let ?m = "result_message ?key (json_print v)"
  have p1: "peer_pend s1 ref = snd (pend_register ?key (peer_pend s ref))"
    using sends_fields(2) [OF sends_message_sends [OF sent], of ref] by (simp add: registered_def peer_pend_def upd_pend_def upd_peer_def)
  obtain q where q: "mget (pd_map (peer_pend s1 ref)) ?key = Some (c_chan ?c)"
    "pend_take (c_chan ?c) (pend_deliver ?key ?m (peer_pend s1 ref)) = Some (?m, q)"
    "pd_map (pend_remove ?key q) = pd_map (peer_pend s ref)"
    using call_answered [OF pinv fresh, of ?m] by (metis p1 new_call_def call.select_convs(3))
  have key: "idKey ?key = Some ?key" by (simp add: next_key_def)
  let ?s2 = "upd_pend ref (pend_deliver ?key ?m) s1"
  have frame: "read_frame True frame ref s1 = (None, ?s2)"
    using q(1) print_nonempty [OF wire_any_wf [OF result]]
    by (simp add: read_frame_def reads result_message_def empty_message_def handlePeerResponse_def key)
  let ?s3 = "call_done ?c (upd_pend ref (\<lambda>_. q) ?s2)"
  have ends: "invoke_end WakeResponse ?c ?s2 = Some (decodeResult (json_print v), ?s3)"
  proof -
    obtain out where "decodeResult (json_print v) = Inr out"
      using decodeResult_print [OF result] by (cases v) auto
    then have "response_result ?m = decodeResult (json_print v)"
      by (simp add: response_result_def result_message_def empty_message_def)
    with q(2) show ?thesis by (simp add: invoke_end_def new_call_def)
  qed
  have "pd_map (peer_pend ?s3 ref) = pd_map (peer_pend s ref)"
    using q(3) by (simp add: call_done_def new_call_def)
  moreover have "writable r ?s3 = writable r s \<and> (r \<noteq> ref \<longrightarrow> p_sent (s_heap ?s3 r) = p_sent (s_heap s r))" for r
    using sent by (auto simp: sends_message_def writable_def call_done_def registered_def upd_pend_def upd_peer_def)
  ultimately show ?thesis using s1 sent frame ends by blast
qed

lemma two_peers_facts:
  "mget (s_peers two_peers) ''c1'' = Some 0" "writable 0 two_peers" "peer_pend two_peers 0 = pend_empty"
  "s_nextServerID two_peers = 0" "s_next_ref two_peers = 2" "\<not> p_cancelled (s_heap two_peers 0)"
  by (simp_all add: two_peers_map(1))
    (simp_all add: two_peers_def accept_peer_def NewServer_def Let_def new_peer_def queue_size_def
      writable_def peer_pend_def)

lemma method_m: "TrimSpace ''m'' = ''m''" "utf8_valid ''m''"
proof -
  show "TrimSpace ''m'' = ''m''"
    using TrimSpace_solid(2) [of "CHR ''m''" "CHR ''m''"] by (simp add: solid_def)
  show "utf8_valid ''m''" by code_simp
qed

lemma wire_empty_object: "wire_any (GObj [])" "depth (GObj []) < max_depth"
  by (simp_all add: wire_any_def max_depth_def)

text \<open>
  Whatever branch ends a waiting \<open>Invoke\<close> (the answer, the caller's context, the loss of
  the peer), its entry is removed from the table of the peer, no other entry of any peer is
  touched, and a call that was given up keeps its error: the context's own, or
  "connection closed".
\<close>

lemma invoke_end_cleans_up:
  assumes "srv_inv s" and "invoke_end w c s = Some (r, s')"
  shows "mget (pd_map (peer_pend s' ref)) key =
      (if ref = c_ref c \<and> key = c_key c then None else mget (pd_map (peer_pend s ref)) key) \<and>
    (case w of
       WakeResponse \<Rightarrow> (\<exists>resp. pd_chans (peer_pend s (c_ref c)) (c_chan c) = Some resp \<and> r = response_result resp)
     | WakeCtx e \<Rightarrow> r = Inl e
     | WakePeerGone \<Rightarrow> p_cancelled (s_heap s (c_ref c)) \<and> r = Inl ErrConnectionClosed)"
  using assms(2)
  by (auto simp: invoke_end_def call_done_def pend_remove_fields pend_take_fields
      split: wake.splits option.splits if_splits)

text \<open>
  An \<open>Invoke\<close> that fails before it waits (blank method, unknown client, parameters
  without a JSON form, a refused write) leaves no entry behind: every table of calls has the
  entries it had before.
\<close>

lemma invoke_error_leaves_nothing:
  assumes "srv_inv s" and "invoke_begin cid mname params s = (Inl e, s')"
    and "\<And>ref. mget (pd_map (peer_pend s ref)) (next_key s) = None"
  shows "pd_map (peer_pend s' ref) = pd_map (peer_pend s ref)"
  using assms(2)
proof (cases rule: invoke_begin_cases)
  case (failed r s2 e')
  have wf: "wf_map (pd_map (peer_pend s ref))"
    using srv_inv_tables [OF assms(1)] by (auto simp: tables_def intro: pend_inv_wf)
  have pend: "peer_pend s2 ref = peer_pend (registered r (next_key s) s) ref"
    by (rule sends_fields(2) [OF failed(3)])
  have reg: "peer_pend (registered r (next_key s) s) ref =
      (if ref = r then snd (pend_register (next_key s) (peer_pend s r)) else peer_pend s ref)"
    by (simp add: registered_def peer_pend_def upd_pend_def upd_peer_def)
  show ?thesis
  proof (cases "ref = r")
    case True
    have "mdel (next_key s) (mput (next_key s) (pd_next (peer_pend s ref)) (pd_map (peer_pend s ref))) =
        pd_map (peer_pend s ref)"
      using wf assms(3) by (intro wf_map_ext) (auto intro: wf_map_mdel wf_map_mput)
    with True pend reg show ?thesis
      by (simp add: failed(4) call_done_def new_call_def pend_remove_fields pend_register_fields)
  next
    case False
    with pend reg show ?thesis by (simp add: failed(4) call_done_def new_call_def)
  qed
qed auto

text \<open>
  Only the first response to a call counts. A second response with the same identifier,
  whatever it carries, and a response whose identifier no call of that peer waits for change
  nothing at all.
\<close>

lemma later_responses_ignored:
  assumes "idKey (m_id first) = idKey (m_id second)"
  shows "handlePeerResponse ref second (handlePeerResponse ref first s) = handlePeerResponse ref first s \<and>
    (idKey (m_id second) = Some key \<and> mget (pd_map (peer_pend s ref)) key = None \<longrightarrow>
       handlePeerResponse ref second s = s)"
proof -
  have offer: "pend_deliver k m' (pend_deliver k m p) = pend_deliver k m p" for k and m m' :: rpc_message and p
    by (auto simp: pend_deliver_def pend_offer_def split: option.split)
  have twice: "upd_pend ref f (upd_pend ref g s) = upd_pend ref g s"
    if "\<And>p. f (g p) = g p" for f g
    using that by (simp add: upd_pend_def upd_peer_def)
  show ?thesis
    using assms offer
    by (auto simp: handlePeerResponse_def Let_def pend_deliver_fields twice split: option.split)
qed

text \<open>
  A response that does not say JSON-RPC 2.0 ends the call it answers with the error
  "invalid response" of code -32600, whatever result or error it carries.
\<close>

lemma wrong_version_fails_call:
  assumes "srv_inv s" and "waiting s c" and "\<not> p_cancelled (s_heap s (c_ref c))"
    and "pd_chans (peer_pend s (c_ref c)) (c_chan c) = None"
    and "idKey (m_id msg) = Some (c_key c)" and "m_jsonrpc msg \<noteq> jsonRPCVersion"
  shows "\<exists>s'. invoke_end WakeResponse c (handlePeerResponse (c_ref c) msg s) =
    Some (Inl (rpc_err codeInvalidRequest ''invalid response''), s')"
proof -
  let ?m = "msg\<lparr>m_error := Some \<lparr>re_code = codeInvalidRequest, re_message = ''invalid response'', re_data = GNull\<rparr>,
      m_result := []\<rparr>"
  let ?p = "peer_pend s (c_ref c)"
  have inv: "pend_inv ?p" using srv_inv_tables [OF assms(1)] by (simp add: tables_def)
  have entry: "mget (pd_map ?p) (c_key c) = Some (c_chan c)" using assms(2,3) by (simp add: waiting_def)
  have h: "handlePeerResponse (c_ref c) msg s = upd_pend (c_ref c) (pend_deliver (c_key c) ?m) s"
    using assms(5,6) entry by (simp add: handlePeerResponse_def)
  have "pd_chans (pend_deliver (c_key c) ?m ?p) (c_chan c) = Some ?m"
    by (rule pt.reply_arrives [OF inv entry assms(4)])
  then show ?thesis
    by (simp add: h invoke_end_def pend_take_def response_result_def rpc_err_def)
qed

definition calling :: "nat server" where
  "calling = registered 0 (next_key two_peers) two_peers"

lemma calling_facts:
  "srv_inv calling" "waiting calling (new_call 0 two_peers)" "\<not> p_cancelled (s_heap calling 0)"
  "pd_chans (peer_pend calling 0) (c_chan (new_call 0 two_peers)) = None"
  "c_ref (new_call 0 two_peers) = 0" "c_key (new_call 0 two_peers) = next_key two_peers"
proof -
  show "srv_inv calling" unfolding calling_def by (rule calm_inv [OF registered_calm two_peers_inv])
  show "waiting calling (new_call 0 two_peers)"
    unfolding calling_def
    by (rule registered_waiting [OF srv_inv_tables [OF two_peers_inv]]) (simp add: two_peers_facts)
  show "\<not> p_cancelled (s_heap calling 0)"
    using two_peers_facts(6) by (simp add: calling_def registered_def upd_pend_def upd_peer_def)
  show "pd_chans (peer_pend calling 0) (c_chan (new_call 0 two_peers)) = None"
    using two_peers_facts(3)
    by (simp add: calling_def registered_def peer_pend_def upd_pend_def upd_peer_def pend_register_fields
        new_call_def pend_empty_def)
qed (simp_all add: new_call_def)

section \<open>The calls of the running server\<close>

lemma calls_ok_facts:
  assumes "calls_ok k s cs" and "(t, c) \<in> cs"
  shows "waiting s c" and "(t', c') \<in> cs \<Longrightarrow> c_key c = c_key c' \<Longrightarrow> (t, c) = (t', c')"
proof -
  show "waiting s c" using assms unfolding calls_ok_def by (metis snd_conv)
  assume "(t', c') \<in> cs" "c_key c = c_key c'"
  then show "(t, c) = (t', c')" using assms unfolding calls_ok_def by (metis snd_conv)
qed

lemma reach_calls:
  assumes "reach bindURL n w" and "n < 2 ^ 64"
  obtains k where "calls_ok k (w_srv w) (calls_of w)" and "world_inv n w"
proof -
  have "world_inv n w" by (rule srv.reachable_good [OF assms(1)]) (use assms(2) in simp)
  then show thesis using that by (auto simp: world_inv_def)
qed

text \<open>
  C7: In every state the server reaches in fewer than 2 to the 64 steps, any interleaving
  of connections, frames, requests, calls, \<open>Start\<close> and \<open>Close\<close>, two calls under way never
  share an identifier, and no call is forgotten: the table of its peer still leads its
  identifier to its channel, or the context of the peer is done and the call can return.
\<close>

theorem calls_never_lost:
  assumes "reach bindURL n w" and "n < 2 ^ 64" and "(t, c) \<in> calls_of w" and "(t', c') \<in> calls_of w"
  shows "(c_key c = c_key c' \<longleftrightarrow> t = t' \<and> c = c') \<and>
    (mget (pd_map (peer_pend (w_srv w) (c_ref c))) (c_key c) = Some (c_chan c) \<or>
     (\<exists>s'. invoke_end WakePeerGone c (w_srv w) = Some (Inl ErrConnectionClosed, s')))"
proof -
  obtain k where k: "calls_ok k (w_srv w) (calls_of w)" by (rule reach_calls [OF assms(1,2)])
  note w = calls_ok_facts(1) [OF k assms(3)] and u = calls_ok_facts(2) [OF k assms(3,4)]
  from w show ?thesis using u by (auto simp: waiting_def invoke_end_def)
qed

text \<open>A run: a client joins, the server calls it.\<close>

definition call_run :: "nat event list" where
  "call_run = [EvAccept (Some ''holon-rpc''), EvInvoke ''c1'' ''m'' (Some [])]"

definition one_peer :: "nat server" where
  "one_peer = snd (accept_peer (Some ''holon-rpc'') (NewServer ''ws://h''))"

lemma one_peer_facts:
  "s_peers one_peer = [(''c1'', 0)]" "p_id (s_heap one_peer 0) = ''c1''"
  "writable 0 one_peer" "peer_pend one_peer 0 = pend_empty" "s_next_ref one_peer = 1"
  "\<not> p_cancelled (s_heap one_peer 0)" "srv_inv one_peer"
proof -
  show "s_peers one_peer = [(''c1'', 0)]" "p_id (s_heap one_peer 0) = ''c1''"
    by (simp_all add: one_peer_def accept_peer_def NewServer_def Let_def client_id_def queue_size_def
        itoa_def int_digits_def nat_digits.simps digit_def new_peer_def)
  show "srv_inv one_peer" unfolding one_peer_def by (rule accept_inv [OF NewServer_inv])
qed (simp_all add: one_peer_def accept_peer_def NewServer_def Let_def new_peer_def queue_size_def
    writable_def peer_pend_def)

lemma call_run_reaches:
  obtains w where "run call_run (new_world ''ws://h'') = Some w"
    and "(0, new_call 0 one_peer) \<in> calls_of w" and "s_peers (w_srv w) = [(''c1'', 0)]"
proof -
  have "mget (s_peers one_peer) ''c1'' = Some 0" by (simp add: one_peer_facts)
  moreover have "TrimSpace ''m'' \<noteq> []" by (simp add: method_m)
  ultimately obtain s' where s': "invoke_begin ''c1'' ''m'' (Some []) one_peer = (Inr (new_call 0 one_peer), s')"
    using invoke_begin_sends [OF _ _ method_m(2) wire_empty_object one_peer_facts(3)] by metis
  let ?w = "with_srv (Some (ApiTask (new_call 0 one_peer)), s') (with_srv (None, one_peer) (new_world ''ws://h''))"
  show thesis
  proof (rule that)
    show "run call_run (new_world ''ws://h'') = Some ?w"
      using s' by (simp add: call_run_def new_world_def with_srv_def spawn_def one_peer_def [symmetric])
    show "(0, new_call 0 one_peer) \<in> calls_of ?w"
      by (simp add: calls_of_def with_srv_def spawn_def new_world_def)
    show "s_peers (w_srv ?w) = [(''c1'', 0)]"
      using invoke_begin_calm [OF s'] by (simp add: with_srv_def calm_def one_peer_facts)
  qed
qed

lemma calls_never_lost_witness:
  "\<exists>w :: nat world. reach ''ws://h'' 2 w \<and> (0, new_call 0 one_peer) \<in> calls_of w \<and>
    (mget (pd_map (peer_pend (w_srv w) 0)) (next_key one_peer) = Some 0 \<or>
     (\<exists>s'. invoke_end WakePeerGone (new_call 0 one_peer) (w_srv w) = Some (Inl ErrConnectionClosed, s')))"
proof -
  obtain w where w: "run call_run (new_world ''ws://h'') = Some w" "(0, new_call 0 one_peer) \<in> calls_of w"
    by (rule call_run_reaches)
  have r: "reach ''ws://h'' 2 w"
    using run_reach [OF reach_start w(1)] by (simp add: call_run_def numeral_2_eq_2)
  from calls_never_lost [OF r _ w(2) w(2)] r w(2) show ?thesis
    by (intro exI [of _ w]) (auto simp: new_call_def one_peer_facts pend_empty_def)
qed



end
