(* ===== verification/DispatchSpec.thy ===== *)
theory DispatchSpec
  imports ServerSpec
begin

text \<open>
  Properties of the dispatch of requests: a call from end to end, the refusals, the
  built-in methods, the errors of handlers, notifications, and the answers of routed
  requests.
\<close>

section \<open>Frames of results and errors\<close>

lemma result_reads:
  assumes "wire_any (GObj out)"
  shows "response_result (result_message rid (json_print (GObj out))) = Inr out"
  using decodeResult_print [OF assms]
  by (simp add: response_result_def result_message_def empty_message_def del: json_print.simps)

lemma request_reads:
  assumes "wire_raw rid" and "utf8_valid mname" and "wire_any (GObj ps)" and "depth (GObj ps) < max_depth"
  shows "wire_message (request_message rid mname (json_print (GObj ps)))"
proof -
  have "wire_raw (json_print (GObj ps))" using assms(3,4) by (intro wire_raw_print wire_any_wf)
  with assms(1,2) show ?thesis
    by (simp add: wire_message_def request_message_def empty_message_def wire_error_def)
qed

lemma no_hints:
  assumes "mget ps ''_routing'' = None" and "mget ps ''_peer'' = None"
  shows "\<not> bad_routing ps" "\<not> bad_peer ps" "hinted ps ''_routing'' = []" "hinted ps ''_peer'' = []"
    "stripped ps = ps"
proof -
  show "stripped ps = ps"
    using assms by (auto simp: stripped_def mdel_def mget_def map_of_eq_None_iff filter_id_conv image_iff)
qed (use assms in \<open>simp_all add: bad_routing_def bad_peer_def hinted_def\<close>)

text \<open>A request without hints, by a name that is not built in.\<close>

lemma plain_request:
  assumes "m_jsonrpc msg = jsonRPCVersion" and "TrimSpace (m_method msg) = m"
    and "m \<notin> {[], ''rpc.heartbeat'', ''rpc.peers''}" and "\<not> HasPrefix ''*.'' m"
    and "decodeParams (m_params msg) = Inr ps"
    and "mget ps ''_routing'' = None" and "mget ps ''_peer'' = None"
  shows "handlePeerRequest ref msg s =
    (case mget (s_handlers s) m of
       None \<Rightarrow> (None, answer_code ref (m_id msg) codeMethodNotFound (''method '' @ quote_q m @ '' not found'') s)
     | Some h \<Rightarrow> (Some (HandlerTask ref (m_id msg) h ps), s))"
proof -
  have m: "TrimSpace m = m" using assms(2) by auto
  have "fan_name m = m" using assms(4) by (simp add: fan_name_def m)
  with assms(3,4) have "parseRouteHints m ps = Inr (m, False, ps, \<lparr>targetPeerID = [], mode = []\<rparr>)"
    using parseRouteHints_eq [of m ps] by (simp add: m no_hints [OF assms(6,7)] routeModeFullBroadcast_def)
  with assms(1-5) show ?thesis
    by (simp add: handlePeerRequest_def Let_def routePeerRequest_def)
qed

section \<open>Properties\<close>

lemma request_handled:
  assumes ok: "writable ref s" and rid: "wire_raw rid" "hasID rid"
    and mname: "utf8_valid mname" "TrimSpace mname \<notin> {[], ''rpc.heartbeat'', ''rpc.peers''}"
      "\<not> HasPrefix ''*.'' (TrimSpace mname)"
    and ps: "wire_any (GObj ps)" "depth (GObj ps) < max_depth"
      "mget ps ''_routing'' = None" "mget ps ''_peer'' = None"
    and h: "mget (s_handlers s) (TrimSpace mname) = Some h"
    and reads: "unmarshalMessage frame = Some (request_message rid mname (json_print (GObj ps)))"
    and out: "wire_any (GObj out)" "depth (GObj out) < max_depth"
  shows "read_frame True frame ref s = (Some (request_message rid mname (json_print (GObj ps))), s) \<and>
    handlePeerRequest ref (request_message rid mname (json_print (GObj ps))) s = (Some (HandlerTask ref rid h ps), s) \<and>
    sends_message ref (result_message rid (json_print (GObj out))) s
      (handler_end ref rid (Inr (Some out)) s) \<and>
    response_result (result_message rid (json_print (GObj out))) = Inr out"
proof -
  let ?m = "request_message rid mname (json_print (GObj ps))"
  have "mname \<noteq> []" using mname(2) by auto
  then have "read_frame True frame ref s = (Some ?m, s)"
    by (simp add: read_frame_def reads request_message_def empty_message_def)
  moreover have "decodeParams (m_params ?m) = Inr ps"
    using decodeParams_print [OF ps(1)] by (simp add: request_message_def)
  then have "handlePeerRequest ref ?m s = (Some (HandlerTask ref rid h ps), s)"
    using plain_request [of ?m "TrimSpace mname" ps ref s] mname(2,3) ps(3,4) h
    by (simp add: request_message_def empty_message_def)
  moreover have "sends_message ref (result_message rid (json_print (GObj out))) s
      (handler_end ref rid (Inr (Some out)) s)"
    using sendPeerResult_message [OF ok rid(1) out] rid(2) by (simp add: handler_end_def del: json_print.simps)
  ultimately show ?thesis using result_reads [OF out(1)] by blast
qed

definition serving :: "nat server" where
  "serving = Register ''m'' 7 two_peers"

lemma serving_facts:
  "writable 0 serving" "mget (s_handlers serving) ''m'' = Some 7" "srv_inv serving" "s_peers serving = s_peers two_peers"
  "s_heap serving = s_heap two_peers"
proof -
  show "srv_inv serving" unfolding serving_def by (rule Register_inv [OF two_peers_inv])
  show "mget (s_handlers serving) ''m'' = Some 7"
    using two_peers_inv by (simp add: serving_def Register_def srv_inv_def)
qed (use two_peers_facts in \<open>simp_all add: serving_def Register_def writable_def\<close>)

lemma id_c1: "wire_raw (makeID ''c1'')" "hasID (makeID ''c1'')"
proof -
  have "utf8_valid ''c1''" by code_simp
  then show "wire_raw (makeID ''c1'')" by (rule wire_raw_makeID)
qed simp

text \<open>
  The refusal a request gets, if any: the table of \<open>handlePeerRequest\<close> as the protocol
  document states it, by the first rule that applies.
\<close>

definition refusal :: "nat \<Rightarrow> rpc_message \<Rightarrow> 'h server \<Rightarrow> (int \<times> string) option" where
  "refusal ref msg s =
     (let m = TrimSpace (m_method msg) in
      if m_jsonrpc msg \<noteq> jsonRPCVersion \<or> m = [] then Some (codeInvalidRequest, ''invalid request'')
      else if m = ''rpc.heartbeat'' \<or> m = ''rpc.peers'' then None
      else
        (case decodeParams (m_params msg) of
           Inl e \<Rightarrow> Some (codeInvalidParams, error_text e)
         | Inr ps \<Rightarrow>
             (case parseRouteHints m ps of
                Inl e \<Rightarrow> map_option (\<lambda>r. (re_code r, re_message r)) (toResponseError (Some e))
              | Inr (m', fanOut, ps', h) \<Rightarrow>
                  if fanOut then
                    (if snapshotPeerIDsExcluding (p_id (s_heap s ref)) s = [] then Some (5, ''no connected peers'')
                     else None)
                  else if targetPeerID h \<noteq> [] then
                    (if peerExists (targetPeerID h) s then None
                     else Some (5, ''peer '' @ quote_q (targetPeerID h) @ '' not found''))
                  else if mget (s_handlers s) m' = None then
                    Some (codeMethodNotFound, ''method '' @ quote_q m' @ '' not found'')
                  else None)))"

definition refuse :: "nat \<Rightarrow> bytes \<Rightarrow> int \<Rightarrow> string \<Rightarrow> 'h server \<Rightarrow> 'h server" where
  "refuse ref rid code message s = (if hasID rid then snd (sendPeerError ref rid code message GNull s) else s)"

lemma answer_error_refuse:
  "answer_error ref rid (rpc_err code message) s = refuse ref rid code message s"
  by (simp add: answer_error_def refuse_def sendRPCError_def toResponseError_def rpc_err_def)

lemma answer_code_refuse: "answer_code ref rid code message s = refuse ref rid code message s"
  by (simp add: answer_code_def refuse_def)

lemma refusal_refused:
  assumes "refusal ref msg s = Some (code, message)"
  shows "handlePeerRequest ref msg s = (None, refuse ref (m_id msg) code message s)"
proof (cases "m_jsonrpc msg \<noteq> jsonRPCVersion \<or> TrimSpace (m_method msg) = []")
  case True
  with assms show ?thesis
    by (auto simp: refusal_def handlePeerRequest_def Let_def answer_code_refuse)
next
  case False
  with assms have builtin: "TrimSpace (m_method msg) \<notin> {''rpc.heartbeat'', ''rpc.peers''}"
    by (auto simp: refusal_def Let_def split: if_splits)
  show ?thesis
  proof (cases "decodeParams (m_params msg)")
    case (Inl e)
    with assms False builtin show ?thesis
      by (auto simp: refusal_def handlePeerRequest_def Let_def answer_code_refuse)
  next
    case (Inr ps)
    show ?thesis
    proof (cases "parseRouteHints (TrimSpace (m_method msg)) ps")
      case l: (Inl e)
      obtain c t where e: "e = rpc_err c t" using parseRouteHints_error [OF l] by blast
      with assms False builtin Inr l show ?thesis
        by (simp add: refusal_def handlePeerRequest_def Let_def answer_error_refuse toResponseError_def)
          (simp add: rpc_err_def)
    next
      case r: (Inr q)
      obtain m' fo ps' h where q: "q = (m', fo, ps', h)" by (cases q)
      from assms False builtin Inr r q show ?thesis
        by (auto simp: refusal_def handlePeerRequest_def Let_def routePeerRequest_def dispatchFanOut_def
            answer_error_refuse answer_code_refuse split: if_splits option.splits)
    qed
  qed
qed

text \<open>
  C24: Requests that are refused. When the table \<open>refusal\<close> gives a code and a message (wrong
  version or blank method: invalid request; parameters that are not an object or bad hints:
  invalid params; a fan-out without peers or an unknown target: code 5; no handler: method
  not found), the request ends at once: a request with an identifier is answered with
  exactly one error frame that reads back with that identifier, code and message, and a
  notification with nothing.
\<close>

theorem refused_requests_answered:
  assumes "refusal ref msg s = Some (code, message)" and "writable ref s" and "wire_raw (m_id msg)"
    and "- (2 ^ 63) \<le> code" and "code < 2 ^ 63" and "utf8_valid message"
  shows "\<exists>s'. handlePeerRequest ref msg s = (None, s') \<and>
    (if hasID (m_id msg) then sends_message ref (error_message (m_id msg) code message GNull) s s' else s' = s)"
  using refusal_refused [OF assms(1)]
    sendPeerError_message [OF assms(2,3) wire_error_plain [OF assms(4-6)]]
  by (simp add: refuse_def)

definition sample_msg :: "string \<Rightarrow> rpc_message" where
  "sample_msg mname = request_message (makeID ''c1'') mname []"

lemma refused_requests_answered_witness:
  "\<exists>s'. handlePeerRequest 0 (sample_msg ''m'') two_peers = (None, s') \<and>
    sends_message 0 (error_message (makeID ''c1'') codeMethodNotFound (''method '' @ quote_q ''m'' @ '' not found'') GNull)
      two_peers s'"
proof -
  let ?msg = "sample_msg ''m''"
  let ?text = "''method '' @ quote_q ''m'' @ '' not found''"
  have fields: "m_jsonrpc ?msg = jsonRPCVersion" "m_method ?msg = ''m''" "m_params ?msg = []" "m_id ?msg = makeID ''c1''"
    by (simp_all add: sample_msg_def request_message_def empty_message_def)
  have "fan_name ''m'' = ''m''" by (simp add: fan_name_def method_m)
  then have p: "parseRouteHints ''m'' [] = Inr (''m'', False, [], \<lparr>targetPeerID = [], mode = []\<rparr>)"
    using parseRouteHints_eq [of "''m''" "[]"]
    by (simp add: method_m bad_routing_def bad_peer_def hinted_def stripped_def mdel_def routeModeFullBroadcast_def)
  have "s_handlers two_peers = []"
    by (simp add: two_peers_def accept_peer_def NewServer_def Let_def queue_size_def)
  then have r: "refusal 0 ?msg two_peers = Some (codeMethodNotFound, ?text)"
    by (simp add: refusal_def fields method_m Let_def decodeParams_def p)
  have "utf8_valid ''method ''" "utf8_valid '' not found''" by code_simp+
  then have "utf8_valid ?text" by (intro utf8_valid_append utf8_valid_quote method_m)
  then show ?thesis
    using refused_requests_answered [OF r two_peers_facts(2)] id_c1
    by (simp add: fields codeMethodNotFound_def)
qed

text \<open>
  Notifications are never answered. A message without an identifier makes
  \<open>handlePeerRequest\<close> send nothing at all, except the request of an \<open>Invoke\<close> where it is
  routed to one peer; when its handler returns, with whatever outcome, the server is
  unchanged; and when a routed call ends and no broadcast was asked for, likewise.
\<close>

lemma notifications_not_answered:
  assumes "\<not> hasID (m_id msg)" and "handlePeerRequest ref msg s = (k, s')"
    and "mode h \<noteq> routeModeBroadcastResponse" and "mode h \<noteq> routeModeFullBroadcast"
  shows "(s' = s \<or> (\<exists>target m ps. s' = snd (invoke_begin target m (Some ps) s))) \<and>
    handler_end ref (m_id msg) out s = s \<and>
    route_call_end ref (m_id msg) m h r s = s \<and> route_fan_end ref (m_id msg) m h entries s = s"
proof -
  have quiet: "answer_error ref (m_id msg) e t = t" "answer_code ref (m_id msg) c txt' t = t" for e t c txt'
    using assms(1) by (simp_all add: answer_error_def answer_code_def)
  have route: "t = s \<or> (\<exists>target m ps. t = snd (invoke_begin target m (Some ps) s))"
    if "routePeerRequest ref (m_id msg) m ps h' fo s = (o', t)" for m ps h' fo o' t
  proof -
    have "t = s \<or> t = snd (invoke_begin (targetPeerID h') m (Some ps) s)"
      using that by (auto simp: routePeerRequest_def quiet dispatchFanOut_def Let_def
          split: sum.splits prod.splits if_splits)
    then show ?thesis by blast
  qed
  have "s' = s \<or> (\<exists>target m ps. s' = snd (invoke_begin target m (Some ps) s))"
    using assms(1,2)
    by (auto simp: handlePeerRequest_def Let_def quiet split: if_splits sum.splits prod.splits
        route_outcome.splits option.splits dest: route)
  moreover have "handler_end ref (m_id msg) out s = s"
    using assms(1) by (auto simp: handler_end_def split: sum.split)
  moreover have "route_call_end ref (m_id msg) m h r s = s" "route_fan_end ref (m_id msg) m h entries s = s"
    using assms(1,3,4) by (auto simp: route_call_end_def route_fan_end_def quiet split: sum.split)
  ultimately show ?thesis by blast
qed

lemma hasID_empty [simp]: "\<not> hasID (m_id empty_message)"
  by (simp add: hasID_def empty_message_def)

section \<open>Built-in methods\<close>

lemma client_id_utf8: "utf8_valid (client_id n)"
proof -
  have "ord c < 128" if "c \<in> set (nat_digits i)" for c i
    using nat_digits_digits [OF that] by (simp add: is_digit_def)
  then have "\<forall>c\<in>set (client_id n). ord c < 128"
    by (auto simp: client_id_def itoa_def int_digits_def)
  then show ?thesis by (rule utf8_valid_ascii)
qed

definition peer_entry :: "string \<Rightarrow> gany" where
  "peer_entry cid = GObj [(''id'', GStr cid), (''methods'', GArr [])]"

lemma peers_wire:
  assumes "\<forall>cid\<in>set ids. utf8_valid cid"
  shows "wf_any (GObj [(''peers'', GArr (map peer_entry ids))])"
    and "depth (GObj [(''peers'', GArr (map peer_entry ids))]) \<le> 4"
proof -
  have names: "utf8_valid ''peers''" "utf8_valid ''methods''" by code_simp+
  have "wf_elems (map peer_entry ids)" using assms names by (induction ids) (auto simp: peer_entry_def gomap)
  then show "wf_any (GObj [(''peers'', GArr (map peer_entry ids))])" using names by (simp add: gomap)
  have "elems_depth (map peer_entry ids) \<le> 2" by (induction ids) (auto simp: peer_entry_def)
  then show "depth (GObj [(''peers'', GArr (map peer_entry ids))]) \<le> 4" by simp
qed

lemma ClientIDs_utf8:
  assumes "srv_inv s"
  shows "\<forall>cid\<in>set (ClientIDs s). utf8_valid cid"
proof
  fix cid
  assume "cid \<in> set (ClientIDs s)"
  then obtain ref where "mget (s_peers s) cid = Some ref" by (auto simp: ClientIDs_def mkeys_mget)
  with assms have "p_id (s_heap s ref) = cid" "ref < s_next_ref s" by (auto simp: srv_inv_def peers_ok_def)
  with assms have "cid = client_id (of_nat (Suc ref))" by (auto simp: srv_inv_def ids_ok_def)
  then show "utf8_valid cid" by (simp only: client_id_utf8)
qed

lemma peersResult_entries:
  assumes "srv_inv s"
  shows "peersResult s = GArr (map peer_entry (ClientIDs s))"
proof -
  have "sorted (mkeys (s_peers s))"
    using assms by (simp add: srv_inv_def wf_map_def mkeys_def strict_sorted_imp_sorted)
  then show ?thesis by (simp add: peersResult_def ClientIDs_def peer_entry_def sorted_sort_id cong: map_cong)
qed

text \<open>
  The built-in methods. Whatever the parameters and the handlers, a request for
  \<^verbatim>\<open>rpc.heartbeat\<close> is answered with one frame that decodes to the empty object, and one for
  \<^verbatim>\<open>rpc.peers\<close> with one frame that decodes to the list of exactly the connected clients in
  ascending order, each without methods.
\<close>

lemma builtin_methods_answer:
  assumes "srv_inv s" and "writable ref s" and "wire_raw (m_id msg)" and "hasID (m_id msg)"
    and "m_jsonrpc msg = jsonRPCVersion" and "TrimSpace (m_method msg) = m"
    and "m = ''rpc.heartbeat'' \<and> out = [] \<or>
         m = ''rpc.peers'' \<and> out = [(''peers'', GArr (map peer_entry (ClientIDs s)))]"
  shows "\<exists>s'. handlePeerRequest ref msg s = (None, s') \<and>
    sends_message ref (result_message (m_id msg) (json_print (GObj out))) s s' \<and>
    response_result (result_message (m_id msg) (json_print (GObj out))) = Inr out"
proof -
  have wf: "wf_any (GObj out)" and d: "depth (GObj out) \<le> 4"
    using assms(7) peers_wire [OF ClientIDs_utf8 [OF assms(1)]] by auto
  have w: "wire_any (GObj out)" and lt: "depth (GObj out) < max_depth"
    using wf d by (auto simp: wire_any_def max_depth_def)
  have "handlePeerRequest ref msg s = (None, snd (sendPeerResult ref (m_id msg) (Some out) s))"
    using assms(4-7) by (auto simp: handlePeerRequest_def Let_def peersResult_entries [OF assms(1)])
  with sendPeerResult_message [OF assms(2,3) w lt] result_reads [OF w] show ?thesis by blast
qed

section \<open>Outcomes of handlers\<close>

lemma response_error_eta [simp]:
  "\<lparr>re_code = re_code r, re_message = re_message r, re_data = re_data r\<rparr> = (r :: response_error)"
  by (cases r) simp

definition handler_error :: "gerror \<Rightarrow> response_error" where
  "handler_error e =
     (case as_rpc e of
        Some r \<Rightarrow> r
      | None \<Rightarrow> \<lparr>re_code = codeInternalError, re_message = ''internal error'', re_data = GNull\<rparr>)"

lemma handler_error_sent:
  assumes "writable ref s" and "wire_raw rid" and "hasID rid" and "wire_error (Some (handler_error e))"
    and "\<not> is_canceled e" and "\<not> is_deadline e"
  shows "sends_message ref
    (error_message rid (re_code (handler_error e)) (re_message (handler_error e)) (re_data (handler_error e)))
    s (handler_end ref rid (Inl e) s)"
proof -
  have "handler_end ref rid (Inl e) s =
      snd (sendPeerError ref rid (re_code (handler_error e)) (re_message (handler_error e)) (re_data (handler_error e)) s)"
    using assms(3,5,6) by (auto simp: handler_end_def handler_error_def split: option.split)
  moreover have "wire_error (Some \<lparr>re_code = re_code (handler_error e), re_message = re_message (handler_error e),
      re_data = re_data (handler_error e)\<rparr>)"
    using assms(4) by simp
  note sendPeerError_message [OF assms(1,2) this]
  ultimately show ?thesis by simp
qed

text \<open>
  C27: The error of a handler. A JSON-RPC error inside the handler's error, at any depth of
  wrapping, is sent to the caller with its code, message and data; any other error becomes
  "internal error" of code -32603, so that its text does not leave the server. The exception
  is an error that is, or wraps, a cancelled or expired context: then nothing is sent and a
  caller with an identifier stays without an answer.
\<close>

theorem handler_errors_answer:
  assumes "writable ref s" and "wire_raw rid" and "hasID rid" and "wire_error (Some (handler_error e))"
  shows "if is_canceled e \<or> is_deadline e then handler_end ref rid (Inl e) s = s
    else sends_message ref
      (error_message rid (re_code (handler_error e)) (re_message (handler_error e)) (re_data (handler_error e)))
      s (handler_end ref rid (Inl e) s)"
  using handler_error_sent [OF assms] by (auto simp: handler_end_def)

lemma handler_errors_answer_witness:
  "sends_message 0 (error_message (makeID ''c1'') codeInternalError ''internal error'' GNull) two_peers
     (handler_end 0 (makeID ''c1'') (Inl (ErrText ''secret'')) two_peers)"
proof -
  have "utf8_valid ''internal error''" by code_simp
  then have "wire_error (Some (handler_error (ErrText ''secret'')))"
    using wire_error_plain [of codeInternalError "''internal error''"]
    by (simp add: handler_error_def codeInternalError_def)
  from handler_errors_answer [OF two_peers_facts(2) id_c1 this] show ?thesis
    by (simp add: handler_error_def)
qed

text \<open>
  A handler that returns a nil map is answered with the result \<^verbatim>\<open>null\<close>, not with the
  empty object that the documentation of \<open>Handler\<close> names; a caller that decodes it with
  \<open>decodeResult\<close> still gets the empty object.
\<close>

lemma nil_result_sends_null:
  assumes "writable ref s" and "wire_raw rid" and "hasID rid"
  shows "sends_message ref (result_message rid ''null'') s (handler_end ref rid (Inr None) s) \<and>
    response_result (result_message rid ''null'') = Inr []"
proof -
  have wire: "wire_message (result_message rid ''null'')"
    using assms(2) by (simp add: wire_message_def result_message_def empty_message_def wire_error_def)
  obtain frame where f: "marshalMessage (result_message rid ''null'') = Inr frame" by (rule frame_reads [OF wire])
  have "sends_message ref (result_message rid ''null'') s (handler_end ref rid (Inr None) s)"
    using writePeer_message(1) [OF assms(1) wire f] assms(3) f
    by (simp add: handler_end_def sendPeerResult_def sendPeerResultAny_def marshalAnyResult_def)
  moreover have "response_result (result_message rid ''null'') = Inr []"
    using decodeResult_print [OF wire_null] by (simp add: response_result_def result_message_def empty_message_def)
  ultimately show ?thesis by blast
qed

section \<open>Routed requests\<close>

text \<open>
  A request that was routed to one peer ends with exactly one answer to the caller,
  under the caller's own identifier: the result of the peer, unchanged, or the JSON-RPC form
  of the error. (No broadcast of the result was asked for.)
\<close>

lemma routed_request_relays:
  assumes "writable caller s" and "wire_raw rid" and "hasID rid" and "mode h \<noteq> routeModeBroadcastResponse"
    and "\<And>out. r = Inr out \<Longrightarrow> wire_any (GObj out) \<and> depth (GObj out) < max_depth"
    and "\<And>e. r = Inl e \<Longrightarrow> wire_error (toResponseError (Some e))"
  shows "case r of
      Inr out \<Rightarrow> sends_message caller (result_message rid (json_print (GObj out))) s
        (route_call_end caller rid m h r s)
    | Inl e \<Rightarrow> (\<exists>re. toResponseError (Some e) = Some re \<and>
        sends_message caller (error_message rid (re_code re) (re_message re) (re_data re)) s
          (route_call_end caller rid m h r s))"
proof (cases r)
  case (Inr out)
  with sendPeerResult_message [OF assms(1,2)] assms(3-5) show ?thesis
    by (simp add: route_call_end_def del: json_print.simps depth.simps)
next
  case (Inl e)
  obtain re where re: "toResponseError (Some e) = Some re"
    by (cases "as_rpc e") (auto simp: toResponseError_def)
  have "wire_error (Some re)" using assms(6) [OF Inl] re by simp
  then have "wire_error (Some \<lparr>re_code = re_code re, re_message = re_message re, re_data = re_data re\<rparr>)" by simp
  from sendPeerError_message [OF assms(1,2) this] Inl re assms(3) show ?thesis
    by (simp add: route_call_end_def answer_error_def sendRPCError_def)
qed

end
