(* ===== verification/LifeSpec.thy ===== *)
theory LifeSpec
  imports DispatchSpec
begin

text \<open>
  Properties of the life of a server: what holds in every reachable state, the arrival and
  the departure of a client, \<open>Start\<close> and \<open>Close\<close>, and the listening sockets.
\<close>

text \<open>
  C31: In every state reached in fewer than 2 to the 64 steps: the queue of connection events
  holds at most 32, a closed server neither runs nor listens, a running one listens, the
  identifiers of the connected clients are distinct, and every connected client is a peer
  of that identifier whose context is not done and whose frames are read.
\<close>

theorem reachable_server_sound:
  assumes "reach bindURL n w" and "n < 2 ^ 64"
  shows "length (s_connectQ (w_srv w)) \<le> 32 \<and>
    (s_shut (w_srv w) \<longrightarrow> \<not> s_running (w_srv w) \<and> s_listener (w_srv w) = None) \<and>
    (s_running (w_srv w) \<longleftrightarrow> s_listener (w_srv w) \<noteq> None) \<and>
    distinct (ClientIDs (w_srv w)) \<and>
    (\<forall>cid ref. mget (s_peers (w_srv w)) cid = Some ref \<longrightarrow>
       p_id (s_heap (w_srv w) ref) = cid \<and> \<not> p_cancelled (s_heap (w_srv w) ref) \<and> reading ref (w_srv w))"
proof -
  obtain k where "calls_ok k (w_srv w) (calls_of w)" and inv: "world_inv n w"
    by (rule reach_calls [OF assms])
  from inv have s: "srv_inv (w_srv w)" by (simp add: world_inv_def)
  then have "life_ok (s_shut (w_srv w)) (s_running (w_srv w)) (s_listener (w_srv w))"
    and "wf_map (s_peers (w_srv w))" and "length (s_connectQ (w_srv w)) \<le> queue_size"
    and "peers_ok (s_peers (w_srv w)) (s_next_ref (w_srv w)) (s_heap (w_srv w))"
    by (simp_all add: srv_inv_def)
  then show ?thesis
    using mkeys_distinct [of "s_peers (w_srv w)"]
    by (auto simp: queue_size_def life_ok_def ClientIDs_def peers_ok_def reading_def)
qed

lemma reachable_server_sound_witness:
  "\<exists>w :: nat world. reach ''ws://h'' 2 w \<and> ClientIDs (w_srv w) = [''c1''] \<and>
    length (s_connectQ (w_srv w)) \<le> 32 \<and> reading 0 (w_srv w)"
proof -
  obtain w where w: "run call_run (new_world ''ws://h'') = Some w" "s_peers (w_srv w) = [(''c1'', 0)]"
    by (rule call_run_reaches)
  have r: "reach ''ws://h'' 2 w"
    using run_reach [OF reach_start w(1)] by (simp add: call_run_def numeral_2_eq_2)
  from reachable_server_sound [OF r] r w(2) show ?thesis
    by (intro exI [of _ w]) (simp add: ClientIDs_def mkeys_def)
qed

text \<open>
  A client joins. Fewer than 2 to the 64 clients have joined a server that satisfies its
  invariant: then a connection that negotiated the subprotocol gets an identifier that no
  other peer, connected or gone, has; it is added to the map without touching another entry,
  and its event is queued exactly when the queue has room.
\<close>

lemma join_gets_fresh_id:
  assumes "srv_inv s" and "s_next_ref s < 2 ^ 64 - 1"
    and "accept_peer (Some ''holon-rpc'') s = (outcome, s')"
  shows "\<exists>ref cid. outcome = PeerJoined ref \<and> cid = p_id (s_heap s' ref) \<and>
    (\<forall>r < s_next_ref s. p_id (s_heap s r) \<noteq> cid) \<and> mget (s_peers s) cid = None \<and>
    mget (s_peers s') = (mget (s_peers s))(cid := Some ref) \<and>
    s_connectQ s' = (if length (s_connectQ s) < 32 then s_connectQ s @ [cid] else s_connectQ s)"
proof -
  let ?cid = "client_id (s_nextClientID s + 1)"
  have ids: "s_nextClientID s = of_nat (s_next_ref s)"
    "\<And>r. r < s_next_ref s \<Longrightarrow> p_id (s_heap s r) = client_id (of_nat (Suc r))"
    and wf: "wf_map (s_peers s)" and peers: "peers_ok (s_peers s) (s_next_ref s) (s_heap s)"
    using assms(1) by (simp_all add: srv_inv_def ids_ok_def)
  have cid: "?cid = client_id (of_nat (Suc (s_next_ref s)))" by (simp add: ids(1) add.commute)
  have fresh: "p_id (s_heap s r) \<noteq> ?cid" if r: "r < s_next_ref s" for r
  proof
    assume "p_id (s_heap s r) = ?cid"
    then have "client_id (of_nat (Suc r)) = client_id (of_nat (Suc (s_next_ref s)))"
      using ids(2) [OF r] cid by metis
    then have "(of_nat (Suc r) :: 64 word) = of_nat (Suc (s_next_ref s))" by (rule client_id_inj)
    then have "Suc r = Suc (s_next_ref s)" using r assms(2) by (intro of_nat_word64_inj) auto
    with r show False by simp
  qed
  have "mget (s_peers s) ?cid = None"
  proof (cases "mget (s_peers s) ?cid")
    case (Some r)
    with peers have "r < s_next_ref s" "p_id (s_heap s r) = ?cid" by (auto simp: peers_ok_def)
    with fresh show ?thesis by blast
  qed
  with fresh wf assms(3) show ?thesis
    by (intro exI [of _ "s_next_ref s"] exI [of _ ?cid])
      (auto simp: accept_peer_def Let_def new_peer_def queue_size_def fun_eq_iff)
qed

text \<open>
  A client leaves. Its identifier is no longer listed and the other clients stay; every
  call that waits for it without an answer finds "unavailable" (code 14) with the text
  "holon-rpc connection closed", and a call whose answer had arrived keeps that answer.
\<close>

lemma leaving_fails_calls:
  assumes "srv_inv s" and "mget (s_peers s) cid = Some ref"
    and "mget (pd_map (peer_pend s ref)) (c_key c) = Some (c_chan c)" and "c_ref c = ref"
  shows "mget (s_peers (disconnect ref s)) = (mget (s_peers s))(cid := None) \<and>
    (\<exists>s'. invoke_end WakeResponse c (disconnect ref s) =
      Some (case pd_chans (peer_pend s ref) (c_chan c) of
              None \<Rightarrow> Inl (rpc_err codeUnavailable ''holon-rpc connection closed'')
            | Some resp \<Rightarrow> response_result resp, s'))"
proof -
  let ?m = "unavailable_message ErrConnectionClosed"
  have pinv: "pend_inv (peer_pend s ref)" using srv_inv_tables [OF assms(1)] by (simp add: tables_def)
  have "p_id (s_heap s ref) = cid" using assms(1,2) by (auto simp: srv_inv_def peers_ok_def)
  then have "mget (s_peers (disconnect ref s)) = (mget (s_peers s))(cid := None)"
    by (auto simp: disconnect_shape)
  moreover have "pd_chans (pend_fail ?m (peer_pend s ref)) (c_chan c) =
      Some (case pd_chans (peer_pend s ref) (c_chan c) of None \<Rightarrow> ?m | Some resp \<Rightarrow> resp)"
    using pt.failed_call_is_told [OF pinv assms(3)] pt.first_reply_wins(2) [OF pinv]
    by (auto split: option.split)
  moreover have "response_result ?m = Inl (rpc_err codeUnavailable ''holon-rpc connection closed'')"
    by (simp add: response_result_def unavailable_message_def rpc_err_def)
  ultimately show ?thesis
    by (auto simp: invoke_end_def pend_take_def disconnect_shape assms(4) split: option.split)
qed

section \<open>Close\<close>

lemma close_peers_ws:
  assumes "distinct (map snd es)"
  shows "p_closed (s_heap (foldl (\<lambda>acc e. close_peer (snd e) acc) s es) r) =
    p_closed (s_heap s r) @ (if r \<in> snd ` set es then [(1001, ''server shutdown'')] else [])"
  using assms
proof (induction es arbitrary: s)
  case (Cons e es)
  have "p_closed (s_heap (close_peer (snd e) s) r) =
      p_closed (s_heap s r) @ (if r = snd e then [(1001, ''server shutdown'')] else [])"
    by (simp add: close_peer_def ws_close_def failPeerPending_def cancel_peer_def upd_pend_def upd_peer_def)
  with Cons show ?case by auto
qed simp

text \<open>
  \<open>Close\<close> on an open server: afterwards no client is listed, the listener is gone, every
  client that was connected has its context done and was sent one close frame 1001 and no
  other peer was, and from then on \<open>Start\<close> fails with "server is closed" whatever the URL
  and the network do, and a second \<open>Close\<close> does nothing and reports no error.
\<close>

lemma close_is_final:
  assumes "srv_inv s" and "\<not> s_shut s" and "Close shutdown s = (e, s')"
  shows "ClientIDs s' = [] \<and> s_shut s' \<and> \<not> s_running s' \<and> s_listener s' = None \<and>
    (\<forall>ref. p_closed (s_heap s' ref) = p_closed (s_heap s ref) @
        (if ref \<in> snd ` set (s_peers s) then [(1001, ''server shutdown'')] else []) \<and>
      p_cancelled (s_heap s' ref) = (p_cancelled (s_heap s ref) \<or> ref \<in> snd ` set (s_peers s))) \<and>
    Start url_parse listen s' = (Inl err_closed, s') \<and> Close shutdown' s' = (None, s')"
proof -
  have s': "s' = foldl (\<lambda>acc e. close_peer (snd e) acc) (close_begin s) (s_peers s)"
    using assms(2,3) Close_eq [of shutdown s] by simp
  note d = close_peers_dims [of "s_peers s" "close_begin s", folded s']
  have shut: "s_shut s'" "\<not> s_running s'" "s_listener s' = None" "s_peers s' = []"
    using d by (auto simp: dims_def close_begin_def close_listener_def split: option.split)
  have "p_closed (s_heap s' ref) = p_closed (s_heap s ref) @
      (if ref \<in> snd ` set (s_peers s) then [(1001, ''server shutdown'')] else [])" for ref
    unfolding s'
    using close_peers_ws [OF peers_refs_distinct [OF assms(1)], of "close_begin s" ref]
    by (simp add: close_begin_heap)
  moreover have "p_cancelled (s_heap s' ref) = (p_cancelled (s_heap s ref) \<or> ref \<in> snd ` set (s_peers s))" for ref
    using d by (simp add: dims_def close_begin_heap)
  moreover have "Start url_parse listen s' = (Inl err_closed, s')"
    by (simp add: Start_def start_check_def shut)
  moreover have "Close shutdown' s' = (None, s')" by (simp add: Close_def shut)
  ultimately show ?thesis using shut by (simp add: ClientIDs_def mkeys_def)
qed

section \<open>Listening sockets\<close>

fun task_addrs :: "'h task \<Rightarrow> string list" where
  "task_addrs (StartTask addr path) = [addr]"
| "task_addrs _ = []"

definition next_addrs :: "'h task option \<Rightarrow> string list" where
  "next_addrs k = (case k of None \<Rightarrow> [] | Some task \<Rightarrow> task_addrs task)"

definition starting :: "(nat, 'h task) gmap \<Rightarrow> string multiset" where
  "starting m = mset (concat (map (\<lambda>e. task_addrs (snd e)) m))"

lemma starting_mdel:
  "wf_map m \<Longrightarrow> mget m t = Some task \<Longrightarrow> starting m = mset (task_addrs task) + starting (mdel t m)"
proof (induction m)
  case (Cons e m)
  obtain u x where e: "e = (u, x)" by (cases e)
  show ?case
  proof (cases "t = u")
    case True
    with Cons.prems e have "t \<notin> set (map fst m)" by (auto simp: wf_map_Cons)
    then have "mdel t m = m" by (auto simp: mdel_def filter_id_conv)
    with True e Cons.prems show ?thesis by (auto simp: starting_def mdel_def)
  next
    case False
    with Cons e show ?thesis by (auto simp: starting_def mdel_def wf_map_Cons)
  qed
qed simp

lemma starting_mput:
  "wf_map m \<Longrightarrow> starting (mput t task m) = mset (task_addrs task) + starting (mdel t m)"
proof -
  assume wf: "wf_map m"
  have "mdel t (mput t task m) = mdel t m"
    using wf by (intro wf_map_ext) (auto intro: wf_map_mdel wf_map_mput)
  with starting_mdel [of "mput t task m" t task] wf show ?thesis by (simp add: wf_map_mput)
qed

lemma starting_fresh: "mget m t = None \<Longrightarrow> starting (mdel t m) = starting m"
proof -
  assume "mget m t = None"
  then have "filter (\<lambda>p. fst p \<noteq> t) m = m"
    by (intro filter_True) (auto simp: mget_def map_of_eq_None_iff)
  then show ?thesis by (simp add: mdel_def)
qed

definition listen_inv :: "'h world \<Rightarrow> bool" where
  "listen_inv w \<longleftrightarrow>
     life_ok (s_shut (w_srv w)) (s_running (w_srv w)) (s_listener (w_srv w)) \<and>
     wf_map (w_tasks w) \<and> (\<forall>t. mget (w_tasks w) t \<noteq> None \<longrightarrow> t < w_next w) \<and>
     mset (s_open (w_srv w)) =
       (case s_listener (w_srv w) of None \<Rightarrow> {#} | Some addr \<Rightarrow> {# addr #}) + starting (w_tasks w)"

definition same_life :: "'h server \<Rightarrow> 'h server \<Rightarrow> bool" where
  "same_life s s' \<longleftrightarrow> s_shut s' = s_shut s \<and> s_running s' = s_running s \<and> s_listener s' = s_listener s \<and>
     s_open s' = s_open s"

lemma calm_life: "calm s s' \<Longrightarrow> same_life s s'"
  by (simp add: calm_def same_life_def)

lemma run_task_life:
  assumes "run_task ev task s = Some (k, s')"
  shows "(\<exists>addr path. task = StartTask addr path \<and> k = None \<and> s' = snd (start_commit addr path s)) \<or>
    task_addrs task = [] \<and> next_addrs k = [] \<and> same_life s s'"
  using assms
proof (cases rule: run_task.elims)
  case (1 ref msg s0)
  then have h: "handlePeerRequest ref msg s = (k, s')" using assms by simp
  then have "calm s s'"
    by (cases rule: handlePeerRequest_calls)
      (auto simp: sends_fields intro: calm_trans [OF invoke_begin_calm sends_fields(1)])
  moreover have "next_addrs k = []"
    using h by (auto simp: handlePeerRequest_def Let_def next_addrs_def
        split: if_splits sum.splits prod.splits route_outcome.splits option.splits)
  ultimately show ?thesis using 1 calm_life by auto
next
  case (2 addr path s0)
  with assms show ?thesis by auto
next
  case (3 w c s0)
  with assms show ?thesis by (auto simp: next_addrs_def intro: calm_life invoke_end_calm(1))
next
  case (4 w caller reqID mname hints c s0)
  with assms show ?thesis
    by (auto simp: next_addrs_def split: if_splits
        intro!: calm_life calm_trans [OF invoke_end_calm(1) sends_fields(1) [OF route_call_end_sends]])
next
  case (5 target caller reqID mname hints f s0)
  with assms show ?thesis
    by (auto simp: next_addrs_def fan_begin_def split: if_splits sum.splits prod.splits
        intro!: calm_life invoke_begin_calm)
next
  case (6 target w caller reqID mname hints f s0)
  with assms show ?thesis
    by (auto simp: next_addrs_def fan_end_def split: if_splits option.splits
        intro!: calm_life invoke_end_calm(1))
next
  case (7 caller reqID mname hints f s0)
  with assms show ?thesis
    by (auto simp: next_addrs_def split: if_splits intro!: calm_life sends_fields(1) [OF route_fan_end_sends])
next
  case (8 w ref reqID handler params s0)
  with assms show ?thesis
    by (auto simp: next_addrs_def intro!: calm_life sends_fields(1) [OF handler_end_sends])
qed simp_all

lemma listen_same:
  assumes "listen_inv w" and "same_life (w_srv w) s'" and "next_addrs k = []"
  shows "listen_inv (with_srv (k, s') w)"
proof (cases k)
  case None
  with assms show ?thesis by (simp add: listen_inv_def same_life_def with_srv_def spawn_def)
next
  case (Some task)
  have "mget (w_tasks w) (w_next w) = None" using assms(1) by (auto simp: listen_inv_def)
  with assms Some show ?thesis
    by (auto simp: listen_inv_def same_life_def with_srv_def spawn_def next_addrs_def starting_mput
        starting_fresh wf_map_mput less_Suc_eq)
qed

lemma close_peers_open:
  "s_open (foldl (\<lambda>acc e. close_peer (snd e) acc) s es) = s_open s"
  by (induction es arbitrary: s)
    (auto simp: close_peer_def ws_close_def failPeerPending_def cancel_peer_def upd_pend_def upd_peer_def)

lemma listen_task:
  assumes inv: "listen_inv w" and task: "mget (w_tasks w) t = Some task"
    and run: "run_task ev task (w_srv w) = Some (k, s')"
  shows "listen_inv (set_task t k (w\<lparr>w_srv := s'\<rparr>))"
proof -
  have wf: "wf_map (w_tasks w)" using inv by (simp add: listen_inv_def)
  note split = starting_mdel [OF wf task]
  have t: "t < w_next w" using inv task by (auto simp: listen_inv_def)
  from run_task_life [OF run] show ?thesis
  proof (elim disjE exE conjE)
    fix addr path
    assume start: "task = StartTask addr path" "k = None" "s' = snd (start_commit addr path (w_srv w))"
    have "addr \<in># mset (s_open (w_srv w))" using inv split start(1) by (simp add: listen_inv_def)
    with inv split wf start show ?thesis
      by (auto simp: listen_inv_def set_task_def start_commit_def Let_def close_listener_def life_ok_def
          wf_map_mdel split: option.splits)
  next
    assume same: "task_addrs task = []" "next_addrs k = []" "same_life (w_srv w) s'"
    with inv split wf t show ?thesis
      by (cases k) (auto simp: listen_inv_def set_task_def same_life_def next_addrs_def wf_map_mdel wf_map_mput
          starting_mput)
  qed
qed

lemma listen_happen:
  assumes inv: "listen_inv w" and ev: "happen e w = Some w'"
  shows "listen_inv w'"
proof (cases e)
  case (EvTask t te)
  with ev listen_task [OF inv] show ?thesis by (auto split: option.splits)
next
  case (EvFrame ref is_text data)
  obtain m s' where "read_frame is_text data ref (w_srv w) = (m, s')"
    by (cases "read_frame is_text data ref (w_srv w)")
  with ev EvFrame listen_same [OF inv calm_life [OF read_frame_calm(1)]] show ?thesis
    by (auto simp: next_addrs_def split: if_splits option.split)
next
  case (EvStart parsed lis)
  obtain r s' where r: "start_begin (\<lambda>_. parsed) (\<lambda>_. lis) (w_srv w) = (r, s')"
    by (cases "start_begin (\<lambda>_. parsed) (\<lambda>_. lis) (w_srv w)")
  show ?thesis
  proof (cases r)
    case (Inl x)
    then have "same_life (w_srv w) s'"
      using r by (auto simp: start_begin_def same_life_def split: sum.splits)
    with ev EvStart r Inl listen_same [OF inv, of s' None] show ?thesis by (auto simp: next_addrs_def)
  next
    case (Inr q)
    obtain addr path where q: "q = (addr, path)" by (cases q)
    then have "s' = start_listen addr (w_srv w)"
      using r Inr by (auto simp: start_begin_def split: sum.splits)
    moreover have "mget (w_tasks w) (w_next w) = None" using inv by (auto simp: listen_inv_def)
    ultimately show ?thesis
      using ev EvStart r Inr q inv
      by (auto simp: listen_inv_def with_srv_def spawn_def start_listen_def starting_mput starting_fresh
          wf_map_mput less_Suc_eq)
  qed
next
  case (EvClose shutdown)
  let ?s = "w_srv w"
  have "mset (s_open (snd (Close shutdown ?s))) = starting (w_tasks w)" if "\<not> s_shut ?s"
    using inv that
    by (auto simp: Close_eq close_peers_open close_begin_def close_listener_def listen_inv_def split: option.splits)
  moreover have "s_shut (snd (Close shutdown ?s))" "\<not> s_running (snd (Close shutdown ?s))"
    "s_listener (snd (Close shutdown ?s)) = None" if "\<not> s_shut ?s"
    using close_peers_dims [of "s_peers ?s" "close_begin ?s"] that
    by (auto simp: Close_eq dims_def close_begin_def close_listener_def split: option.split)
  ultimately show ?thesis
    using ev EvClose inv
    by (cases "s_shut ?s") (auto simp: listen_inv_def with_srv_def spawn_def Close_eq)
next
  case (EvInvoke cid mname params)
  obtain r s' where r: "invoke_begin cid mname params (w_srv w) = (r, s')"
    by (cases "invoke_begin cid mname params (w_srv w)")
  from listen_same [OF inv calm_life [OF invoke_begin_calm [OF r]]] ev EvInvoke r show ?thesis
    by (auto simp: next_addrs_def split: sum.splits)
next
  case (EvWait choice)
  then obtain r s' where "WaitForClient choice (w_srv w) = Some (r, s')" "w' = with_srv (None, s') w"
    using ev by auto
  then show ?thesis
    using listen_same [OF inv, of s' None]
    by (auto simp: WaitForClient_def same_life_def next_addrs_def split: wait_choice.splits list.splits)
qed (use ev listen_same [OF inv, of _ None] in
    \<open>auto simp: same_life_def next_addrs_def accept_peer_def Let_def disconnect_shape disconnect_def cancel_peer_def
      failPeerPending_def upd_pend_def upd_peer_def Register_def Unregister_def split: if_splits option.splits\<close>)

interpretation sockets: closed_system "new_world b" step listen_inv
proof
  show "listen_inv (new_world b)" by (simp add: listen_inv_def new_world_def NewServer_def starting_def)
  fix w w' :: "'a world"
  assume "listen_inv w" "step w w'"
  then show "listen_inv w'" by (auto intro: listen_happen)
qed

text \<open>
  C33: No listening socket leaks. In every reachable state, with any number of \<open>Start\<close> and
  \<open>Close\<close> running at once, the open TCP listeners are the one the server has recorded (if
  it runs) and one for each \<open>Start\<close> that has listened and not yet entered its second
  critical section; a closed server with no such \<open>Start\<close> has none.
\<close>

theorem no_listener_leaks:
  assumes "reach bindURL n w"
  shows "mset (s_open (w_srv w)) =
      (case s_listener (w_srv w) of None \<Rightarrow> {#} | Some addr \<Rightarrow> {# addr #}) + starting (w_tasks w) \<and>
    (s_shut (w_srv w) \<longrightarrow> mset (s_open (w_srv w)) = starting (w_tasks w))"
  using sockets.reachable_inv [OF assms] by (auto simp: listen_inv_def life_ok_def split: option.splits)

lemma no_listener_leaks_witness:
  "\<exists>w :: nat world. reach ''ws://h'' 3 w \<and> s_open (w_srv w) = []"
proof -
  let ?u = "\<lparr>u_scheme = ''ws'', u_hostname = [], u_port = [], u_path = []\<rparr>"
  let ?es = "[EvStart (Inr ?u) (Inr ''127.0.0.1:80''), EvClose None, EvTask 0 Go] :: nat event list"
  have "\<exists>w. run ?es (new_world ''ws://h'') = Some w \<and> s_shut (w_srv w) \<and> w_tasks w = []"
    by (simp add: new_world_def NewServer_def start_begin_def start_check_def start_plan_def start_listen_def
        with_srv_def spawn_def Close_def set_task_def start_commit_def close_listener_def mdel_def Let_def)
  then obtain w where w: "run ?es (new_world ''ws://h'') = Some w" "s_shut (w_srv w)" "w_tasks w = []" by blast
  have r: "reach ''ws://h'' 3 w" using run_reach [OF reach_start w(1)] by (simp add: numeral_3_eq_3)
  from no_listener_leaks [OF r] w(2,3) r show ?thesis by (auto simp: starting_def)
qed

end
