(* ===== verification/ClientInv.thy ===== *)
theory ClientInv
  imports Client LifeSpec
begin

text \<open>
  The running client: the steps of its environment, of its callers and of its reconnect
  loops, and the invariant that every reachable state satisfies.
\<close>

section \<open>Steps\<close>

text \<open>
  \<open>v_dials\<close> are the \<open>Connect\<close> calls between their check and the result of their dial, each
  with the loop of the \<open>ConnectWithReconnect\<close> it belongs to, if any; \<open>v_closes\<close> are the
  \<open>Close\<close> calls that wait; \<open>v_calls\<close> are the \<open>Invoke\<close> calls that wait. Requests and handlers
  may run at any time with any values.
\<close>

record 'h cworld =
  v_c :: "'h client"
  v_dials :: "nat option list"
  v_closes :: "(nat option \<times> nat option) list"
  v_calls :: "ccall list"

definition new_cworld :: "'h cworld" where
  "new_cworld = \<lparr>v_c = NewClient, v_dials = [], v_closes = [], v_calls = []\<rparr>"

datatype 'h cevent =
    CeConnect string
  | CeReconnect string
  | CeDialed nat "string res"
  | CeParentDone nat
  | CeLoop nat loop_event
  | CeClose
  | CeCloseEnd nat
  | CeFrame nat bool bytes
  | CeReadEnd nat
  | CeRequest nat rpc_message
  | CeHandled nat bytes "object option res"
  | CeInvoke string "object option"
  | CeInvokeEnd wake nat
  | CeRegister string 'h
  | CeUnregister string
  | CeWrite nat "gerror option"

definition with_c :: "'h client \<Rightarrow> 'h cworld \<Rightarrow> 'h cworld" where
  "with_c c w = w\<lparr>v_c := c\<rparr>"

definition drop_nth :: "nat \<Rightarrow> 'a list \<Rightarrow> 'a list" where
  "drop_nth i xs = take i xs @ drop (Suc i) xs"

text \<open>The second half of a \<open>Connect\<close>, with \<open>disableReconnect\<close> when it fails inside \<open>ConnectWithReconnect\<close>.\<close>

definition dialed_in :: "nat option \<Rightarrow> string res \<Rightarrow> 'h client \<Rightarrow> 'h client" where
  "dialed_in l dialed c =
     (case connect_dialed dialed c of
        (None, c') \<Rightarrow> c'
      | (Some e, c') \<Rightarrow> on_ref disableReconnect l c')"

fun c_happen :: "'h cevent \<Rightarrow> 'h cworld \<Rightarrow> 'h cworld option" where
  "c_happen (CeConnect url) w =
     Some (if connect_check url (v_c w) = None then w\<lparr>v_dials := v_dials w @ [None]\<rparr> else w)"
| "c_happen (CeReconnect url) w =
     (case reconnect_begin url (v_c w) of
        (Inl e, c) \<Rightarrow> Some (with_c c w)
      | (Inr l, c) \<Rightarrow>
          Some (if connect_check url c = None then (with_c c w)\<lparr>v_dials := v_dials w @ [Some l]\<rparr>
                else with_c (disableReconnect l c) w))"
| "c_happen (CeDialed i dialed) w =
     (if i < length (v_dials w) then
        Some ((with_c (dialed_in (v_dials w ! i) dialed (v_c w)) w)\<lparr>v_dials := drop_nth i (v_dials w)\<rparr>)
      else None)"
| "c_happen (CeParentDone l) w = Some (with_c (loop_cancel l (v_c w)) w)"
| "c_happen (CeLoop l ev) w =
     (if l < k_next_loop (v_c w) then
        map_option (\<lambda>c. with_c c w) (loop_step ev (l_pc (k_loops (v_c w) l)) l (v_c w))
      else None)"
| "c_happen CeClose w =
     (case client_close_begin (v_c w) of
        (None, c) \<Rightarrow> Some (with_c c w)
      | (Some q, c) \<Rightarrow> Some ((with_c c w)\<lparr>v_closes := v_closes w @ [q]\<rparr>))"
| "c_happen (CeCloseEnd i) w =
     (if i < length (v_closes w) then
        map_option (\<lambda>c. (with_c c w)\<lparr>v_closes := drop_nth i (v_closes w)\<rparr>)
          (client_close_end (v_closes w ! i) (v_c w))
      else None)"
| "c_happen (CeFrame r is_text data) w =
     (if n_reading (k_conns (v_c w) r) then Some (with_c (snd (client_read_frame is_text data r (v_c w))) w)
      else None)"
| "c_happen (CeReadEnd r) w =
     (if n_reading (k_conns (v_c w) r) then Some (with_c (read_end r (v_c w)) w) else None)"
| "c_happen (CeRequest r msg) w = Some (with_c (snd (handleRequest r msg (v_c w))) w)"
| "c_happen (CeHandled r rid out) w = Some (with_c (client_handler_end r rid out (v_c w)) w)"
| "c_happen (CeInvoke m params) w =
     (case client_invoke_begin m params (v_c w) of
        (Inl e, c) \<Rightarrow> Some (with_c c w)
      | (Inr cl, c) \<Rightarrow> Some ((with_c c w)\<lparr>v_calls := v_calls w @ [cl]\<rparr>))"
| "c_happen (CeInvokeEnd wk i) w =
     (if i < length (v_calls w) then
        map_option (\<lambda>(r, c). (with_c c w)\<lparr>v_calls := drop_nth i (v_calls w)\<rparr>)
          (client_invoke_end wk (v_calls w ! i) (v_c w))
      else None)"
| "c_happen (CeRegister m h) w = Some (with_c (client_Register m h (v_c w)) w)"
| "c_happen (CeUnregister m) w = Some (with_c (client_Unregister m (v_c w)) w)"
| "c_happen (CeWrite r e) w = Some (with_c (upd_conn r (\<lambda>n. n\<lparr>n_ws := e\<rparr>) (v_c w)) w)"

inductive c_step :: "'h cworld \<Rightarrow> 'h cworld \<Rightarrow> bool" where
  c_happens: "c_happen e w = Some w' \<Longrightarrow> c_step w w'"

inductive_cases c_stepE [elim!]: "c_step w w'"

abbreviation c_reach :: "nat \<Rightarrow> 'h cworld \<Rightarrow> bool" where
  "c_reach \<equiv> reach_in new_cworld c_step"

fun c_run :: "'h cevent list \<Rightarrow> 'h cworld \<Rightarrow> 'h cworld option" where
  "c_run [] w = Some w"
| "c_run (e # es) w = (case c_happen e w of None \<Rightarrow> None | Some w' \<Rightarrow> c_run es w')"

lemma c_run_reach: "c_reach n w \<Longrightarrow> c_run es w = Some w' \<Longrightarrow> c_reach (n + length es) w'"
proof (induction es arbitrary: n w)
  case (Cons e es)
  then obtain w1 where "c_happen e w = Some w1" "c_run es w1 = Some w'"
    by (auto split: option.splits)
  with Cons.IH [of "Suc n" w1] Cons.prems(1) show ?case by (auto intro: reach_move c_happens)
qed simp

section \<open>The invariant\<close>

definition conn_ok :: "'h client \<Rightarrow> bool" where
  "conn_ok c \<longleftrightarrow>
     (case k_ws c of
        None \<Rightarrow> k_cancel c = None \<and> k_done c = None
      | Some r \<Rightarrow> k_cancel c = Some r \<and> k_done c = Some r \<and> k_rxCtx c = Some r \<and> r < k_next_conn c \<and>
          n_reading (k_conns c r) \<and> \<not> n_rx_done (k_conns c r) \<and> n_closed (k_conns c r) = [])"

definition loops_ok :: "'h client \<Rightarrow> bool" where
  "loops_ok c \<longleftrightarrow>
     (\<forall>l \<in> set_option (k_reconnect c). l < k_next_loop c) \<and>
     (\<forall>l < k_next_loop c. k_reconnect c \<noteq> Some l \<longrightarrow> l_ctx_done (k_loops c l))"

definition fresh_conns :: "'h client \<Rightarrow> bool" where
  "fresh_conns c \<longleftrightarrow> (\<forall>r. k_next_conn c \<le> r \<longrightarrow> \<not> n_reading (k_conns c r))"

definition client_inv :: "'h client \<Rightarrow> bool" where
  "client_inv c \<longleftrightarrow>
     conn_ok c \<and> loops_ok c \<and> fresh_conns c \<and> pend_inv (k_pend c) \<and>
     (k_closed c \<longrightarrow> k_ws c = None \<and> k_reconnect c = None)"

text \<open>Operations that leave connections, loops and life in place.\<close>

definition cquiet :: "'h client \<Rightarrow> 'h client \<Rightarrow> bool" where
  "cquiet c c' \<longleftrightarrow>
     k_ws c' = k_ws c \<and> k_rxCtx c' = k_rxCtx c \<and> k_cancel c' = k_cancel c \<and> k_done c' = k_done c \<and>
     k_closed c' = k_closed c \<and> k_reconnect c' = k_reconnect c \<and> k_next_conn c' = k_next_conn c \<and>
     k_next_loop c' = k_next_loop c \<and> k_loops c' = k_loops c \<and>
     (\<forall>r. n_reading (k_conns c' r) = n_reading (k_conns c r) \<and>
          n_rx_done (k_conns c' r) = n_rx_done (k_conns c r) \<and> n_closed (k_conns c' r) = n_closed (k_conns c r)) \<and>
     (pend_inv (k_pend c) \<longrightarrow> pend_inv (k_pend c'))"

lemma cquiet_refl [simp, intro]: "cquiet c c"
  by (simp add: cquiet_def)

lemma cquiet_trans [trans]: "cquiet c d \<Longrightarrow> cquiet d e \<Longrightarrow> cquiet c e"
  by (simp add: cquiet_def)

lemma cquiet_inv: "cquiet c c' \<Longrightarrow> client_inv c \<Longrightarrow> client_inv c'"
  by (auto simp: cquiet_def client_inv_def conn_ok_def loops_ok_def fresh_conns_def split: option.splits)

lemma client_write_quiet: "cquiet c (snd (client_write r payload c))"
  by (auto simp: client_write_def cquiet_def upd_conn_def split: option.split)

lemma sendError_quiet: "cquiet c (snd (sendError r rid code message data c))"
  by (auto simp: sendError_def client_write_quiet split: sum.split)

lemma sendResult_quiet: "cquiet c (snd (sendResult r rid result c))"
  by (auto simp: sendResult_def client_write_quiet sendError_quiet split: sum.split)

lemma client_answer_quiet: "cquiet c (client_answer r rid code message c)"
  by (simp add: client_answer_def sendError_quiet)

lemma handleRequest_quiet: "cquiet c (snd (handleRequest r msg c))"
  by (simp add: handleRequest_def Let_def client_answer_quiet sendResult_quiet sendError_quiet
      split: sum.split option.split)

lemma client_handler_end_quiet: "cquiet c (client_handler_end r rid out c)"
  by (simp add: client_handler_end_def sendResult_quiet sendError_quiet split: sum.split option.split)

lemma upd_pending_quiet: "(pend_inv (k_pend c) \<Longrightarrow> pend_inv (f (k_pend c))) \<Longrightarrow> cquiet c (upd_pending f c)"
  by (simp add: cquiet_def upd_pending_def)

lemma handleResponse_quiet: "cquiet c (handleResponse msg c)"
  by (auto simp: handleResponse_def Let_def pend_deliver_inv split: option.split intro!: upd_pending_quiet)

lemma client_read_frame_quiet: "cquiet c (snd (client_read_frame is_text data r c))"
  by (simp add: client_read_frame_def Let_def sendError_quiet handleResponse_quiet split: option.split)

lemma ccall_done_quiet: "cquiet c (ccall_done cl c)"
  unfolding ccall_done_def by (rule upd_pending_quiet) (rule pend_remove_inv)

lemma client_send_quiet: "cquiet c (snd (client_send ws idRaw m params c))"
  by (auto simp: client_send_def client_write_quiet split: sum.split)

lemma client_invoke_end_quiet:
  assumes "client_invoke_end w cl c = Some (r, c')"
  shows "cquiet c c'"
proof -
  have "cquiet c (ccall_done cl (upd_pending (\<lambda>_. pd) c))"
    if "pend_take (cc_chan cl) (k_pend c) = Some (resp, pd)" for resp pd
    using upd_pending_quiet [of c "\<lambda>_. pd"] pend_take_inv [OF _ that] ccall_done_quiet cquiet_trans by blast
  with assms ccall_done_quiet show ?thesis
    by (auto simp: client_invoke_end_def split: wake.splits option.splits if_splits)
qed

definition c_registered :: "bytes \<Rightarrow> 'h client \<Rightarrow> 'h client" where
  "c_registered key c =
     upd_pending (\<lambda>p. snd (pend_register key p)) (c\<lparr>k_nextClientID := k_nextClientID c + 1\<rparr>)"

definition c_next_key :: "'h client \<Rightarrow> bytes" where
  "c_next_key c = makeID (client_id (k_nextClientID c + 1))"

definition c_new_call :: "nat \<Rightarrow> 'h client \<Rightarrow> ccall" where
  "c_new_call rx c = \<lparr>cc_key = c_next_key c, cc_chan = pd_next (k_pend c), cc_rx = rx\<rparr>"

lemma client_invoke_begin_eq:
  "client_invoke_begin m params c =
     (if TrimSpace m = [] then (Inl (ErrText ''holon-rpc: method is required''), c)
      else
        (case currentConn c of
           Inl e \<Rightarrow> (Inl e, c)
         | Inr (ws, rx) \<Rightarrow>
             (case client_send ws (c_next_key c) m params (c_registered (c_next_key c) c) of
                (Some e, c2) \<Rightarrow> (Inl e, ccall_done (c_new_call rx c) c2)
              | (None, c2) \<Rightarrow> (Inr (c_new_call rx c), c2))))"
  unfolding client_invoke_begin_def c_next_key_def c_new_call_def c_registered_def
  by (simp add: Let_def pend_register_fields split: sum.split prod.split option.split)

lemma c_registered_quiet: "cquiet c (c_registered key c)"
  by (simp add: c_registered_def cquiet_def upd_pending_def pend_register_inv)

lemma client_invoke_begin_quiet: "cquiet c (snd (client_invoke_begin m params c))"
proof -
  have sent: "cquiet c c2" if "client_send ws key m params (c_registered key c) = (e, c2)" for ws key e c2
    using cquiet_trans [OF c_registered_quiet client_send_quiet [of _ ws key m params], of c key] that by simp
  then show ?thesis
    by (auto simp: client_invoke_begin_eq split: sum.split prod.split option.split
        intro: cquiet_trans [OF sent ccall_done_quiet])
qed

lemma register_quiet: "cquiet c (client_Register m h c)" "cquiet c (client_Unregister m c)"
  "cquiet c (upd_conn r (\<lambda>n. n\<lparr>n_ws := e\<rparr>) c)"
  by (simp_all add: cquiet_def client_Register_def client_Unregister_def upd_conn_def)

lemmas quiets = handleRequest_quiet client_handler_end_quiet client_read_frame_quiet
  client_invoke_begin_quiet register_quiet

section \<open>The invariant is kept\<close>

lemma fail_quiet: "cquiet c (failAllPending e c)"
  unfolding failAllPending_def by (rule upd_pending_quiet) (rule pend_fail_inv)

lemmas client_inv_defs = client_inv_def conn_ok_def loops_ok_def fresh_conns_def

lemma upd_loop_inv:
  "client_inv c \<Longrightarrow> (\<And>p. l_ctx_done p \<Longrightarrow> l_ctx_done (f p)) \<Longrightarrow> client_inv (upd_loop l f c)"
  by (auto simp: client_inv_defs upd_loop_def split: option.splits)

lemma loop_marks_inv:
  assumes "client_inv c"
  shows "client_inv (loop_cancel l c)" "client_inv (loop_goto l pc c)"
    "client_inv (upd_loop l (\<lambda>p. p\<lparr>l_wake := b\<rparr>) c)"
  using assms by (auto simp: loop_cancel_def loop_goto_def intro: upd_loop_inv)

lemma upd_conn_inv:
  "client_inv c \<Longrightarrow> k_ws c \<noteq> Some r \<Longrightarrow> (\<And>n. n_reading (f n) \<Longrightarrow> n_reading n) \<Longrightarrow> client_inv (upd_conn r f c)"
  by (auto simp: client_inv_defs upd_conn_def split: option.splits)

lemma conn_marks_inv:
  assumes "client_inv c" "k_ws c \<noteq> Some r"
  shows "client_inv (conn_close r code reason c)" "client_inv (rx_cancel r c)"
  using assms by (auto simp: conn_close_def rx_cancel_def intro: upd_conn_inv)

lemma conn_marks_fields [simp]:
  "k_ws (conn_close r code reason c) = k_ws c" "k_ws (rx_cancel r c) = k_ws c"
  "k_closed (conn_close r code reason c) = k_closed c" "k_closed (rx_cancel r c) = k_closed c"
  by (simp_all add: conn_close_def rx_cancel_def upd_conn_def)

text \<open>A connection that a dial has just made.\<close>

definition fresh_conn :: "nat \<Rightarrow> 'h client \<Rightarrow> bool" where
  "fresh_conn r c \<longleftrightarrow> r < k_next_conn c \<and> k_ws c \<noteq> Some r \<and> k_conns c r = new_conn"

lemma open_conn_inv:
  assumes "client_inv c" "open_conn c = (r, c1)"
  shows "client_inv c1" "fresh_conn r c1" "k_closed c1 = k_closed c" "k_ws c1 = k_ws c"
    "k_reconnect c1 = k_reconnect c" "k_loops c1 = k_loops c" "k_next_loop c1 = k_next_loop c"
  using assms by (auto simp: open_conn_def Let_def client_inv_defs fresh_conn_def new_conn_def split: option.splits)

lemma install_inv: "client_inv c \<Longrightarrow> fresh_conn r c \<Longrightarrow> \<not> k_closed c \<Longrightarrow> client_inv (install r c)"
  by (auto simp: install_def upd_conn_def client_inv_defs fresh_conn_def new_conn_def)

lemma connect_dialed_inv:
  assumes "client_inv c" "connect_dialed dialed c = (e, c')"
  shows "client_inv c'"
proof (cases dialed)
  case (Inr sub)
  obtain r c1 where o: "open_conn c = (r, c1)" by force
  note new = open_conn_inv [OF assms(1) o]
  from assms(2) Inr o have "c' \<in> {conn_close r 1002 ''missing holon-rpc subprotocol'' c1,
       conn_close r 1000 ''client closed'' (rx_cancel r c1)} \<or> \<not> k_closed c1 \<and> c' = install r c1"
    by (auto simp: connect_dialed_def split: if_splits)
  with new show ?thesis
    by (auto simp: conn_marks_inv install_inv fresh_conn_def)
qed (use assms in \<open>auto simp: connect_dialed_def\<close>)

lemma reconnect_begin_inv:
  "client_inv c \<Longrightarrow> reconnect_begin url c = (q, c') \<Longrightarrow> client_inv c'"
  by (auto simp: reconnect_begin_def Let_def client_inv_defs split: if_splits option.splits)

lemma disableReconnect_inv: "client_inv c \<Longrightarrow> client_inv (disableReconnect l c)"
  by (auto simp: disableReconnect_def loop_cancel_def upd_loop_def client_inv_defs split: option.splits)

lemma client_close_begin_inv: "client_inv c \<Longrightarrow> client_inv (snd (client_close_begin c))"
  by (auto simp: client_close_begin_def Let_def on_ref_def rx_cancel_def loop_cancel_def conn_close_def
      upd_conn_def upd_loop_def client_inv_defs split: option.splits)

text \<open>\<open>onDisconnect\<close> of the current connection, before it tells the calls and wakes the loop.\<close>

definition cut_off :: "nat \<Rightarrow> 'h client \<Rightarrow> 'h client" where
  "cut_off r c =
     failAllPending ErrConnectionClosed
       (rx_cancel r (c\<lparr>k_ws := None, k_cancel := None, k_rxCtx := None, k_done := None\<rparr>))"

lemma cut_off_inv: "client_inv c \<Longrightarrow> k_ws c = Some r \<Longrightarrow> client_inv (cut_off r c)"
  unfolding cut_off_def
  by (rule cquiet_inv [OF fail_quiet]) (auto simp: rx_cancel_def upd_conn_def client_inv_defs)

lemma onDisconnect_eq:
  assumes "client_inv c"
  shows "onDisconnect r c =
    (if k_ws c \<noteq> Some r then c
     else on_ref (\<lambda>l. upd_loop l (\<lambda>p. p\<lparr>l_wake := True\<rparr>)) (k_reconnect c) (cut_off r c))"
proof (cases "k_ws c = Some r")
  case True
  with assms have "k_cancel c = Some r" "\<not> k_closed c" by (auto simp: client_inv_def conn_ok_def)
  with True show ?thesis by (simp add: onDisconnect_def Let_def on_ref_def cut_off_def)
qed (simp add: onDisconnect_def)

lemma onDisconnect_inv: "client_inv c \<Longrightarrow> client_inv (onDisconnect r c)"
  by (auto simp: onDisconnect_eq on_ref_def loop_marks_inv cut_off_inv split: option.split)

lemma cut_off_fields [simp]:
  "k_ws (cut_off r c) = None" "k_closed (cut_off r c) = k_closed c"
  "k_reconnect (cut_off r c) = k_reconnect c" "k_loops (cut_off r c) = k_loops c"
  "k_next_loop (cut_off r c) = k_next_loop c" "k_handlers (cut_off r c) = k_handlers c"
  by (simp_all add: cut_off_def failAllPending_def upd_pending_def rx_cancel_def upd_conn_def)

lemma loop_fields [simp]:
  "k_ws (upd_loop l f c) = k_ws c" "k_closed (upd_loop l f c) = k_closed c"
  "k_reconnect (upd_loop l f c) = k_reconnect c" "k_next_loop (upd_loop l f c) = k_next_loop c"
  "k_loops (upd_loop l f c) = (k_loops c)(l := f (k_loops c l))" "k_pend (upd_loop l f c) = k_pend c"
  by (simp_all add: upd_loop_def)

lemma onDisconnect_gone: "client_inv c \<Longrightarrow> k_ws (onDisconnect r c) \<noteq> Some r"
  by (auto simp: onDisconnect_eq on_ref_def split: option.split)

lemma read_end_inv: "client_inv c \<Longrightarrow> client_inv (read_end r c)"
  unfolding read_end_def by (rule upd_conn_inv) (auto simp: onDisconnect_gone onDisconnect_inv)

lemma loop_dialed_inv: "client_inv c \<Longrightarrow> fresh_conn r c \<Longrightarrow> client_inv (loop_dialed l attempt r c)"
  by (auto simp: loop_dialed_def loop_marks_inv conn_marks_inv install_inv fresh_conn_def)

lemma loop_step_inv:
  assumes "client_inv c" "loop_step ev pc l c = Some c'"
  shows "client_inv c'"
proof (cases "(ev, pc, l, c)" rule: loop_step.cases)
  case (4 dialed attempt url l' c0)
  obtain r c1 where o: "open_conn c = (r, c1)" by force
  note new = open_conn_inv [OF assms(1) o]
  then have "k_ws c \<noteq> Some r" by (simp add: fresh_conn_def)
  with assms 4 o new show ?thesis
    by (auto simp: loop_marks_inv conn_marks_inv loop_dialed_inv split: sum.splits if_splits)
qed (use assms in \<open>auto simp: loop_marks_inv split: if_splits\<close>)

section \<open>Reconnecting\<close>

text \<open>
  The loop of a client that reconnects, as long as its context is not done: it has not ended,
  and without a connection it is at work or has been woken, unless the first dial of its
  \<open>ConnectWithReconnect\<close> is still under way (\<open>D\<close> are the dials of the callers).
\<close>

definition awake :: "rloop \<Rightarrow> bool" where
  "awake p \<longleftrightarrow> l_wake p \<or> l_pc p \<noteq> LoopWaits"

definition redials :: "nat option list \<Rightarrow> 'h client \<Rightarrow> bool" where
  "redials D c \<longleftrightarrow>
     (\<forall>l \<in> set_option (k_reconnect c). \<not> l_ctx_done (k_loops c l) \<longrightarrow>
        l_pc (k_loops c l) \<noteq> LoopEnded \<and>
        (k_ws c = None \<and> Some l \<notin> set D \<longrightarrow> awake (k_loops c l)))"

lemma conn_marks_loops [simp]:
  "k_reconnect (conn_close r code reason c) = k_reconnect c" "k_reconnect (rx_cancel r c) = k_reconnect c"
  "k_loops (conn_close r code reason c) = k_loops c" "k_loops (rx_cancel r c) = k_loops c"
  by (simp_all add: conn_close_def rx_cancel_def upd_conn_def)

lemma cquiet_redials: "cquiet c c' \<Longrightarrow> redials D c \<Longrightarrow> redials D c'"
  by (simp add: cquiet_def redials_def)

lemma conn_marks_redials [simp]:
  "redials D (conn_close r code reason c) = redials D c" "redials D (rx_cancel r c) = redials D c"
  by (simp_all add: conn_close_def rx_cancel_def redials_def upd_conn_def)

lemma install_redials: "redials D c \<Longrightarrow> redials D' (install r c)"
  by (simp add: install_def redials_def upd_conn_def)

lemma open_conn_redials: "open_conn c = (r, c1) \<Longrightarrow> redials D c1 = redials D c"
  by (auto simp: open_conn_def Let_def redials_def)

lemma disableReconnect_redials: "redials D c \<Longrightarrow> redials D (disableReconnect l c)"
  by (simp add: redials_def disableReconnect_def loop_cancel_def)

lemma disableReconnect_off: "k_reconnect (disableReconnect l c) \<noteq> Some l"
  by (simp add: disableReconnect_def loop_cancel_def)

lemma onDisconnect_redials: "client_inv c \<Longrightarrow> redials D c \<Longrightarrow> redials D (onDisconnect r c)"
  by (auto simp: onDisconnect_eq redials_def awake_def on_ref_def split: option.split)

lemma read_end_redials: "client_inv c \<Longrightarrow> redials D c \<Longrightarrow> redials D (read_end r c)"
  using onDisconnect_redials [of c D r] by (simp add: read_end_def redials_def upd_conn_def)

lemma client_close_redials: "redials D c \<Longrightarrow> redials D (snd (client_close_begin c))"
  by (simp add: client_close_begin_def Let_def on_ref_def loop_cancel_def redials_def
      split: option.split)

lemma reconnect_begin_redials:
  "redials D c \<Longrightarrow> reconnect_begin url c = (Inr l, c') \<Longrightarrow> redials (D @ [Some l]) c'"
  by (auto simp: reconnect_begin_def Let_def redials_def new_loop_def split: if_splits)

lemma set_drop_nth:
  assumes "i < length xs" "x \<in> set xs" "x \<noteq> xs ! i"
  shows "x \<in> set (drop_nth i xs)"
proof -
  from assms(2) id_take_nth_drop [OF assms(1)]
  have "x \<in> set (take i xs @ xs ! i # drop (Suc i) xs)" by simp
  with assms(3) show ?thesis by (simp add: drop_nth_def)
qed

lemma drop_redials:
  "redials D c \<Longrightarrow> i < length D \<Longrightarrow> D ! i \<noteq> None \<longrightarrow> k_reconnect c \<noteq> D ! i \<Longrightarrow> redials (drop_nth i D) c"
  unfolding redials_def by (metis elem_set set_drop_nth option.distinct(1))

lemma connect_dialed_redials:
  assumes "redials D c" "connect_dialed dialed c = (e, c')"
  shows "redials D c'" "e = None \<Longrightarrow> redials D' c'"
proof -
  obtain r c1 where o: "open_conn c = (r, c1)" by force
  note new = open_conn_redials [OF o]
  show "redials D c'" "e = None \<Longrightarrow> redials D' c'"
    using assms o by (auto simp: connect_dialed_def new install_redials split: sum.splits if_splits)
qed

lemma dialed_redials:
  assumes "redials D c" "i < length D"
  shows "redials (drop_nth i D) (dialed_in (D ! i) dialed c)"
proof -
  obtain e c' where c: "connect_dialed dialed c = (e, c')" by force
  note d = connect_dialed_redials [OF assms(1) c]
  show ?thesis
  proof (cases e)
    case None
    with c d(2) show ?thesis by (simp add: dialed_in_def)
  next
    case (Some err)
    have "redials (drop_nth i D) (on_ref disableReconnect (D ! i) c')"
      by (rule drop_redials [OF _ assms(2)])
        (auto simp: on_ref_def disableReconnect_redials disableReconnect_off d(1) split: option.splits)
    with c Some show ?thesis by (simp add: dialed_in_def)
  qed
qed

lemma goto_redials:
  "redials D c \<Longrightarrow> pc \<noteq> LoopWaits \<and> pc \<noteq> LoopEnded \<or> pc = LoopWaits \<and> k_ws c \<noteq> None \<or>
     k_closed c \<and> client_inv c \<or> l_ctx_done (k_loops c l) \<Longrightarrow> redials D (loop_goto l pc c)"
  by (auto simp: redials_def loop_goto_def awake_def client_inv_def)

lemma loop_step_redials:
  assumes "client_inv c" "redials D c" "loop_step ev (l_pc (k_loops c l)) l c = Some c'"
  shows "redials D c'"
proof (cases "(ev, l_pc (k_loops c l), l, c)" rule: loop_step.cases)
  case (2 l' c0)
  with assms show ?thesis
    by (auto simp: redials_def loop_goto_def awake_def split: if_splits)
next
  case (4 dialed attempt url l' c0)
  obtain r c1 where o: "open_conn c0 = (r, c1)" by force
  from assms 4 have c0: "client_inv c0" "redials D c0" by simp_all
  note new = open_conn_inv [OF c0(1) o] open_conn_redials [OF o]
  have "redials D (loop_dialed l' attempt r c1)"
    using c0 new
    by (auto simp: loop_dialed_def intro!: goto_redials conn_marks_inv install_redials simp: fresh_conn_def)
  with assms(3) 4 o c0 new(8) show ?thesis
    by (auto intro!: goto_redials split: sum.splits if_splits)
qed (use assms in \<open>auto simp: Connected_def intro!: goto_redials split: if_splits\<close>)

section \<open>Every reachable state\<close>

text \<open>The part of the invariant that holds however long the client runs.\<close>

definition cworld_inv :: "'h cworld \<Rightarrow> bool" where
  "cworld_inv w \<longleftrightarrow> client_inv (v_c w) \<and> redials (v_dials w) (v_c w)"

lemma NewClient_inv: "client_inv NewClient"
  by (simp add: client_inv_defs NewClient_def new_conn_def)

lemma c_quiet_keeps: "cquiet (v_c w) c \<Longrightarrow> cworld_inv w \<Longrightarrow> v_c w' = c \<Longrightarrow> v_dials w' = v_dials w \<Longrightarrow> cworld_inv w'"
  by (simp add: cworld_inv_def cquiet_inv cquiet_redials)

lemma dialed_in_inv: "client_inv c \<Longrightarrow> client_inv (dialed_in l dialed c)"
  using connect_dialed_inv [of c dialed]
  by (auto simp: dialed_in_def on_ref_def disableReconnect_inv split: prod.split option.split)

lemma redials_more: "redials D c \<Longrightarrow> set D \<subseteq> set D' \<Longrightarrow> redials D' c"
  unfolding redials_def by blast

lemma reconnect_begin_fails: "reconnect_begin url c = (Inl e, c') \<Longrightarrow> c' = c"
  by (auto simp: reconnect_begin_def Let_def split: if_splits)

lemma reconnect_begin_check: "reconnect_begin url c = (Inr l, c') \<Longrightarrow> connect_check url c' = None"
  by (auto simp: reconnect_begin_def connect_check_def Let_def split: if_splits)

lemma loop_cancel_redials: "redials D c \<Longrightarrow> redials D (loop_cancel l c)"
  by (simp add: redials_def loop_cancel_def)

lemma client_close_end_eq:
  "client_close_end q c = Some c' \<Longrightarrow> c' = failAllPending ErrConnectionClosed c"
  by (auto simp: client_close_end_def split: if_splits)

lemma c_happen_inv:
  assumes "cworld_inv w" "c_happen e w = Some w'"
  shows "cworld_inv w'"
proof -
  have inv: "client_inv (v_c w)" and re: "redials (v_dials w) (v_c w)"
    using assms(1) by (simp_all add: cworld_inv_def)
  note keep = c_quiet_keeps [OF _ assms(1)]
  show ?thesis
  proof (cases e)
    case (CeConnect url)
    with assms(2) inv re redials_more [OF re, of "v_dials w @ [None]"] show ?thesis
      by (auto simp: cworld_inv_def subset_insertI split: if_splits)
  next
    case (CeReconnect url)
    obtain q c where q: "reconnect_begin url (v_c w) = (q, c)" by force
    with reconnect_begin_inv [OF inv] have c: "client_inv c" by blast
    show ?thesis
    proof (cases q)
      case (Inl err)
      with q have "c = v_c w" using reconnect_begin_fails by blast
      with CeReconnect assms q Inl show ?thesis by (auto simp: with_c_def)
    next
      case (Inr l)
      with q have "connect_check url c = None" "redials (v_dials w @ [Some l]) c"
        using reconnect_begin_check reconnect_begin_redials [OF re] by blast+
      with CeReconnect assms(2) q Inr c show ?thesis by (auto simp: cworld_inv_def with_c_def)
    qed
  next
    case (CeDialed i dialed)
    with assms(2) inv re dialed_redials [OF re] show ?thesis
      by (auto simp: cworld_inv_def with_c_def dialed_in_inv split: if_splits)
  next
    case (CeParentDone l)
    with assms(2) inv re show ?thesis
      by (auto simp: cworld_inv_def with_c_def loop_marks_inv loop_cancel_redials)
  next
    case (CeLoop l ev)
    with assms(2) loop_step_inv [OF inv] loop_step_redials [OF inv re] show ?thesis
      by (auto simp: cworld_inv_def with_c_def split: if_splits)
  next
    case CeClose
    obtain q c where q: "client_close_begin (v_c w) = (q, c)" by force
    with client_close_begin_inv [OF inv] client_close_redials [OF re] have "client_inv c" "redials (v_dials w) c"
      by auto
    with CeClose assms(2) q show ?thesis by (auto simp: cworld_inv_def with_c_def split: option.splits)
  next
    case (CeCloseEnd i)
    with assms(2) show ?thesis
      by (auto simp: with_c_def split: if_splits dest!: client_close_end_eq intro!: keep [OF fail_quiet])
  next
    case (CeReadEnd r)
    with assms(2) inv re show ?thesis
      by (auto simp: cworld_inv_def with_c_def read_end_inv read_end_redials split: if_splits)
  next
    case (CeInvoke m params)
    obtain r c where r: "client_invoke_begin m params (v_c w) = (r, c)" by force
    with client_invoke_begin_quiet [of "v_c w" m params] have "cquiet (v_c w) c" by simp
    with CeInvoke assms(2) r show ?thesis
      by (auto simp: with_c_def split: sum.splits intro: keep)
  next
    case (CeInvokeEnd wk i)
    with assms(2) show ?thesis
      by (auto simp: with_c_def split: if_splits dest!: client_invoke_end_quiet intro: keep)
  qed (use assms in \<open>auto simp: with_c_def split: if_splits intro: keep [OF quiets(1)] keep [OF quiets(2)]
      keep [OF quiets(3)] keep [OF register_quiet(1)] keep [OF register_quiet(2)] keep [OF register_quiet(3)]\<close>)
qed

interpretation cl: closed_system new_cworld c_step cworld_inv
proof
  have "redials [] NewClient" by (simp add: redials_def NewClient_def)
  then show "cworld_inv new_cworld" by (simp add: cworld_inv_def new_cworld_def NewClient_inv)
  fix w w' :: "'a cworld"
  assume "cworld_inv w" "c_step w w'"
  then show "cworld_inv w'" by (auto intro: c_happen_inv)
qed

end
