(* ===== verification/ClientCalls.thy ===== *)
theory ClientCalls
  imports ClientInv
begin

text \<open>
  The calls of the running client: in every state reached in fewer than 2 to the 64 steps
  each waiting \<open>Invoke\<close> has an identifier and a channel of its own, and either the table
  still leads its identifier to its channel or the channel holds its answer.
\<close>

section \<open>What operations do to waiting calls\<close>

definition client_waiting :: "'h client \<Rightarrow> ccall \<Rightarrow> bool" where
  "client_waiting c cl \<longleftrightarrow>
     cc_chan cl < pd_next (k_pend c) \<and>
     (mget (pd_map (k_pend c)) (cc_key cl) = Some (cc_chan cl) \<or> pd_chans (k_pend c) (cc_chan cl) \<noteq> None)"

text \<open>Operations that keep every call waiting or answered, and the counter.\<close>

definition ckeeps :: "'h client \<Rightarrow> 'h client \<Rightarrow> bool" where
  "ckeeps c c' \<longleftrightarrow> k_nextClientID c' = k_nextClientID c \<and> (\<forall>cl. client_waiting c cl \<longrightarrow> client_waiting c' cl)"

lemma ckeeps_trans [trans]: "ckeeps c d \<Longrightarrow> ckeeps d e \<Longrightarrow> ckeeps c e"
  by (simp add: ckeeps_def)

definition same_calls :: "'h client \<Rightarrow> 'h client \<Rightarrow> bool" where
  "same_calls c c' \<longleftrightarrow> k_pend c' = k_pend c \<and> k_nextClientID c' = k_nextClientID c"

lemma same_calls_refl [simp, intro]: "same_calls c c"
  by (simp add: same_calls_def)

lemma same_calls_trans: "same_calls c d \<Longrightarrow> same_calls d e \<Longrightarrow> same_calls c e"
  by (simp add: same_calls_def)

lemma same_calls_keeps: "same_calls c c' \<Longrightarrow> ckeeps c c'"
  by (simp add: same_calls_def ckeeps_def client_waiting_def)

lemma same_marks [simp]:
  "same_calls c (upd_conn r f d) = same_calls c d" "same_calls c (upd_loop l g d) = same_calls c d"
  "same_calls c (conn_close r code reason d) = same_calls c d" "same_calls c (rx_cancel r d) = same_calls c d"
  "same_calls c (loop_cancel l d) = same_calls c d" "same_calls c (loop_goto l pc d) = same_calls c d"
  by (simp_all add: same_calls_def upd_conn_def upd_loop_def conn_close_def rx_cancel_def loop_cancel_def loop_goto_def)

lemma same_install [simp]: "same_calls c (install r d) = same_calls c d"
  by (simp add: install_def) (simp add: same_calls_def)

lemma same_open: "open_conn d = (r, d') \<Longrightarrow> same_calls c d' = same_calls c d"
  by (auto simp: open_conn_def Let_def same_calls_def)

lemma same_disableReconnect [simp]: "same_calls c (disableReconnect l d) = same_calls c d"
  by (simp add: disableReconnect_def) (simp add: same_calls_def)

lemma same_write: "same_calls c (snd (client_write r payload c))"
  by (simp add: client_write_def split: option.split)

lemma same_sendError: "same_calls c (snd (sendError r rid code message data c))"
  by (simp add: sendError_def same_write split: sum.split)

lemma same_sendResult: "same_calls c (snd (sendResult r rid result c))"
  by (simp add: sendResult_def same_write same_sendError split: sum.split)

lemma same_answer: "same_calls c (client_answer r rid code message c)"
  by (simp add: client_answer_def same_sendError)

lemma same_handleRequest: "same_calls c (snd (handleRequest r msg c))"
  by (simp add: handleRequest_def Let_def same_answer same_sendResult same_sendError split: sum.split option.split)

lemma same_handler_end: "same_calls c (client_handler_end r rid out c)"
  by (simp add: client_handler_end_def same_sendResult same_sendError split: sum.split option.split)

lemma same_send: "same_calls c (snd (client_send ws idRaw m params c))"
  by (simp add: client_send_def same_write split: sum.split)

lemma same_register: "same_calls c (client_Register m h c)" "same_calls c (client_Unregister m c)"
  by (simp_all add: client_Register_def client_Unregister_def same_calls_def)

lemma same_reconnect_begin: "same_calls c (snd (reconnect_begin url c))"
  by (simp add: reconnect_begin_def Let_def same_calls_def)

lemma same_dialed: "same_calls c (snd (connect_dialed dialed c))"
  by (auto simp: connect_dialed_def same_open split: sum.split prod.split)

lemma same_dialed_in: "same_calls c (dialed_in l dialed c)"
  using same_dialed [of c dialed] by (auto simp: dialed_in_def on_ref_def split: prod.split option.split)

lemma same_close_begin: "same_calls c (snd (client_close_begin c))"
  by (simp add: client_close_begin_def Let_def on_ref_def split: option.split) (simp add: same_calls_def)

lemma same_loop_step:
  assumes "loop_step ev pc l c = Some c'"
  shows "same_calls c c'"
  using assms
  by (cases "(ev, pc, l, c)" rule: loop_step.cases)
    (auto simp: loop_dialed_def same_open split: if_splits sum.splits prod.splits)

lemma fail_keeps:
  assumes "client_inv c"
  shows "ckeeps c (failAllPending e c)"
proof -
  have "pend_inv (k_pend c)" using assms by (simp add: client_inv_def)
  then show ?thesis
    by (auto simp: ckeeps_def client_waiting_def failAllPending_def upd_pending_def pend_fail_fields pend_inv_wf)
qed

lemma client_deliver_keeps: "ckeeps c (handleResponse msg c)"
  by (auto simp: ckeeps_def client_waiting_def handleResponse_def Let_def upd_pending_def pend_deliver_fields
      split: option.split)

lemma client_frame_keeps: "ckeeps c (snd (client_read_frame is_text data r c))"
  using same_calls_keeps [OF same_calls_refl] same_calls_keeps [OF same_sendError] client_deliver_keeps
  by (auto simp: client_read_frame_def Let_def split: option.split)

lemma read_end_keeps:
  assumes "client_inv c"
  shows "ckeeps c (read_end r c)"
proof -
  have d: "ckeeps c (cut_off r c)"
  proof -
    have "pend_inv (k_pend c)" using assms by (simp add: client_inv_def)
    then show ?thesis
      by (auto simp: cut_off_def ckeeps_def client_waiting_def failAllPending_def upd_pending_def
          rx_cancel_def upd_conn_def pend_fail_fields pend_inv_wf)
  qed
  have tail: "ckeeps d (upd_conn r f (upd_loop l g d))" "ckeeps d (upd_conn r f d)" for l and f g and d :: "'a client"
    by (rule same_calls_keeps, simp)+
  show ?thesis
    using ckeeps_trans [OF d tail(1)] ckeeps_trans [OF d tail(2)] tail(2)
    by (auto simp: read_end_def onDisconnect_eq [OF assms] on_ref_def split: option.split)
qed

section \<open>The calls under way\<close>

definition numbered :: "nat \<Rightarrow> ccall \<Rightarrow> bool" where
  "numbered n cl \<longleftrightarrow> (\<exists>j. 0 < j \<and> j \<le> n \<and> cc_key cl = makeID (client_id (of_nat j)))"

definition c_calls_ok :: "nat \<Rightarrow> 'h client \<Rightarrow> ccall list \<Rightarrow> bool" where
  "c_calls_ok n c cs \<longleftrightarrow>
     k_nextClientID c = of_nat n \<and> distinct (map cc_key cs) \<and> distinct (map cc_chan cs) \<and>
     (\<forall>cl \<in> set cs. client_waiting c cl \<and> numbered n cl)"

lemma c_calls_ok_keeps: "ckeeps c c' \<Longrightarrow> c_calls_ok n c cs \<Longrightarrow> c_calls_ok n c' cs"
  by (simp add: c_calls_ok_def ckeeps_def)

lemma makeID_client_inj:
  "makeID (client_id m) = makeID (client_id n) \<Longrightarrow> m = n"
  by (drule makeID_inj [OF _ client_id_utf8 client_id_utf8]) (rule client_id_inj)

lemma numbered_new:
  assumes "k_nextClientID c = of_nat n" "Suc n < 2 ^ 64" "numbered n cl"
  shows "cc_key cl \<noteq> c_next_key c"
proof
  assume "cc_key cl = c_next_key c"
  with assms(1,3) obtain j where j: "j \<le> n" "makeID (client_id (of_nat j)) = makeID (client_id (of_nat (Suc n)))"
    by (auto simp: numbered_def c_next_key_def add.commute)
  then have "j = Suc n"
    using assms(2) by (intro of_nat_word64_inj [OF makeID_client_inj]) auto
  with j(1) show False by simp
qed

lemma c_registered_pend:
  "k_pend (c_registered key c) = snd (pend_register key (k_pend c))"
  "k_nextClientID (c_registered key c) = k_nextClientID c + 1"
  by (simp_all add: c_registered_def upd_pending_def)

lemma registered_keeps_waiting:
  assumes "client_inv c" "client_waiting c cl" "cc_key cl \<noteq> key"
  shows "client_waiting (c_registered key c) cl"
    and "client_waiting (ccall_done \<lparr>cc_key = key, cc_chan = ch, cc_rx = rx\<rparr> (c_registered key c)) cl"
proof -
  have "wf_map (pd_map (k_pend c))" using assms(1) by (simp add: client_inv_def pend_inv_wf)
  with assms(2,3) show "client_waiting (c_registered key c) cl"
    "client_waiting (ccall_done \<lparr>cc_key = key, cc_chan = ch, cc_rx = rx\<rparr> (c_registered key c)) cl"
    by (auto simp: client_waiting_def c_registered_pend pend_register_fields ccall_done_def upd_pending_def
        pend_remove_fields gomap)
qed

lemma numbered_Suc: "numbered n cl \<Longrightarrow> numbered (Suc n) cl"
  unfolding numbered_def by (metis le_SucI)

lemma new_call_numbered:
  assumes "k_nextClientID c = of_nat n"
  shows "numbered (Suc n) (c_new_call rx c)"
  using assms unfolding numbered_def c_new_call_def c_next_key_def
  by (intro exI [of _ "Suc n"]) (simp add: add.commute)

lemma c_calls_ok_new:
  assumes "client_inv c" "c_calls_ok n c cs" "Suc n < 2 ^ 64"
  shows "c_calls_ok (Suc n) (c_registered (c_next_key c) c) (cs @ [c_new_call rx c])"
    and "c_calls_ok (Suc n) (ccall_done (c_new_call rx c) (c_registered (c_next_key c) c)) cs"
proof -
  let ?d = "c_registered (c_next_key c) c"
  have cnt: "k_nextClientID c = of_nat n"
    and old: "\<And>cl. cl \<in> set cs \<Longrightarrow> client_waiting c cl \<and> numbered n cl"
    and dist: "distinct (map cc_key cs)" "distinct (map cc_chan cs)"
    using assms(2) by (auto simp: c_calls_ok_def)
  have key: "cc_key cl \<noteq> c_next_key c" if "cl \<in> set cs" for cl
    using numbered_new [OF cnt assms(3)] old [OF that] by blast
  note kept = registered_keeps_waiting [OF assms(1) _ key]
  have fresh: "cc_chan cl \<noteq> pd_next (k_pend c)" if "cl \<in> set cs" for cl
    using old [OF that] by (auto simp: client_waiting_def)
  have new: "client_waiting ?d (c_new_call rx c)"
    using assms(1)
    by (auto simp: client_waiting_def c_registered_pend pend_register_fields c_new_call_def client_inv_def
        gomap dest: pend_inv_wf)
  have "c_next_key c \<notin> cc_key ` set cs" "pd_next (k_pend c) \<notin> cc_chan ` set cs"
    using key fresh by (metis imageE)+
  then show "c_calls_ok (Suc n) ?d (cs @ [c_new_call rx c])"
    using dist old kept(1) new new_call_numbered [OF cnt] cnt
    by (auto simp: c_calls_ok_def c_registered_pend numbered_Suc c_new_call_def add.commute)
  show "c_calls_ok (Suc n) (ccall_done (c_new_call rx c) ?d) cs"
    using dist old kept(2) cnt
    by (auto simp: c_calls_ok_def ccall_done_def upd_pending_def c_registered_pend numbered_Suc c_new_call_def
        add.commute)
qed

lemma same_calls_done: "same_calls c d \<Longrightarrow> same_calls (ccall_done cl c) (ccall_done cl d)"
  by (simp add: same_calls_def ccall_done_def upd_pending_def)

lemma invoke_begin_calls:
  assumes inv: "client_inv c" and ok: "c_calls_ok n c cs" and n: "Suc n < 2 ^ 64"
    and r: "client_invoke_begin m params c = (r, c')"
  shows "\<exists>k \<le> Suc n. c_calls_ok k c' (cs @ (case r of Inl _ \<Rightarrow> [] | Inr cl \<Rightarrow> [cl]))"
proof (cases "TrimSpace m = [] \<or> isl (currentConn c)")
  case True
  with r have "c' = c" "isl r" by (auto simp: client_invoke_begin_eq isl_def split: if_splits)
  with ok show ?thesis by (intro exI [of _ n]) (auto simp: isl_def)
next
  case False
  then obtain ws rx where conn: "TrimSpace m \<noteq> []" "currentConn c = Inr (ws, rx)"
    by (cases "currentConn c") auto
  let ?d = "c_registered (c_next_key c) c"
  obtain e c2 where s: "client_send ws (c_next_key c) m params ?d = (e, c2)" by force
  have same: "same_calls ?d c2" using same_send [of ?d ws "c_next_key c" m params] s by simp
  note new = c_calls_ok_new [OF inv ok n]
  show ?thesis
  proof (cases e)
    case None
    with conn s r have "r = Inr (c_new_call rx c)" "c' = c2" by (auto simp: client_invoke_begin_eq)
    with c_calls_ok_keeps [OF same_calls_keeps [OF same] new(1)] show ?thesis by auto
  next
    case (Some err)
    with conn s r have "r = Inl err" "c' = ccall_done (c_new_call rx c) c2" by (auto simp: client_invoke_begin_eq)
    with c_calls_ok_keeps [OF same_calls_keeps [OF same_calls_done [OF same]] new(2)] show ?thesis by auto
  qed
qed

lemma drop_nth_split: "i < length xs \<Longrightarrow> xs = take i xs @ xs ! i # drop (Suc i) xs"
  by (rule id_take_nth_drop)

lemma drop_nth_distinct:
  assumes "distinct (map f xs)" "i < length xs"
  shows "distinct (map f (drop_nth i xs))" "x \<in> set (drop_nth i xs) \<Longrightarrow> f x \<noteq> f (xs ! i)"
    "set (drop_nth i xs) \<subseteq> set xs"
proof -
  have d: "distinct (map f (take i xs @ xs ! i # drop (Suc i) xs))"
    using assms by (simp only: drop_nth_split [symmetric])
  then show "distinct (map f (drop_nth i xs))" by (simp add: drop_nth_def)
  assume "x \<in> set (drop_nth i xs)"
  then have "x \<in> set (take i xs) \<union> set (drop (Suc i) xs)" by (simp add: drop_nth_def)
  with d show "f x \<noteq> f (xs ! i)" by (metis Un_iff distinct_append distinct.simps(2) image_eqI list.set_map
      list.simps(9) map_append disjoint_iff list.set_intros(1))
next
  show "set (drop_nth i xs) \<subseteq> set xs"
    unfolding drop_nth_def using set_take_subset [of i xs] set_drop_subset [of "Suc i" xs] by auto
qed

lemma done_keeps_waiting:
  assumes "client_inv c" "client_waiting c cl" "cc_key cl \<noteq> cc_key cl'"
  shows "client_waiting (ccall_done cl' c) cl"
proof -
  have "wf_map (pd_map (k_pend c))" using assms(1) by (simp add: client_inv_def pend_inv_wf)
  with assms(2,3) show ?thesis
    by (simp add: client_waiting_def ccall_done_def upd_pending_def pend_remove_fields)
qed

lemma take_keeps_waiting:
  "client_waiting c cl \<Longrightarrow> cc_chan cl \<noteq> ch \<Longrightarrow> pend_take ch (k_pend c) = Some (m, q) \<Longrightarrow>
   client_waiting (upd_pending (\<lambda>_. q) c) cl"
  by (auto simp: client_waiting_def upd_pending_def pend_take_fields)

lemma invoke_end_waiting:
  assumes inv: "client_inv c" and e: "client_invoke_end wk cl' c = Some (r, c')"
    and cl: "client_waiting c cl" "cc_key cl \<noteq> cc_key cl'" "cc_chan cl \<noteq> cc_chan cl'"
  shows "client_waiting c' cl" "k_nextClientID c' = k_nextClientID c"
proof -
  have took: "client_waiting (ccall_done cl' (upd_pending (\<lambda>_. q) c)) cl"
    if "pend_take (cc_chan cl') (k_pend c) = Some (m, q)" for m q
  proof (rule done_keeps_waiting [OF _ take_keeps_waiting [OF cl(1,3) that] cl(2)])
    show "client_inv (upd_pending (\<lambda>_. q) c)"
      using pend_take_inv [OF _ that] by (intro cquiet_inv [OF upd_pending_quiet inv])
  qed
  show "client_waiting c' cl"
    using e took done_keeps_waiting [OF inv cl(1,2)]
    by (auto simp: client_invoke_end_def split: wake.splits option.splits if_splits)
  show "k_nextClientID c' = k_nextClientID c"
    using e by (auto simp: client_invoke_end_def ccall_done_def upd_pending_def
        split: wake.splits option.splits if_splits)
qed

lemma invoke_end_calls:
  assumes "client_inv c" "c_calls_ok n c cs" "i < length cs"
    and e: "client_invoke_end wk (cs ! i) c = Some (r, c')"
  shows "c_calls_ok n c' (drop_nth i cs)"
proof -
  have dist: "distinct (map cc_key cs)" "distinct (map cc_chan cs)"
    and old: "\<And>cl. cl \<in> set cs \<Longrightarrow> client_waiting c cl \<and> numbered n cl"
    and cnt: "k_nextClientID c = of_nat n"
    using assms(2) by (auto simp: c_calls_ok_def)
  note key = drop_nth_distinct [OF dist(1) assms(3)] and ch = drop_nth_distinct [OF dist(2) assms(3)]
  have "client_waiting c' cl \<and> numbered n cl" if "cl \<in> set (drop_nth i cs)" for cl
    using old [of cl] key(2,3) ch(2) that invoke_end_waiting(1) [OF assms(1) e] by blast
  moreover have "k_nextClientID c' = of_nat n"
    using invoke_end_waiting(2) [OF assms(1) e] old [of "cs ! i"] assms(3) cnt e
    by (auto simp: client_invoke_end_def ccall_done_def upd_pending_def split: wake.splits option.splits if_splits)
  ultimately show ?thesis using key(1) ch(1) by (simp add: c_calls_ok_def)
qed

section \<open>Every reachable state\<close>

definition cworld_calls :: "nat \<Rightarrow> 'h cworld \<Rightarrow> bool" where
  "cworld_calls n w \<longleftrightarrow> cworld_inv w \<and> (\<exists>k \<le> n. c_calls_ok k (v_c w) (v_calls w))"

text \<open>Every event but the two of \<open>Invoke\<close> keeps the calls waiting.\<close>

lemma c_happen_ckeeps:
  assumes "client_inv (v_c w)" "c_happen e w = Some w'"
    and "\<And>m params. e \<noteq> CeInvoke m params" "\<And>wk i. e \<noteq> CeInvokeEnd wk i"
  shows "ckeeps (v_c w) (v_c w') \<and> v_calls w' = v_calls w"
proof -
  note keep = same_calls_keeps [OF same_handleRequest] same_calls_keeps [OF same_handler_end] client_frame_keeps
    same_calls_keeps [OF same_register(1)] same_calls_keeps [OF same_register(2)] read_end_keeps [OF assms(1)]
    same_calls_keeps [OF same_dialed_in] same_calls_keeps [OF same_loop_step] fail_keeps [OF assms(1)]
    same_calls_keeps [OF same_calls_refl]
  show ?thesis
  proof (cases e)
    case (CeReconnect url)
    obtain q c where q: "reconnect_begin url (v_c w) = (q, c)" by force
    then have "same_calls (v_c w) c" using same_reconnect_begin [of "v_c w" url] by simp
    with CeReconnect assms(2) q show ?thesis
      by (auto simp: with_c_def intro!: same_calls_keeps split: sum.splits)
  next
    case CeClose
    obtain q c where q: "client_close_begin (v_c w) = (q, c)" by force
    then have "same_calls (v_c w) c" using same_close_begin [of "v_c w"] by simp
    with CeClose assms(2) q show ?thesis
      by (auto simp: with_c_def intro!: same_calls_keeps split: option.splits)
  next
    case (CeCloseEnd i)
    with assms(2) keep show ?thesis by (auto simp: with_c_def split: if_splits dest!: client_close_end_eq)
  qed (use assms(2-4) keep in \<open>auto simp: with_c_def intro: same_calls_keeps split: if_splits\<close>)
qed

lemma c_happen_calls:
  assumes inv: "cworld_calls n w" and e: "c_happen e w = Some w'" and n: "Suc n < 2 ^ 64"
  shows "cworld_calls (Suc n) w'"
proof -
  have ci: "client_inv (v_c w)" using inv by (simp add: cworld_calls_def cworld_inv_def)
  obtain k where k: "k \<le> n" "c_calls_ok k (v_c w) (v_calls w)" using inv by (auto simp: cworld_calls_def)
  have "\<exists>k \<le> Suc n. c_calls_ok k (v_c w') (v_calls w')"
  proof (cases e)
    case (CeInvoke m params)
    obtain r c where r: "client_invoke_begin m params (v_c w) = (r, c)" by force
    have "Suc k < 2 ^ 64" using k(1) n by simp
    from invoke_begin_calls [OF ci k(2) this r] k(1) CeInvoke e r show ?thesis
      by (auto simp: with_c_def split: sum.splits) (meson Suc_le_mono le_trans)+
  next
    case (CeInvokeEnd wk i)
    with e invoke_end_calls [OF ci k(2)] k(1) show ?thesis
      by (auto simp: with_c_def split: if_splits intro!: exI [of _ k])
  qed (use c_happen_ckeeps [OF ci e] c_calls_ok_keeps k in \<open>auto intro!: exI [of _ k]\<close>)
  with inv e c_happen_inv show ?thesis by (auto simp: cworld_calls_def)
qed

interpretation cc: bounded_system new_cworld c_step cworld_calls "2 ^ 64 - 1"
proof
  have "c_calls_ok 0 NewClient []" by (simp add: c_calls_ok_def NewClient_def)
  then show "cworld_calls 0 new_cworld" using cl.start_inv by (auto simp: cworld_calls_def new_cworld_def)
  fix n and w w' :: "'a cworld"
  assume "n < 2 ^ 64 - 1" "cworld_calls n w" "c_step w w'"
  then show "cworld_calls (Suc n) w'" by (auto intro: c_happen_calls)
qed

end
