(* ===== verification/ClientSpec.thy ===== *)
theory ClientSpec
  imports ClientCalls
begin

text \<open>
  Properties of the client: \<open>Invoke\<close> from end to end, the calls and the connection of the
  running client, the reconnect loop and its delays, the requests of the server.
\<close>

section \<open>Frames\<close>

text \<open>One frame, the message \<open>m\<close> marshalled, is written to a connection; it reads as \<open>m\<close>; nothing else happens.\<close>

definition client_sends :: "nat \<Rightarrow> rpc_message \<Rightarrow> 'h client \<Rightarrow> 'h client \<Rightarrow> bool" where
  "client_sends r m c c' \<longleftrightarrow>
     (\<exists>data. marshalMessage m = Inr data \<and> unmarshalMessage data = Some m \<and>
       c' = upd_conn r (\<lambda>n. n\<lparr>n_sent := n_sent n @ [data]\<rparr>) c)"

definition client_writable :: "nat \<Rightarrow> 'h client \<Rightarrow> bool" where
  "client_writable r c \<longleftrightarrow> n_ws (k_conns c r) = None"

lemma client_write_message:
  assumes "client_writable r c" and "wire_message m" and "marshalMessage m = Inr data"
  shows "client_sends r m c (snd (client_write r data c))" and "fst (client_write r data c) = None"
proof -
  have "unmarshalMessage data = Some m" using frame_reads [OF assms(2)] assms(3) by auto
  with assms(1,3) show "client_sends r m c (snd (client_write r data c))" and "fst (client_write r data c) = None"
    by (auto simp: client_write_def client_writable_def client_sends_def)
qed

lemma sendError_message:
  assumes "client_writable r c" and "wire_raw rid"
    and "wire_error (Some \<lparr>re_code = code, re_message = message, re_data = data\<rparr>)"
  shows "client_sends r (error_message rid code message data) c (snd (sendError r rid code message data c))"
proof -
  note wire = error_message_wire [OF assms(2,3)]
  from frame_reads [OF wire] obtain frame where
    "marshalMessage (error_message rid code message data) = Inr frame" by blast
  with client_write_message(1) [OF assms(1) wire this] show ?thesis by (simp add: sendError_def)
qed

lemma sendResult_message:
  assumes "client_writable r c" and "wire_raw rid" and "wire_any (GObj ms)" and "depth (GObj ms) < max_depth"
  shows "client_sends r (result_message rid (json_print (GObj ms))) c (snd (sendResult r rid (Some ms) c))"
proof -
  have "wire_raw (json_print (GObj ms))" using assms(3,4) by (intro wire_raw_print wire_any_wf)
  with assms(2) have wire: "wire_message (result_message rid (json_print (GObj ms)))"
    by (simp add: wire_message_def result_message_def empty_message_def wire_error_def)
  from frame_reads [OF wire] obtain frame where
    f: "marshalMessage (result_message rid (json_print (GObj ms))) = Inr frame" by blast
  have "marshalObject (Some ms) = Inr (json_print (GObj ms))"
    using json_marshal_wire [OF assms(3)] by (simp add: marshalObject_def del: json_print.simps)
  with client_write_message(1) [OF assms(1) wire f] f show ?thesis
    by (simp add: sendResult_def del: json_print.simps)
qed

lemma c_next_key_wire: "wire_raw (c_next_key c)" "hasID (c_next_key c)" "idKey (c_next_key c) = Some (c_next_key c)"
  by (simp_all add: c_next_key_def client_id_utf8)

lemma client_send_message:
  assumes "client_writable ws c" and "wire_raw rid" and "utf8_valid m"
    and "wire_any (GObj ps)" and "depth (GObj ps) < max_depth"
  shows "client_sends ws (request_message rid m (json_print (GObj ps))) c
      (snd (client_send ws rid m (Some ps) c))" and "fst (client_send ws rid m (Some ps) c) = None"
proof -
  note wire = request_reads [OF assms(2-5)]
  obtain data where data: "marshalMessage (request_message rid m (json_print (GObj ps))) = Inr data"
    by (rule frame_reads [OF wire])
  have "marshalObject (Some ps) = Inr (json_print (GObj ps))"
    using json_marshal_wire [OF assms(4)] by (simp add: marshalObject_def del: json_print.simps)
  then have "client_send ws rid m (Some ps) c = client_write ws data c"
    by (simp add: client_send_def data del: json_print.simps)
  with client_write_message [OF assms(1) wire data]
  show "client_sends ws (request_message rid m (json_print (GObj ps))) c
      (snd (client_send ws rid m (Some ps) c))" and "fst (client_send ws rid m (Some ps) c) = None"
    by simp_all
qed

section \<open>Invoke\<close>

lemma currentConn_connected:
  assumes "client_inv c" and "k_ws c = Some ws"
  shows "currentConn c = Inr (ws, ws)"
  using assms by (auto simp: currentConn_def client_inv_def conn_ok_def)

lemma client_invoke_begin_sends:
  assumes "client_inv c" and "k_ws c = Some ws" and "client_writable ws c"
    and "TrimSpace m \<noteq> []" and "utf8_valid m" and "wire_any (GObj ps)" and "depth (GObj ps) < max_depth"
  obtains c1 where "client_invoke_begin m (Some ps) c = (Inr (c_new_call ws c), c1)"
    and "client_sends ws (request_message (c_next_key c) m (json_print (GObj ps)))
           (c_registered (c_next_key c) c) c1"
proof -
  let ?d = "c_registered (c_next_key c) c"
  have "client_writable ws ?d" using assms(3) by (simp add: client_writable_def c_registered_def upd_pending_def)
  note sent = client_send_message [OF this c_next_key_wire(1) [of c] assms(5-7)]
  show thesis
  proof (rule that)
    show "client_invoke_begin m (Some ps) c =
        (Inr (c_new_call ws c), snd (client_send ws (c_next_key c) m (Some ps) ?d))"
      using sent(2) assms(4) currentConn_connected [OF assms(1,2)]
      by (cases "client_send ws (c_next_key c) m (Some ps) ?d") (simp add: client_invoke_begin_eq)
  qed (rule sent(1))
qed

lemma client_sends_pend: "client_sends r m c c' \<Longrightarrow> k_pend c' = k_pend c"
  by (auto simp: client_sends_def upd_conn_def)

lemma client_invoke_answered:
  assumes inv: "client_inv c" and conn: "k_ws c = Some ws" and ok: "client_writable ws c"
    and m: "TrimSpace m \<noteq> []" "utf8_valid m" and ps: "wire_any (GObj ps)" "depth (GObj ps) < max_depth"
    and fresh: "mget (pd_map (k_pend c)) (c_next_key c) = None"
    and v: "wire_any v"
    and reads: "unmarshalMessage frame = Some (result_message (c_next_key c) (json_print v))"
  shows "\<exists>cl c1 c2 c3. client_invoke_begin m (Some ps) c = (Inr cl, c1) \<and>
    client_sends ws (request_message (c_next_key c) m (json_print (GObj ps))) (c_registered (c_next_key c) c) c1 \<and>
    client_read_frame True frame ws c1 = (None, c2) \<and>
    client_invoke_end WakeResponse cl c2 = Some (decodeResult (json_print v), c3) \<and>
    pd_map (k_pend c3) = pd_map (k_pend c)"
proof -
  let ?key = "c_next_key c" and ?cl = "c_new_call ws c" and ?m = "result_message (c_next_key c) (json_print v)"
  obtain c1 where c1: "client_invoke_begin m (Some ps) c = (Inr ?cl, c1)"
    and sent: "client_sends ws (request_message ?key m (json_print (GObj ps))) (c_registered ?key c) c1"
    by (rule client_invoke_begin_sends [OF inv conn ok m ps])
  have pend: "k_pend c1 = snd (pend_register ?key (k_pend c))"
    using client_sends_pend [OF sent] by (simp add: c_registered_pend)
  have pinv: "pend_inv (k_pend c)" using inv by (simp add: client_inv_def)
  obtain q where q: "mget (pd_map (k_pend c1)) ?key = Some (cc_chan ?cl)"
      "pend_take (cc_chan ?cl) (pend_deliver ?key ?m (k_pend c1)) = Some (?m, q)"
      "pd_map (pend_remove ?key q) = pd_map (k_pend c)"
    using call_answered [OF pinv fresh, of ?m] by (metis pend c_new_call_def ccall.select_convs(2))
  let ?c2 = "upd_pending (pend_deliver ?key ?m) c1"
  have read: "client_read_frame True frame ws c1 = (None, ?c2)"
    using q(1) print_nonempty [OF wire_any_wf [OF v]]
    by (simp add: client_read_frame_def reads result_message_def empty_message_def handleResponse_def c_next_key_wire)
  obtain out where "decodeResult (json_print v) = Inr out" using decodeResult_print [OF v] by (cases v) auto
  then have "response_result ?m = decodeResult (json_print v)"
    by (simp add: response_result_def result_message_def empty_message_def)
  with q(2) have "client_invoke_end WakeResponse ?cl ?c2 =
      Some (decodeResult (json_print v), ccall_done ?cl (upd_pending (\<lambda>_. q) ?c2))"
    by (simp add: client_invoke_end_def upd_pending_def)
  moreover have "pd_map (k_pend (ccall_done ?cl (upd_pending (\<lambda>_. q) ?c2))) = pd_map (k_pend c)"
    using q(3) by (simp add: ccall_done_def upd_pending_def c_new_call_def)
  ultimately show ?thesis using c1 sent read by blast
qed

definition online :: "nat client" where
  "online = snd (connect_dialed (Inr ''holon-rpc'') NewClient)"

lemma online_facts:
  "client_inv online" "k_ws online = Some 0" "client_writable 0 online" "k_pend online = pend_empty"
  "k_closed online = False" "k_reconnect online = None" "k_handlers online = []" "k_next_conn online = 1"
proof -
  show "client_inv online"
    unfolding online_def by (rule connect_dialed_inv [OF NewClient_inv surjective_pairing])
qed (simp_all add: online_def connect_dialed_def open_conn_def Let_def NewClient_def install_def upd_conn_def
    client_writable_def new_conn_def)

section \<open>The calls of the running client\<close>

lemma c_reach_facts:
  assumes "c_reach n w"
  shows "client_inv (v_c w)" "redials (v_dials w) (v_c w)"
  using cl.reachable_inv [OF assms] by (simp_all add: cworld_inv_def)

lemma c_reach_calls:
  assumes "c_reach n w" and "n < 2 ^ 64"
  obtains k where "c_calls_ok k (v_c w) (v_calls w)"
proof -
  have "cworld_calls n w" by (rule cc.reachable_good [OF assms(1)]) (use assms(2) in simp)
  then show thesis using that by (auto simp: cworld_calls_def)
qed

text \<open>
  C8: In every state the client reaches in fewer than 2 to the 64 steps, any interleaving of
  \<open>Connect\<close>, \<open>ConnectWithReconnect\<close>, \<open>Close\<close>, frames, lost connections, reconnects and calls,
  two waiting calls never share an identifier, and no call is forgotten: the table still
  leads its identifier to its channel, or its answer is in the channel and it can return.
\<close>

theorem client_calls_never_lost:
  assumes "c_reach n w" and "n < 2 ^ 64" and "i < length (v_calls w)" and "j < length (v_calls w)"
    and "cl = v_calls w ! i"
  shows "(cc_key cl = cc_key (v_calls w ! j) \<longleftrightarrow> i = j) \<and>
    (mget (pd_map (k_pend (v_c w))) (cc_key cl) = Some (cc_chan cl) \<or>
     (\<exists>out c'. client_invoke_end WakeResponse cl (v_c w) = Some (out, c')))"
proof -
  obtain k where k: "c_calls_ok k (v_c w) (v_calls w)" by (rule c_reach_calls [OF assms(1,2)])
  then have "distinct (map cc_key (v_calls w))" "client_waiting (v_c w) cl"
    using assms(3,5) by (auto simp: c_calls_ok_def)
  then show ?thesis
    using assms(3-5) nth_eq_iff_index_eq [of "map cc_key (v_calls w)" i j]
    by (auto simp: client_waiting_def client_invoke_end_def pend_take_def split: option.split)
qed

text \<open>A run: connect and call.\<close>

definition c_call_run :: "nat cevent list" where
  "c_call_run = [CeConnect ''u'', CeDialed 0 (Inr ''holon-rpc''), CeInvoke ''m'' (Some [])]"

lemma trim_u: "TrimSpace ''u'' = ''u''"
  using TrimSpace_solid(2) [of "CHR ''u''" "CHR ''u''"] by (simp add: solid_def)

lemma online_run:
  "c_run [CeConnect ''u'', CeDialed 0 (Inr ''holon-rpc'')] new_cworld =
     Some \<lparr>v_c = online, v_dials = [], v_closes = [], v_calls = []\<rparr>"
proof -
  have "connect_check ''u'' NewClient = None" by (simp add: connect_check_def trim_u NewClient_def)
  moreover have "dialed_in None (Inr ''holon-rpc'') NewClient = online"
    by (simp add: dialed_in_def online_def on_ref_def split: prod.split option.split)
  ultimately show ?thesis
    by (simp add: new_cworld_def with_c_def drop_nth_def)
qed

lemma c_run_append: "c_run (es @ fs) w = Option.bind (c_run es w) (c_run fs)"
  by (induction es arbitrary: w) (auto split: option.split)

lemma c_call_run_reaches:
  obtains w :: "nat cworld" where "c_reach 3 w" and "v_calls w = [c_new_call 0 online]" and "k_ws (v_c w) = Some 0"
    and "pd_chans (k_pend (v_c w)) 0 = None"
proof -
  obtain c1 where c1: "client_invoke_begin ''m'' (Some []) online = (Inr (c_new_call 0 online), c1)"
    and sent: "client_sends 0 (request_message (c_next_key online) ''m'' (json_print (GObj [])))
           (c_registered (c_next_key online) online) c1"
    by (rule client_invoke_begin_sends [OF online_facts(1-3) _ method_m(2) wire_empty_object])
      (simp add: method_m)
  let ?w = "\<lparr>v_c = c1, v_dials = [], v_closes = [], v_calls = [c_new_call 0 online]\<rparr>"
  have "c_run c_call_run new_cworld = Some ?w"
    using c_run_append [of "[CeConnect ''u'', CeDialed 0 (Inr ''holon-rpc'')]" "[CeInvoke ''m'' (Some [])]"
        "new_cworld :: nat cworld"] online_run c1
    by (simp add: c_call_run_def with_c_def del: c_run.simps(2)) (simp add: with_c_def)
  then have "c_reach (0 + length c_call_run) ?w" by (rule c_run_reach [OF reach_start])
  then have "c_reach 3 ?w" by (simp add: c_call_run_def numeral_3_eq_3)
  moreover have "k_ws c1 = Some 0" "pd_chans (k_pend c1) 0 = None"
    using sent online_facts(2,4)
    by (auto simp: client_sends_def upd_conn_def c_registered_def upd_pending_def pend_register_fields pend_empty_def)
  ultimately show thesis using that by simp
qed

lemma client_calls_never_lost_witness:
  "\<exists>w :: nat cworld. c_reach 3 w \<and> v_calls w = [c_new_call 0 online] \<and>
    (mget (pd_map (k_pend (v_c w))) (c_next_key online) = Some 0 \<or>
     (\<exists>out c'. client_invoke_end WakeResponse (c_new_call 0 online) (v_c w) = Some (out, c')))"
proof -
  obtain w :: "nat cworld" where w: "c_reach 3 w" "v_calls w = [c_new_call 0 online]" by (rule c_call_run_reaches)
  from client_calls_never_lost [OF w(1), of 0 0 "c_new_call 0 online"] w show ?thesis
    by (intro exI [of _ w]) (simp add: c_new_call_def online_facts pend_empty_def)
qed

lemma read_end_pend:
  assumes "client_inv c" "k_ws c = Some r"
  shows "k_pend (read_end r c) = pend_fail (unavailable_message ErrConnectionClosed) (k_pend c)"
  using assms
  by (auto simp: read_end_def upd_conn_def onDisconnect_eq on_ref_def cut_off_def failAllPending_def
      upd_pending_def rx_cancel_def split: option.split)

lemma read_end_rx_done:
  assumes "client_inv c" "k_ws c = Some r"
  shows "n_rx_done (k_conns (read_end r c) r)"
  using assms
  by (auto simp: read_end_def upd_conn_def onDisconnect_eq on_ref_def cut_off_def failAllPending_def
      upd_pending_def rx_cancel_def upd_loop_def split: option.split)

text \<open>
  C12: No call outlives its connection or the client. In every such state, when the read loop
  of the current connection ends, every call that waits without an answer can return
  "unavailable" (code 14); a call that watches this connection may, at the choice of its
  \<open>select\<close>, return the bare "connection closed" instead. When \<open>Close\<close> finishes, the same
  holds of every call that waits then. A call whose answer had arrived can return it.
\<close>

theorem client_calls_end_with_connection:
  assumes "c_reach n w" and "n < 2 ^ 64" and "cl \<in> set (v_calls w)"
    and "k_ws (v_c w) = Some r \<and> c' = read_end r (v_c w) \<or>
         client_close_end q (v_c w) = Some c'"
  shows "(\<exists>c2. client_invoke_end WakeResponse cl c' =
      Some (case pd_chans (k_pend (v_c w)) (cc_chan cl) of
              None \<Rightarrow> Inl (rpc_err codeUnavailable ''holon-rpc connection closed'')
            | Some resp \<Rightarrow> response_result resp, c2)) \<and>
    (k_ws (v_c w) = Some r \<and> c' = read_end r (v_c w) \<and> cc_rx cl = r \<longrightarrow>
       (\<exists>c2. client_invoke_end WakePeerGone cl c' = Some (Inl ErrConnectionClosed, c2)))"
proof -
  obtain k where k: "c_calls_ok k (v_c w) (v_calls w)" by (rule c_reach_calls [OF assms(1,2)])
  with assms(3) have cl: "client_waiting (v_c w) cl" by (simp add: c_calls_ok_def)
  note inv = c_reach_facts(1) [OF assms(1)]
  then have pinv: "pend_inv (k_pend (v_c w))" by (simp add: client_inv_def)
  let ?m = "unavailable_message ErrConnectionClosed"
  have pend: "k_pend c' = pend_fail ?m (k_pend (v_c w))"
    using assms(4) by (auto simp: read_end_pend [OF inv] failAllPending_def upd_pending_def dest: client_close_end_eq)
  have "pd_chans (pend_fail ?m (k_pend (v_c w))) (cc_chan cl) =
      Some (case pd_chans (k_pend (v_c w)) (cc_chan cl) of None \<Rightarrow> ?m | Some resp \<Rightarrow> resp)"
    using pt.failed_call_is_told [OF pinv, of "cc_key cl"] pt.first_reply_wins(2) [OF pinv] cl
    by (auto simp: client_waiting_def split: option.split)
  moreover have "response_result ?m = Inl (rpc_err codeUnavailable ''holon-rpc connection closed'')"
    by (simp add: response_result_def unavailable_message_def rpc_err_def)
  moreover have "n_rx_done (k_conns (read_end r (v_c w)) r)" if "k_ws (v_c w) = Some r"
    using that by (rule read_end_rx_done [OF inv])
  ultimately show ?thesis
    by (auto simp: client_invoke_end_def pend_take_def pend split: option.split)
qed

lemma client_calls_end_with_connection_witness:
  "\<exists>(w :: nat cworld) c2 c3. c_reach 3 w \<and> v_calls w = [c_new_call 0 online] \<and>
    client_invoke_end WakeResponse (c_new_call 0 online) (read_end 0 (v_c w)) =
      Some (Inl (rpc_err codeUnavailable ''holon-rpc connection closed''), c2) \<and>
    client_invoke_end WakePeerGone (c_new_call 0 online) (read_end 0 (v_c w)) = Some (Inl ErrConnectionClosed, c3)"
proof -
  obtain w :: "nat cworld" where w: "c_reach 3 w" "v_calls w = [c_new_call 0 online]" "k_ws (v_c w) = Some 0"
    "pd_chans (k_pend (v_c w)) 0 = None"
    by (rule c_call_run_reaches)
  have "cc_chan (c_new_call 0 online) = 0" "cc_rx (c_new_call 0 online) = 0"
    by (simp_all add: c_new_call_def online_facts pend_empty_def)
  with client_calls_end_with_connection [OF w(1), of "c_new_call 0 online" 0 "read_end 0 (v_c w)"] w
  show ?thesis by auto
qed

end
