(* ===== verification/ReconnectSpec.thy ===== *)
theory ReconnectSpec
  imports ClientSpec
begin

text \<open>
  Properties of the connection and of the reconnect loop: what a reachable client is like,
  the way back from a lost connection, the end of the loops of a closed client, the delays.
\<close>

section \<open>The connection\<close>

text \<open>
  C32: In every reachable state of the client: a connection it has is read, open, and its
  receive context is live, so that calls may use it; a closed client has neither a
  connection nor a reconnect loop of its own and is not \<open>Connected\<close>; \<open>currentConn\<close>, which
  decides the error of a call, gives the connection exactly when there is one, "client is
  closed" after \<open>Close\<close>, "unavailable" (code 14) while it reconnects, and "not connected"
  otherwise.
\<close>

theorem client_connection_sound:
  assumes "c_reach n w" and "c = v_c w"
  shows "(\<forall>r \<in> set_option (k_ws c). n_reading (k_conns c r) \<and> \<not> n_rx_done (k_conns c r) \<and> n_closed (k_conns c r) = []) \<and>
    (k_closed c \<longrightarrow> k_ws c = None \<and> k_reconnect c = None \<and> \<not> Connected c) \<and>
    currentConn c =
      (case k_ws c of
         Some r \<Rightarrow> Inr (r, r)
       | None \<Rightarrow>
           if k_closed c then Inl (ErrText ''holon-rpc: client is closed'')
           else if k_reconnect c \<noteq> None then Inl (rpc_err codeUnavailable ''holon-rpc connection closed'')
           else Inl (ErrText ''holon-rpc: client is not connected''))"
proof -
  have inv: "client_inv c" using c_reach_facts(1) [OF assms(1)] assms(2) by simp
  then show ?thesis
    using currentConn_connected [OF inv]
    by (auto simp: client_inv_def conn_ok_def Connected_def currentConn_def err_client_closed_def split: option.splits)
qed

lemma online_reach: "c_reach 2 \<lparr>v_c = online, v_dials = [], v_closes = [], v_calls = []\<rparr>"
  using c_run_reach [OF reach_start online_run] by (simp add: numeral_2_eq_2)

lemma client_connection_sound_witness:
  "c_reach 2 \<lparr>v_c = online, v_dials = [], v_closes = [], v_calls = []\<rparr> \<and> currentConn online = Inr (0, 0) \<and>
   n_reading (k_conns online 0)"
  using client_connection_sound [OF online_reach refl] online_reach by (simp add: online_facts)

section \<open>Loops\<close>

fun loop_run :: "loop_event list \<Rightarrow> nat \<Rightarrow> 'h client \<Rightarrow> 'h client option" where
  "loop_run [] l c = Some c"
| "loop_run (ev # evs) l c =
     (case loop_step ev (l_pc (k_loops c l)) l c of None \<Rightarrow> None | Some c' \<Rightarrow> loop_run evs l c')"

lemma goto_fields [simp]:
  "k_ws (loop_goto l pc c) = k_ws c" "k_closed (loop_goto l pc c) = k_closed c"
  "k_reconnectURL (loop_goto l pc c) = k_reconnectURL c" "k_next_loop (loop_goto l pc c) = k_next_loop c"
  "k_reconnect (loop_goto l pc c) = k_reconnect c"
  "k_loops (loop_goto l pc c) = (k_loops c)(l := (k_loops c l)\<lparr>l_pc := pc\<rparr>)"
  by (simp_all add: loop_goto_def upd_loop_def)

lemma url_fields [simp]:
  "k_reconnectURL (upd_loop l f c) = k_reconnectURL c"
  by (simp add: upd_loop_def)

text \<open>The steps of a loop that looks, dials and is answered.\<close>

lemma dial_connects:
  assumes "\<not> k_closed c" and "k_ws c = None" and "l_pc (k_loops c l) = LoopDials a url"
  shows "\<exists>c'. loop_run [OnDial (Inr ''holon-rpc'')] l c = Some c' \<and> Connected c'"
  using assms
  by (auto simp: open_conn_def Let_def loop_dialed_def Connected_def install_def upd_conn_def loop_goto_def upd_loop_def)

lemma look_connects:
  assumes "\<not> k_closed c" and "k_ws c = None" and "l_pc (k_loops c l) = LoopLooks a"
  shows "\<exists>c'. loop_run [OnLook, OnDial (Inr ''holon-rpc'')] l c = Some c' \<and> Connected c'"
  using assms dial_connects [of "loop_goto l (LoopDials a (k_reconnectURL c)) c" l a "k_reconnectURL c"]
  by simp

lemma sleep_connects:
  assumes "\<not> k_closed c" and "k_ws c = None" and "l_pc (k_loops c l) = LoopSleeps a"
  shows "\<exists>c'. loop_run [OnTimer, OnLook, OnDial (Inr ''holon-rpc'')] l c = Some c' \<and> Connected c'"
  using assms look_connects [of "loop_goto l (LoopLooks (Suc a)) c" l "Suc a"] by simp

text \<open>
  C13: A lost connection is never forgotten. In every reachable state in which the client is
  to reconnect, its context is not done, it has no connection, and its first dial is over,
  the loop has not ended and is at work or has been woken: at most four steps of the loop,
  with one dial that the server answers, connect the client again.
\<close>

theorem lost_connection_recovers:
  assumes "c_reach n w" and "k_reconnect (v_c w) = Some l" and "k_ws (v_c w) = None"
    and "\<not> l_ctx_done (k_loops (v_c w) l)" and "Some l \<notin> set (v_dials w)"
  shows "\<exists>evs c'. length evs \<le> 4 \<and> set evs \<subseteq> {OnWake, OnLook, OnCheck, OnTimer, OnDial (Inr ''holon-rpc'')} \<and>
    loop_run evs l (v_c w) = Some c' \<and> Connected c'"
proof -
  let ?c = "v_c w"
  have open_client: "\<not> k_closed ?c" and "l_pc (k_loops ?c l) \<noteq> LoopEnded" "awake (k_loops ?c l)"
    using c_reach_facts [OF assms(1)] assms(2-5) by (auto simp: client_inv_def redials_def)
  then consider (wake) "l_pc (k_loops ?c l) = LoopWaits" "l_wake (k_loops ?c l)"
    | (look) a where "l_pc (k_loops ?c l) = LoopLooks a" | (dial) a u where "l_pc (k_loops ?c l) = LoopDials a u"
    | (check) a where "l_pc (k_loops ?c l) = LoopChecks a" | (sleep) a where "l_pc (k_loops ?c l) = LoopSleeps a"
    by (cases "l_pc (k_loops ?c l)") (auto simp: awake_def)
  then show ?thesis
  proof cases
    case wake
    let ?d = "loop_goto l (LoopLooks 0) (upd_loop l (\<lambda>p. p\<lparr>l_wake := False\<rparr>) ?c)"
    have "\<exists>c'. loop_run [OnLook, OnDial (Inr ''holon-rpc'')] l ?d = Some c' \<and> Connected c'"
      by (rule look_connects [where a = 0]) (use open_client assms(3) in simp_all)
    with wake show ?thesis
      by (intro exI [of _ "[OnWake, OnLook, OnDial (Inr ''holon-rpc'')]"]) simp
  next
    case (check a)
    let ?d = "loop_goto l (LoopSleeps a) ?c"
    have "\<exists>c'. loop_run [OnTimer, OnLook, OnDial (Inr ''holon-rpc'')] l ?d = Some c' \<and> Connected c'"
      by (rule sleep_connects) (use open_client assms(3) in simp_all)
    with check assms(3) show ?thesis
      by (intro exI [of _ "[OnCheck, OnTimer, OnLook, OnDial (Inr ''holon-rpc'')]"]) (simp add: Connected_def)
  next
    case (look a)
    with look_connects [OF open_client assms(3)] show ?thesis
      by (intro exI [of _ "[OnLook, OnDial (Inr ''holon-rpc'')]"]) simp
  next
    case (dial a u)
    with dial_connects [OF open_client assms(3)] show ?thesis
      by (intro exI [of _ "[OnDial (Inr ''holon-rpc'')]"]) simp
  next
    case (sleep a)
    with sleep_connects [OF open_client assms(3)] show ?thesis
      by (intro exI [of _ "[OnTimer, OnLook, OnDial (Inr ''holon-rpc'')]"]) simp
  qed
qed

text \<open>A run: connect with reconnect, and lose the connection.\<close>

definition lost_run :: "nat cevent list" where
  "lost_run = [CeReconnect ''u'', CeDialed 0 (Inr ''holon-rpc''), CeReadEnd 0]"

lemma lost_run_reaches:
  obtains w :: "nat cworld" where "c_run lost_run new_cworld = Some w" and "c_reach 3 w"
    and "k_reconnect (v_c w) = Some 0" and "k_ws (v_c w) = None" and "\<not> l_ctx_done (k_loops (v_c w) 0)"
    and "v_dials w = []" and "\<not> k_closed (v_c w)" and "k_next_loop (v_c w) = 1" and "k_reconnectURL (v_c w) = ''u''"
    and "k_loops (v_c w) 0 = \<lparr>l_ctx_done = False, l_wake = True, l_pc = LoopWaits\<rparr>"
proof -
  obtain w :: "nat cworld" where w: "c_run lost_run new_cworld = Some w"
    and facts: "k_reconnect (v_c w) = Some 0" "k_ws (v_c w) = None" "\<not> l_ctx_done (k_loops (v_c w) 0)"
    "v_dials w = []" "\<not> k_closed (v_c w)" "k_next_loop (v_c w) = 1" "k_reconnectURL (v_c w) = ''u''"
    "k_loops (v_c w) 0 = \<lparr>l_ctx_done = False, l_wake = True, l_pc = LoopWaits\<rparr>"
    by (simp add: lost_run_def new_cworld_def reconnect_begin_def trim_u NewClient_def Let_def connect_check_def
        with_c_def dialed_in_def connect_dialed_def open_conn_def drop_nth_def install_def upd_conn_def
        read_end_def onDisconnect_def on_ref_def rx_cancel_def failAllPending_def upd_pending_def upd_loop_def
        new_loop_def)
  have "c_reach (0 + length lost_run) w" by (rule c_run_reach [OF reach_start w])
  then have "c_reach 3 w" by (simp add: lost_run_def numeral_3_eq_3)
  with w facts show thesis by (intro that)
qed

lemma lost_connection_recovers_witness:
  "\<exists>(w :: nat cworld) evs c'. c_reach 3 w \<and> k_ws (v_c w) = None \<and> length evs \<le> 4 \<and>
    loop_run evs 0 (v_c w) = Some c' \<and> Connected c'"
proof -
  obtain w :: "nat cworld" where w: "c_reach 3 w" "k_reconnect (v_c w) = Some 0" "k_ws (v_c w) = None"
    "\<not> l_ctx_done (k_loops (v_c w) 0)" "v_dials w = []"
    by (rule lost_run_reaches)
  from lost_connection_recovers [OF w(1-4)] w show ?thesis by auto
qed

section \<open>The loops of a closed client\<close>

fun loop_rank :: "loop_pc \<Rightarrow> nat" where
  "loop_rank LoopEnded = 0"
| "loop_rank (LoopLooks a) = 1"
| "loop_rank LoopWaits = 2"
| "loop_rank (LoopSleeps a) = 2"
| "loop_rank (LoopChecks a) = 3"
| "loop_rank (LoopDials a url) = 3"

lemma loop_rank_bound: "loop_rank pc \<le> 3"
  by (cases pc) simp_all

lemma closed_loop_step:
  assumes "k_closed c" and "loop_step ev (l_pc (k_loops c l)) l c = Some c'"
  shows "Suc (loop_rank (l_pc (k_loops c' l))) \<le> loop_rank (l_pc (k_loops c l))"
    and "k_closed c'" and "\<And>j. j \<noteq> l \<Longrightarrow> k_loops c' j = k_loops c j"
    and "l_ctx_done (k_loops c' l) = l_ctx_done (k_loops c l)" and "k_next_loop c' = k_next_loop c"
proof -
  have c: "l_pc (k_loops c l) = pc \<Longrightarrow> loop_step ev pc l c = Some c' \<Longrightarrow>
    Suc (loop_rank (l_pc (k_loops c' l))) \<le> loop_rank pc \<and> k_closed c' \<and>
    (\<forall>j. j \<noteq> l \<longrightarrow> k_loops c' j = k_loops c j) \<and>
    l_ctx_done (k_loops c' l) = l_ctx_done (k_loops c l) \<and> k_next_loop c' = k_next_loop c" for pc
    using assms(1)
    by (cases "(ev, pc, l, c)" rule: loop_step.cases)
      (auto simp: Connected_def open_conn_def Let_def loop_dialed_def conn_close_def rx_cancel_def upd_conn_def
        loop_goto_def split: if_splits sum.splits)
  from c [OF refl assms(2)]
  show "Suc (loop_rank (l_pc (k_loops c' l))) \<le> loop_rank (l_pc (k_loops c l))"
    and "k_closed c'" and "\<And>j. j \<noteq> l \<Longrightarrow> k_loops c' j = k_loops c j"
    and "l_ctx_done (k_loops c' l) = l_ctx_done (k_loops c l)" and "k_next_loop c' = k_next_loop c"
    by blast+
qed

text \<open>What the other events do to the loops of a closed client.\<close>

definition loops_calm :: "nat \<Rightarrow> 'h client \<Rightarrow> 'h client \<Rightarrow> bool" where
  "loops_calm l c c' \<longleftrightarrow>
     k_closed c' \<and> l_pc (k_loops c' l) = l_pc (k_loops c l) \<and>
     (l_ctx_done (k_loops c l) \<longrightarrow> l_ctx_done (k_loops c' l)) \<and> k_next_loop c' = k_next_loop c"

lemma quiet_loops: "cquiet c c' \<Longrightarrow> k_closed c \<Longrightarrow> loops_calm l c c'"
  by (simp add: cquiet_def loops_calm_def)

lemma closed_dialed: "k_closed c \<Longrightarrow> loops_calm l c (dialed_in q dialed c)"
  by (auto simp: dialed_in_def connect_dialed_def open_conn_def Let_def on_ref_def loops_calm_def disableReconnect_def
      loop_cancel_def conn_close_def rx_cancel_def upd_conn_def split: sum.split option.split)

lemma closed_read_end:
  assumes "client_inv c" and "k_closed c"
  shows "loops_calm l c (read_end r c)"
  using assms by (auto simp: client_inv_def loops_calm_def read_end_def onDisconnect_def upd_conn_def)

lemma closed_event:
  assumes "client_inv (v_c w)" and "k_closed (v_c w)" and "c_happen e w = Some w'" and "\<And>ev. e \<noteq> CeLoop l ev"
  shows "loops_calm l (v_c w) (v_c w')"
proof -
  note calm = quiet_loops [OF _ assms(2), of _ l]
  have refl: "loops_calm l (v_c w) (v_c w)" using assms(2) by (simp add: loops_calm_def)
  show ?thesis
  proof (cases e)
    case (CeReconnect url)
    with assms(2,3) refl show ?thesis by (auto simp: reconnect_begin_def with_c_def split: if_splits)
  next
    case (CeLoop j ev)
    with assms(2-4) closed_loop_step [OF assms(2)] show ?thesis
      by (auto simp: with_c_def loops_calm_def split: if_splits) (metis assms(4))+
  next
    case CeClose
    with assms(2,3) refl show ?thesis by (auto simp: client_close_begin_def with_c_def)
  next
    case (CeParentDone j)
    with assms(2,3) show ?thesis by (auto simp: with_c_def loop_cancel_def loops_calm_def)
  next
    case (CeCloseEnd i)
    with assms(3) calm [OF fail_quiet] show ?thesis by (auto simp: with_c_def split: if_splits dest!: client_close_end_eq)
  next
    case (CeInvoke m params)
    obtain r c where r: "client_invoke_begin m params (v_c w) = (r, c)" by force
    with client_invoke_begin_quiet [of "v_c w" m params] have "cquiet (v_c w) c" by simp
    with CeInvoke assms(3) r calm show ?thesis by (auto simp: with_c_def split: sum.splits)
  next
    case (CeInvokeEnd wk i)
    with assms(3) calm show ?thesis by (auto simp: with_c_def split: if_splits dest!: client_invoke_end_quiet)
  qed (use assms(1-3) refl in \<open>auto simp: with_c_def split: if_splits
      intro: quiets [THEN calm] closed_dialed closed_read_end\<close>)
qed

definition loop_moves :: "nat \<Rightarrow> 'h cevent list \<Rightarrow> nat" where
  "loop_moves l es = length (filter (\<lambda>e. \<exists>ev. e = CeLoop l ev) es)"

text \<open>
  C14: The reconnect loops of a closed client end. Whatever else happens (other loops, late
  dials, frames, calls, other \<open>Close\<close> calls), each loop takes at most three more steps, each
  of which lowers its rank; and a loop whose context is done, as \<open>Close\<close> leaves it, has ended
  or has a next step. So \<open>Close\<close>, which waits for the loop, is never held up by it.
\<close>

theorem closed_client_loops_end:
  assumes "c_reach n w" and "k_closed (v_c w)" and "c_run es w = Some w'"
  shows "loop_moves l es + loop_rank (l_pc (k_loops (v_c w') l)) \<le> loop_rank (l_pc (k_loops (v_c w) l)) \<and>
    loop_rank (l_pc (k_loops (v_c w) l)) \<le> 3 \<and>
    (l_ctx_done (k_loops (v_c w) l) \<longrightarrow>
       l_pc (k_loops (v_c w') l) = LoopEnded \<or>
       (\<exists>ev c'. loop_step ev (l_pc (k_loops (v_c w') l)) l (v_c w') = Some c'))"
proof -
  have run: "k_closed (v_c w') \<and>
      loop_moves l es + loop_rank (l_pc (k_loops (v_c w') l)) \<le> loop_rank (l_pc (k_loops (v_c w) l)) \<and>
      (l_ctx_done (k_loops (v_c w) l) \<longrightarrow> l_ctx_done (k_loops (v_c w') l))"
    using assms
  proof (induction es arbitrary: n w)
    case Nil
    then show ?case by (simp add: loop_moves_def)
  next
    case (Cons e es)
    from Cons.prems(3) obtain w1 where e: "c_happen e w = Some w1" and es: "c_run es w1 = Some w'"
      by (auto split: option.splits)
    from Cons.prems(1) e have r: "c_reach (Suc n) w1" by (auto intro: reach_move c_happens)
    note inv = c_reach_facts(1) [OF Cons.prems(1)]
    show ?case
    proof (cases "\<exists>ev. e = CeLoop l ev")
      case True
      with e obtain ev where "loop_step ev (l_pc (k_loops (v_c w) l)) l (v_c w) = Some (v_c w1)"
        by (auto simp: with_c_def split: if_splits)
      note s = closed_loop_step [OF Cons.prems(2) this]
      from Cons.IH [OF r s(2) es] s(1,4) True show ?thesis by (auto simp: loop_moves_def)
    next
      case False
      then have "loops_calm l (v_c w) (v_c w1)" by (intro closed_event [OF inv Cons.prems(2) e]) auto
      with Cons.IH [OF r _ es] False show ?thesis by (auto simp: loops_calm_def loop_moves_def)
    qed
  qed
  have step: "\<exists>ev c'. loop_step ev pc l c = Some c'"
    if "l_ctx_done (k_loops c l)" "pc \<noteq> LoopEnded" for pc and c :: "'a client"
  proof -
    have "loop_step OnCtx LoopWaits l c \<noteq> None" "loop_step OnLook (LoopLooks a) l c \<noteq> None"
      "loop_step (OnDial (Inl ErrCanceled)) (LoopDials a u) l c \<noteq> None"
      "loop_step OnCheck (LoopChecks a) l c \<noteq> None" "loop_step OnTimer (LoopSleeps a) l c \<noteq> None" for a u
      using that(1) by simp_all
    with that(2) show ?thesis by (cases pc) blast+
  qed
  show ?thesis using run step loop_rank_bound by blast
qed

lemma closed_client_loops_end_witness:
  "\<exists>(w :: nat cworld) w'. c_reach 4 w \<and> k_closed (v_c w) \<and> l_ctx_done (k_loops (v_c w) 0) \<and>
    c_run [CeLoop 0 OnWake, CeLoop 0 OnLook] w = Some w' \<and>
    2 + loop_rank (l_pc (k_loops (v_c w') 0)) \<le> loop_rank (l_pc (k_loops (v_c w) 0)) \<and>
    l_pc (k_loops (v_c w') 0) = LoopEnded"
proof -
  obtain w0 :: "nat cworld" where w0: "c_reach 3 w0" "\<not> k_closed (v_c w0)" "k_reconnect (v_c w0) = Some 0"
    "k_next_loop (v_c w0) = 1" "k_loops (v_c w0) 0 = \<lparr>l_ctx_done = False, l_wake = True, l_pc = LoopWaits\<rparr>"
    by (rule lost_run_reaches)
  obtain w :: "nat cworld" where w: "c_happen CeClose w0 = Some w" "k_closed (v_c w)" "k_next_loop (v_c w) = 1"
    "k_loops (v_c w) 0 = \<lparr>l_ctx_done = True, l_wake = True, l_pc = LoopWaits\<rparr>"
    using w0 by (simp add: client_close_begin_def Let_def with_c_def on_ref_def conn_close_def rx_cancel_def
        loop_cancel_def upd_conn_def split: option.split)
  have r: "c_reach 4 w" using reach_move [OF w0(1) c_happens [OF w(1)]] by simp
  obtain w' where w': "c_run [CeLoop 0 OnWake, CeLoop 0 OnLook] w = Some w'" "l_pc (k_loops (v_c w') 0) = LoopEnded"
    using w by (simp add: with_c_def)
  from closed_client_loops_end [OF r w(2) w'(1), of 0] r w w' show ?thesis
    by (intro exI [of _ w] exI [of _ w']) (simp add: loop_moves_def)
qed

section \<open>Delays\<close>







section \<open>Overlapping and repeated connects\<close>

text \<open>
  C36: \<open>Connect\<close> does not look for a connection again after its dial. When two \<open>Connect\<close> calls
  pass the check of a client without a connection and both dials succeed, both return
  without an error, the second connection replaces the first, and the first is lost: it is
  still read and its context is live, and not even \<open>Close\<close> closes or cancels it.
\<close>

theorem overlapping_connects_leak:
  assumes "client_inv c" and "connect_check url c = None"
  shows "\<exists>r1 r2 c1 c2 q c3.
    connect_dialed (Inr ''holon-rpc'') c = (None, c1) \<and> k_ws c1 = Some r1 \<and>
    connect_dialed (Inr ''holon-rpc'') c1 = (None, c2) \<and> k_ws c2 = Some r2 \<and> r1 \<noteq> r2 \<and>
    client_close_begin c2 = (Some q, c3) \<and> k_closed c3 \<and>
    n_reading (k_conns c3 r1) \<and> \<not> n_rx_done (k_conns c3 r1) \<and> n_closed (k_conns c3 r1) = []"
proof -
  have c: "\<not> k_closed c" "k_ws c = None" using assms(2) by (auto simp: connect_check_def split: if_splits)
  have dial: "connect_dialed (Inr ''holon-rpc'') d = (None, snd (connect_dialed (Inr ''holon-rpc'') d)) \<and>
      k_ws (snd (connect_dialed (Inr ''holon-rpc'') d)) = Some (k_next_conn d) \<and>
      k_next_conn (snd (connect_dialed (Inr ''holon-rpc'') d)) = Suc (k_next_conn d) \<and>
      k_reconnect (snd (connect_dialed (Inr ''holon-rpc'') d)) = k_reconnect d \<and>
      k_cancel (snd (connect_dialed (Inr ''holon-rpc'') d)) = Some (k_next_conn d) \<and>
      \<not> k_closed (snd (connect_dialed (Inr ''holon-rpc'') d)) \<and>
      k_conns (snd (connect_dialed (Inr ''holon-rpc'') d)) =
        (k_conns d)(k_next_conn d := new_conn\<lparr>n_reading := True\<rparr>)"
    if "\<not> k_closed d" for d :: "'a client"
    using that by (simp add: connect_dialed_def open_conn_def Let_def install_def upd_conn_def)
  define c1 where "c1 = snd (connect_dialed (Inr ''holon-rpc'') c)"
  define c2 where "c2 = snd (connect_dialed (Inr ''holon-rpc'') c1)"
  note d1 = dial [OF c(1), folded c1_def]
  then have d2: "connect_dialed (Inr ''holon-rpc'') c1 = (None, c2) \<and> k_ws c2 = Some (k_next_conn c1) \<and>
      k_cancel c2 = Some (k_next_conn c1) \<and> \<not> k_closed c2 \<and>
      k_conns c2 = (k_conns c1)(k_next_conn c1 := new_conn\<lparr>n_reading := True\<rparr>)"
    using dial [of c1, folded c2_def] by blast
  from d1 d2 show ?thesis
    by (intro exI [of _ "k_next_conn c"] exI [of _ "k_next_conn c1"] exI [of _ c1] exI [of _ c2]
        exI [of _ "(k_done c2, k_reconnect c2)"] exI [of _ "snd (client_close_begin c2)"])
      (simp add: client_close_begin_def Let_def on_ref_def loop_cancel_def rx_cancel_def conn_close_def upd_conn_def
        upd_loop_def new_conn_def split: option.split)
qed

lemma overlapping_connects_leak_witness:
  "\<exists>r1 (c2 :: nat client) q c3. k_ws c2 \<noteq> Some r1 \<and> client_close_begin c2 = (Some q, c3) \<and>
    n_reading (k_conns c3 r1) \<and> n_closed (k_conns c3 r1) = []"
proof -
  have "connect_check ''u'' (NewClient :: nat client) = None" by (simp add: connect_check_def trim_u NewClient_def)
  from overlapping_connects_leak [OF NewClient_inv this] show ?thesis by (metis option.inject)
qed



end
