(* ===== verification/ClientRequests.thy ===== *)
theory ClientRequests
  imports ReconnectSpec
begin

text \<open>
  Properties of the client as a callee: which requests of the server it refuses and how,
  and what it sends for the outcome of a handler.
\<close>

section \<open>Refusals\<close>

text \<open>What the client answers to a request that it does not hand to a handler.\<close>

definition client_refusal :: "rpc_message \<Rightarrow> 'h client \<Rightarrow> (int \<times> string) option" where
  "client_refusal msg c =
     (let m = TrimSpace (m_method msg) in
      if m_jsonrpc msg \<noteq> jsonRPCVersion \<or> m = [] then Some (codeInvalidRequest, ''invalid request'')
      else if m = ''rpc.heartbeat'' then None
      else if hasID (m_id msg) \<and> (\<forall>sid. decodeStringID (m_id msg) \<noteq> Inr (CHR ''s'' # sid)) then
        Some (codeInvalidRequest, ''server request id must start with '' @ [CHR 0x27, CHR ''s'', CHR 0x27])
      else
        (case decodeParams (m_params msg) of
           Inl e \<Rightarrow> Some (codeInvalidParams, error_text e)
         | Inr ps \<Rightarrow>
             if mget (k_handlers c) m = None then
               Some (codeMethodNotFound, ''method '' @ quote_q m @ '' not found'')
             else None))"

lemma prefix_s: "HasPrefix ''s'' sid \<longleftrightarrow> (\<exists>t. sid = CHR ''s'' # t)"
  by (cases sid) (auto simp: HasPrefix_def)

lemma foreign_id:
  "(case q of Inl _ \<Rightarrow> True | Inr sid \<Rightarrow> \<not> HasPrefix ''s'' sid) \<longleftrightarrow> (\<forall>sid. q \<noteq> Inr (CHR ''s'' # sid))"
  by (auto simp: prefix_s split: sum.split)

lemma client_refusal_refused:
  "client_refusal msg c = Some (code, message) \<Longrightarrow>
   handleRequest r msg c = (None, client_answer r (m_id msg) code message c)"
  by (auto simp: client_refusal_def handleRequest_def Let_def foreign_id client_answer_def
      split: if_splits sum.splits option.splits)

text \<open>
  C25: Requests that the client refuses. When the table \<open>client_refusal\<close> gives a code and a
  message (wrong version, blank method, an identifier that is not a string starting with
  "s": invalid request; parameters that are not an object: invalid params; no handler:
  method not found), no handler runs, a request is answered with exactly one error frame
  that reads back with its identifier, the code and the message, and a notification with
  nothing.
\<close>

theorem client_refuses_requests:
  assumes "client_refusal msg c = Some (code, message)" and "client_writable r c" and "wire_raw (m_id msg)"
    and "- (2 ^ 63) \<le> code" and "code < 2 ^ 63" and "utf8_valid message"
  shows "\<exists>c'. handleRequest r msg c = (None, c') \<and>
    (if hasID (m_id msg) then client_sends r (error_message (m_id msg) code message GNull) c c' else c' = c)"
  using client_refusal_refused [OF assms(1), of r]
    sendError_message [OF assms(2,3) wire_error_plain [OF assms(4-6)]]
  by (simp add: client_answer_def)

lemma client_refuses_requests_witness:
  "\<exists>c'. handleRequest 0 (sample_msg ''m'') online = (None, c') \<and>
    client_sends 0 (error_message (makeID ''c1'') codeInvalidRequest
      (''server request id must start with '' @ [CHR 0x27, CHR ''s'', CHR 0x27]) GNull) online c'"
proof -
  have "utf8_valid ''c1''" by code_simp
  then have "decodeStringID (makeID ''c1'') = Inr ''c1''" by (rule decodeStringID_makeID)
  then have r: "client_refusal (sample_msg ''m'') online =
      Some (codeInvalidRequest, ''server request id must start with '' @ [CHR 0x27, CHR ''s'', CHR 0x27])"
    by (simp add: client_refusal_def sample_msg_def request_message_def empty_message_def method_m)
  have "utf8_valid (''server request id must start with '' @ [CHR 0x27, CHR ''s'', CHR 0x27])" by code_simp
  with client_refuses_requests [OF r online_facts(3)] id_c1 show ?thesis
    by (simp add: sample_msg_def request_message_def empty_message_def codeInvalidRequest_def)
qed

section \<open>Outcomes of handlers\<close>

text \<open>
  The outcome of a client's handler. A request is answered exactly once, under its own
  identifier: with the result of the handler, where a nil map is the empty object, or with
  its error, where a JSON-RPC error keeps its code, message and data and any other, a
  cancelled context included, becomes "internal error". A notification is never answered.
\<close>

lemma client_handler_answers:
  assumes "client_writable r c" and "wire_raw rid" and "hasID rid"
    and "\<And>e. out = Inl e \<Longrightarrow> wire_error (Some (handler_error e))"
    and "\<And>ms. out = Inr (Some ms) \<Longrightarrow> wire_any (GObj ms) \<and> depth (GObj ms) < max_depth"
  shows "(case out of
      Inl e \<Rightarrow> client_sends r
        (error_message rid (re_code (handler_error e)) (re_message (handler_error e)) (re_data (handler_error e)))
        c (client_handler_end r rid out c)
    | Inr None \<Rightarrow> client_sends r (result_message rid ''{}'') c (client_handler_end r rid out c)
    | Inr (Some ms) \<Rightarrow> client_sends r (result_message rid (json_print (GObj ms))) c (client_handler_end r rid out c)) \<and>
    client_handler_end r ''null'' out c = c"
proof -
  have silent: "client_handler_end r ''null'' out c = c"
    by (auto simp: client_handler_end_def hasID_def split: sum.split)
  have "case out of
      Inl e \<Rightarrow> client_sends r
        (error_message rid (re_code (handler_error e)) (re_message (handler_error e)) (re_data (handler_error e)))
        c (client_handler_end r rid out c)
    | Inr None \<Rightarrow> client_sends r (result_message rid ''{}'') c (client_handler_end r rid out c)
    | Inr (Some ms) \<Rightarrow> client_sends r (result_message rid (json_print (GObj ms))) c (client_handler_end r rid out c)"
  proof (cases out)
    case (Inl e)
    have "client_handler_end r rid out c =
        snd (sendError r rid (re_code (handler_error e)) (re_message (handler_error e)) (re_data (handler_error e)) c)"
      using Inl assms(3) by (auto simp: client_handler_end_def handler_error_def split: option.split)
    moreover have "wire_error (Some \<lparr>re_code = re_code (handler_error e), re_message = re_message (handler_error e),
        re_data = re_data (handler_error e)\<rparr>)"
      using assms(4) [OF Inl] by simp
    note sendError_message [OF assms(1,2) this]
    ultimately show ?thesis using Inl by simp
  next
    case (Inr res)
    have empty: "sendResult r rid None c = sendResult r rid (Some []) c"
      using json_marshal_wire [OF wire_empty_object(1)] by (simp add: sendResult_def marshalObject_def)
    have "client_sends r (result_message rid (json_print (GObj ms))) c (snd (sendResult r rid (Some ms) c))"
      if "wire_any (GObj ms)" "depth (GObj ms) < max_depth" for ms
      by (rule sendResult_message [OF assms(1,2) that])
    from this [OF wire_empty_object] this assms(3,5) Inr empty show ?thesis
      by (auto simp: client_handler_end_def split: option.split)
  qed
  with silent show ?thesis by blast
qed

section \<open>Handling a request\<close>

lemma client_request_handled:
  assumes "decodeStringID rid = Inr (CHR ''s'' # sid)"
    and "TrimSpace m \<notin> {[], ''rpc.heartbeat''}"
    and "wire_any (GObj ps)" and "mget (k_handlers c) (TrimSpace m) = Some h"
    and "unmarshalMessage frame = Some (request_message rid m (json_print (GObj ps)))"
  shows "client_read_frame True frame r c = (Some (request_message rid m (json_print (GObj ps))), c)"
    and "handleRequest r (request_message rid m (json_print (GObj ps))) c = (Some (h, ps), c)"
proof -
  have "m \<noteq> []" using assms(2) by auto
  with assms(5) show "client_read_frame True frame r c = (Some (request_message rid m (json_print (GObj ps))), c)"
    by (simp add: client_read_frame_def request_message_def empty_message_def)
  show "handleRequest r (request_message rid m (json_print (GObj ps))) c = (Some (h, ps), c)"
    using assms(1,2,4) decodeParams_print [OF assms(3)]
    by (simp add: handleRequest_def Let_def request_message_def empty_message_def prefix_s)
qed

lemma client_answers_result:
  assumes "client_writable r c" and "wire_raw rid" and "hasID rid"
    and "wire_any (GObj ms)" and "depth (GObj ms) < max_depth"
  obtains reply where "unmarshalMessage reply = Some (result_message rid (json_print (GObj ms)))"
    and "n_sent (k_conns (client_handler_end r rid (Inr (Some ms)) c) r) = n_sent (k_conns c r) @ [reply]"
    and "marshalMessage (result_message rid (json_print (GObj ms))) = Inr reply"
proof -
  have "client_sends r (result_message rid (json_print (GObj ms))) c (client_handler_end r rid (Inr (Some ms)) c)"
    using sendResult_message [OF assms(1,2,4,5)] assms(3) by (simp add: client_handler_end_def)
  then show thesis using that by (auto simp: client_sends_def upd_conn_def)
qed

end
