(* ===== verification/WebBridge.thy ===== *)
theory WebBridge
  imports Server
begin

text \<open>
  \<^verbatim>\<open>pkg/transport/wsweb.go\<close>: the web bridge, a second implementation of the protocol for
  browsers, with identifiers that are strings and payloads that are raw JSON.
\<close>

section \<open>Wire types\<close>

record web_error =
  we_code :: int
  we_message :: string

record ws_msg =
  wm_jsonrpc :: string
  wm_id :: string
  wm_method :: string
  wm_params :: bytes
  wm_result :: bytes
  wm_error :: "web_error option"

definition empty_ws :: ws_msg where
  "empty_ws =
     \<lparr>wm_jsonrpc = [], wm_id = [], wm_method = [], wm_params = [], wm_result = [], wm_error = None\<rparr>"

definition web_error_field :: "web_error option \<Rightarrow> (string \<times> string) list" where
  "web_error_field e =
     (case e of
        None \<Rightarrow> []
      | Some r \<Rightarrow>
          [(''error'', print_fields [(''code'', itoa (we_code r)), (''message'', json_quote (we_message r))])])"

text \<open>\<open>json.Marshal\<close> of a \<open>wsMsg\<close>.\<close>

definition ws_marshal :: "ws_msg \<Rightarrow> bytes res" where
  "ws_marshal m =
     (case (raw_field ''params'' (wm_params m), raw_field ''result'' (wm_result m)) of
        (Some p, Some r) \<Rightarrow>
          Inr (print_fields (str_field ''jsonrpc'' (wm_jsonrpc m) @ str_field ''id'' (wm_id m) @
                 str_field ''method'' (wm_method m) @ p @ r @ web_error_field (wm_error m)))
      | _ \<Rightarrow> Inl ErrJson)"

definition marshalWsResp :: "ws_msg \<Rightarrow> bytes" where
  \<open>marshalWsResp r =
     (case ws_marshal r of
        Inl e \<Rightarrow> ''{"jsonrpc":"2.0","error":{"code":-32603,"message":"internal error"}}''
      | Inr data \<Rightarrow> data)\<close>

definition web_error_member :: "string \<times> string \<times> gany \<Rightarrow> web_error \<Rightarrow> web_error option" where
  "web_error_member m e =
     (case m of
        (k, raw, v) \<Rightarrow>
          if fold_name k = ''code'' then map_option (\<lambda>c. e\<lparr>we_code := c\<rparr>) (store_int (we_code e) v)
          else if fold_name k = ''message'' then
            map_option (\<lambda>s. e\<lparr>we_message := s\<rparr>) (store_string (we_message e) v)
          else Some e)"

fun fill_web_error :: "(string \<times> string \<times> gany) list \<Rightarrow> web_error \<Rightarrow> web_error option" where
  "fill_web_error [] e = Some e"
| "fill_web_error (m # ms) e =
     (case web_error_member m e of None \<Rightarrow> None | Some e' \<Rightarrow> fill_web_error ms e')"

definition store_web_error :: "web_error option \<Rightarrow> string \<Rightarrow> gany \<Rightarrow> web_error option option" where
  "store_web_error old raw v =
     (case v of
        GNull \<Rightarrow> Some None
      | GObj _ \<Rightarrow>
          (case json_members raw of
             None \<Rightarrow> None
           | Some ms \<Rightarrow>
               map_option Some
                 (fill_web_error ms (case old of None \<Rightarrow> \<lparr>we_code = 0, we_message = []\<rparr> | Some e \<Rightarrow> e)))
      | _ \<Rightarrow> None)"

definition ws_member :: "string \<times> string \<times> gany \<Rightarrow> ws_msg \<Rightarrow> ws_msg option" where
  "ws_member m msg =
     (case m of
        (k, raw, v) \<Rightarrow>
          if fold_name k = ''jsonrpc'' then
            map_option (\<lambda>s. msg\<lparr>wm_jsonrpc := s\<rparr>) (store_string (wm_jsonrpc msg) v)
          else if fold_name k = ''id'' then
            map_option (\<lambda>s. msg\<lparr>wm_id := s\<rparr>) (store_string (wm_id msg) v)
          else if fold_name k = ''method'' then
            map_option (\<lambda>s. msg\<lparr>wm_method := s\<rparr>) (store_string (wm_method msg) v)
          else if fold_name k = ''params'' then Some (msg\<lparr>wm_params := raw\<rparr>)
          else if fold_name k = ''result'' then Some (msg\<lparr>wm_result := raw\<rparr>)
          else if fold_name k = ''error'' then
            map_option (\<lambda>e. msg\<lparr>wm_error := e\<rparr>) (store_web_error (wm_error msg) raw v)
          else Some msg)"

fun fill_ws :: "(string \<times> string \<times> gany) list \<Rightarrow> ws_msg \<Rightarrow> ws_msg option" where
  "fill_ws [] msg = Some msg"
| "fill_ws (m # ms) msg = (case ws_member m msg of None \<Rightarrow> None | Some msg' \<Rightarrow> fill_ws ms msg')"

definition ws_unmarshal :: "bytes \<Rightarrow> ws_msg option" where
  "ws_unmarshal data =
     (case json_unmarshal data of
        Some GNull \<Rightarrow> Some empty_ws
      | Some (GObj _) \<Rightarrow>
          (case json_members data of None \<Rightarrow> None | Some ms \<Rightarrow> fill_ws ms empty_ws)
      | _ \<Rightarrow> None)"

section \<open>The bridge\<close>

text \<open>\<open>'h\<close> are the handlers, \<open>'f\<close> the callbacks of \<open>OnConnect\<close>.\<close>

record ('h, 'f) bridge =
  b_handlers :: "(string, 'h) gmap"
  b_origins :: "(string, bool) gmap option"
  b_onConnect :: "'f option"

definition NewWebBridge :: "('h, 'f) bridge" where
  "NewWebBridge = \<lparr>b_handlers = [], b_origins = None, b_onConnect = None\<rparr>"

definition bridge_Register :: "string \<Rightarrow> 'h \<Rightarrow> ('h, 'f) bridge \<Rightarrow> ('h, 'f) bridge" where
  "bridge_Register mname handler b = b\<lparr>b_handlers := mput mname handler (b_handlers b)\<rparr>"

definition OnConnect :: "'f option \<Rightarrow> ('h, 'f) bridge \<Rightarrow> ('h, 'f) bridge" where
  "OnConnect fn b = b\<lparr>b_onConnect := fn\<rparr>"

definition AllowOrigins :: "string list \<Rightarrow> ('h, 'f) bridge \<Rightarrow> ('h, 'f) bridge" where
  "AllowOrigins origins b =
     (if origins = [] then b\<lparr>b_origins := None\<rparr>
      else b\<lparr>b_origins := Some (foldl (\<lambda>m origin. mput origin True m) [] origins)\<rparr>)"

text \<open>Go lists the names in an unspecified order, the model in ascending order.\<close>

definition Methods :: "('h, 'f) bridge \<Rightarrow> string list" where
  "Methods b = mkeys (b_handlers b)"

text \<open>
  A \<open>WebConn\<close>: what its \<open>Write\<close> answers, the frames sent, the counter, the pending calls, and
  whether its context is done.
\<close>

record webconn =
  w_ws :: "gerror option"
  w_sent :: "bytes list"
  w_nextID :: "64 word"
  w_pend :: "ws_msg pend"
  w_done :: bool

definition new_webconn :: webconn where
  "new_webconn = \<lparr>w_ws = None, w_sent = [], w_nextID = 0, w_pend = pend_empty, w_done = False\<rparr>"

text \<open>
  \<open>HandleWebSocket\<close> up to its loop. \<open>websocket.Accept\<close> is the parameter \<open>accept\<close>: whether it
  upgrades, for the value of \<open>InsecureSkipVerify\<close> and the origin patterns. The outcomes are
  the status 403, the status 400, and the connection with the callback to start.
\<close>

datatype 'f admission = OriginRefused | UpgradeRefused | Admitted "'f option" webconn

definition web_accept ::
    "(bool \<Rightarrow> string list \<Rightarrow> bool) \<Rightarrow> string \<Rightarrow> ('h, 'f) bridge \<Rightarrow> 'f admission" where
  "web_accept accept origin b =
     (case b_origins b of
        None \<Rightarrow> if accept True [] then Admitted (b_onConnect b) new_webconn else UpgradeRefused
      | Some origins \<Rightarrow>
          if mget origins origin \<noteq> Some True then OriginRefused
          else if accept False (mkeys origins) then Admitted (b_onConnect b) new_webconn
          else UpgradeRefused)"

text \<open>The deferred calls when the loop ends.\<close>

definition web_disconnect :: "webconn \<Rightarrow> webconn" where
  "web_disconnect c = c\<lparr>w_done := True\<rparr>"

definition web_write :: "bytes \<Rightarrow> webconn \<Rightarrow> gerror option \<times> webconn" where
  "web_write data c =
     (case w_ws c of
        Some e \<Rightarrow> (Some e, c)
      | None \<Rightarrow> (None, c\<lparr>w_sent := w_sent c @ [data]\<rparr>))"

definition web_respond :: "ws_msg \<Rightarrow> webconn \<Rightarrow> webconn" where
  "web_respond resp c = snd (web_write (marshalWsResp resp) c)"

definition web_error_resp :: "string \<Rightarrow> int \<Rightarrow> string \<Rightarrow> ws_msg" where
  "web_error_resp rid code message =
     empty_ws\<lparr>wm_jsonrpc := ''2.0'', wm_id := rid, wm_error := Some \<lparr>we_code = code, we_message = message\<rparr>\<rparr>"

section \<open>Calls of the browser\<close>

definition web_handleResponse :: "ws_msg \<Rightarrow> webconn \<Rightarrow> webconn" where
  "web_handleResponse msg c =
     (let msg' =
            (if wm_jsonrpc msg \<noteq> ''2.0''
             then msg\<lparr>wm_error := Some \<lparr>we_code = - 32600, we_message = ''invalid response''\<rparr>, wm_result := []\<rparr>
             else msg)
      in c\<lparr>w_pend := pend_deliver (wm_id msg') msg' (w_pend c)\<rparr>)"

text \<open>One turn of the loop; the message goes to \<open>go b.handleRequest\<close>. Frames of both kinds are read.\<close>

definition web_read_frame :: "bytes \<Rightarrow> webconn \<Rightarrow> ws_msg option \<times> webconn" where
  "web_read_frame data c =
     (case ws_unmarshal data of
        None \<Rightarrow>
          (None, web_respond
             (if json_valid data then web_error_resp [] (- 32600) ''invalid request''
              else web_error_resp [] (- 32700) ''parse error'') c)
      | Some msg \<Rightarrow>
          if wm_method msg \<noteq> [] then
            (if wm_jsonrpc msg \<noteq> ''2.0'' then
               (None, if TrimSpace (wm_id msg) = [] then c
                      else web_respond (web_error_resp (wm_id msg) (- 32600) ''invalid request'') c)
             else (Some msg, c))
          else if wm_result msg \<noteq> [] \<or> wm_error msg \<noteq> None then (None, web_handleResponse msg c)
          else if TrimSpace (wm_id msg) \<noteq> [] then
            (None, web_respond (web_error_resp (wm_id msg) (- 32600) ''invalid request'') c)
          else (None, c))"

text \<open>What a handler or a call fails with: a \<open>*WebError\<close> itself, or another error.\<close>

datatype web_fail = FailWeb web_error | FailGo gerror

text \<open>\<open>handleRequest\<close> up to the call of the handler: the handler and its parameters.\<close>

definition web_handleRequest ::
    "('h, 'f) bridge \<Rightarrow> ws_msg \<Rightarrow> webconn \<Rightarrow> ('h \<times> bytes) option \<times> webconn" where
  "web_handleRequest b msg c =
     (let isNotification = (TrimSpace (wm_id msg) = []); mname = TrimSpace (wm_method msg);
          refuse = (\<lambda>code message.
            if isNotification then c else web_respond (web_error_resp (wm_id msg) code message) c)
      in
        if wm_jsonrpc msg \<noteq> ''2.0'' then (None, refuse (- 32600) ''invalid request'')
        else if mname = [] then (None, refuse (- 32600) ''invalid request'')
        else if mname = ''rpc.heartbeat'' then
          (None, if isNotification then c
                 else web_respond (empty_ws\<lparr>wm_jsonrpc := ''2.0'', wm_id := wm_id msg, wm_result := ''{}''\<rparr>) c)
        else
          (case mget (b_handlers b) mname of
             None \<Rightarrow> (None, refuse (- 32601) (''method '' @ quote_q mname @ '' not registered''))
           | Some handler \<Rightarrow>
               (Some (handler, if wm_params msg = [] then ''{}'' else wm_params msg), c)))"

text \<open>The rest of \<open>handleRequest\<close>; a nil and an empty result are both \<open>[]\<close>.\<close>

definition web_handler_end :: "ws_msg \<Rightarrow> web_fail + bytes \<Rightarrow> webconn \<Rightarrow> webconn" where
  "web_handler_end msg out c =
     (if TrimSpace (wm_id msg) = [] then c
      else
        web_respond
          (case out of
             Inl (FailWeb e) \<Rightarrow> web_error_resp (wm_id msg) (we_code e) (we_message e)
           | Inl (FailGo e) \<Rightarrow> web_error_resp (wm_id msg) (- 32603) ''internal error''
           | Inr result \<Rightarrow> empty_ws\<lparr>wm_jsonrpc := ''2.0'', wm_id := wm_id msg, wm_result := result\<rparr>) c)"

section \<open>Calls of the bridge\<close>

text \<open>A call under way: its identifier and its channel.\<close>

record wcall =
  wc_id :: string
  wc_chan :: nat

definition wcall_done :: "wcall \<Rightarrow> webconn \<Rightarrow> webconn" where
  "wcall_done cl c = c\<lparr>w_pend := pend_remove (wc_id cl) (w_pend c)\<rparr>"

definition ws_request :: "string \<Rightarrow> string \<Rightarrow> bytes \<Rightarrow> ws_msg" where
  "ws_request rid mname params =
     empty_ws\<lparr>wm_jsonrpc := ''2.0'', wm_id := rid, wm_method := mname, wm_params := params\<rparr>"

text \<open>\<open>payload\<close> is \<open>None\<close> for a nil \<open>RawMessage\<close>.\<close>

definition web_send :: "string \<Rightarrow> string \<Rightarrow> bytes option \<Rightarrow> webconn \<Rightarrow> gerror option \<times> webconn" where
  "web_send rid mname payload c =
     (case ws_marshal (ws_request rid mname (case payload of None \<Rightarrow> ''{}'' | Some p \<Rightarrow> p)) of
        Inl e \<Rightarrow> (Some (ErrWrap ''wsweb: marshal request'' e), c)
      | Inr reqData \<Rightarrow>
          (case web_write reqData c of
             (Some e, c') \<Rightarrow> (Some (ErrWrap ''wsweb: write'' e), c')
           | (None, c') \<Rightarrow> (None, c')))"

definition web_invoke_begin :: "string \<Rightarrow> bytes option \<Rightarrow> webconn \<Rightarrow> wcall res \<times> webconn" where
  "web_invoke_begin mname payload c =
     (let n = w_nextID c + 1;
          rid = server_id n;
          cl = \<lparr>wc_id = rid, wc_chan = fst (pend_register rid (w_pend c))\<rparr>;
          c1 = c\<lparr>w_nextID := n, w_pend := snd (pend_register rid (w_pend c))\<rparr>
      in (case web_send rid mname payload c1 of
            (Some e, c2) \<Rightarrow> (Inl e, wcall_done cl c2)
          | (None, c2) \<Rightarrow> (Inr cl, c2)))"

definition web_result :: "ws_msg \<Rightarrow> web_fail + bytes" where
  "web_result resp =
     (case wm_error resp of
        Some e \<Rightarrow> Inl (FailWeb e)
      | None \<Rightarrow> Inr (wm_result resp))"

definition web_invoke_end :: "wake \<Rightarrow> wcall \<Rightarrow> webconn \<Rightarrow> ((web_fail + bytes) \<times> webconn) option" where
  "web_invoke_end w cl c =
     (case w of
        WakeResponse \<Rightarrow>
          (case pend_take (wc_chan cl) (w_pend c) of
             None \<Rightarrow> None
           | Some (resp, pd) \<Rightarrow> Some (web_result resp, wcall_done cl (c\<lparr>w_pend := pd\<rparr>)))
      | WakeCtx e \<Rightarrow> Some (Inl (FailGo e), wcall_done cl c)
      | WakePeerGone \<Rightarrow>
          if w_done c then Some (Inl (FailGo (ErrText ''wsweb: connection closed'')), wcall_done cl c) else None)"

text \<open>
  \<open>InvokeWithTimeout\<close> is \<open>Invoke\<close> under a context of the connection's with a deadline: that
  context is done when the deadline has passed or the connection's context is done.
\<close>

definition web_timeout_end ::
    "wake \<Rightarrow> bool \<Rightarrow> wcall \<Rightarrow> webconn \<Rightarrow> ((web_fail + bytes) \<times> webconn) option" where
  "web_timeout_end w expired cl c =
     (case w of
        WakeCtx e \<Rightarrow>
          if e = ErrDeadline \<and> expired \<or> e = ErrCanceled \<and> w_done c then web_invoke_end w cl c else None
      | _ \<Rightarrow> web_invoke_end w cl c)"

end
