(* ===== verification/WebSpec.thy ===== *)
theory WebSpec
  imports ClientRequests WebBridge
begin

text \<open>
  Properties of the web bridge: its envelopes against those of \<^verbatim>\<open>pkg/holonrpc\<close>, the origins
  it admits, the requests it refuses, and its calls, in both directions, with the client of
  \<^verbatim>\<open>pkg/holonrpc\<close> at the other end.
\<close>

section \<open>Envelopes\<close>

definition rpc_error_of :: "web_error \<Rightarrow> response_error" where
  "rpc_error_of e = \<lparr>re_code = we_code e, re_message = we_message e, re_data = GNull\<rparr>"

text \<open>The envelope of \<^verbatim>\<open>pkg/holonrpc\<close> with the same content: the identifier is quoted.\<close>

definition rpc_form :: "ws_msg \<Rightarrow> rpc_message" where
  "rpc_form m =
     \<lparr>m_jsonrpc = wm_jsonrpc m, m_id = (if wm_id m = [] then [] else makeID (wm_id m)),
      m_method = wm_method m, m_params = wm_params m, m_result = wm_result m,
      m_error = map_option rpc_error_of (wm_error m)\<rparr>"

definition wire_ws :: "ws_msg \<Rightarrow> bool" where
  "wire_ws m \<longleftrightarrow> utf8_valid (wm_id m) \<and> wire_message (rpc_form m)"

lemma web_error_members:
  "web_error_field e = map member_text (err_members ''error'' (map_option rpc_error_of e))"
  by (cases e) (simp_all add: web_error_field_def err_members_def error_members_def raw_member_def rpc_error_of_def)

lemma id_members:
  "utf8_valid s \<Longrightarrow> raw_members ''id'' (if s = [] then [] else makeID s) = str_members ''id'' s"
  by (simp add: raw_members_def str_members_def makeID_def json_unmarshal_quote)

lemma ws_marshal_rpc:
  assumes "wire_ws m"
  shows "ws_marshal m = marshalMessage (rpc_form m)"
proof -
  have w: "wire_message (rpc_form m)" "utf8_valid (wm_id m)" using assms by (simp_all add: wire_ws_def)
  then have "raw_field ''params'' (wm_params m) = Some (map member_text (raw_members ''params'' (wm_params m)))"
    "raw_field ''result'' (wm_result m) = Some (map member_text (raw_members ''result'' (wm_result m)))"
    by (auto simp: wire_message_def rpc_form_def intro!: raw_field_members(1))
  then show ?thesis
    using marshalMessage_members(1) [OF w(1)] id_members [OF w(2)]
    by (simp add: ws_marshal_def message_members_def rpc_form_def str_field_members web_error_members)
qed

lemma fill_ws_append:
  "fill_ws (xs @ ys) m = (case fill_ws xs m of None \<Rightarrow> None | Some m' \<Rightarrow> fill_ws ys m')"
  by (induction xs arbitrary: m) (auto split: option.split)

lemma fill_ws_fields:
  "wm_jsonrpc m = [] \<Longrightarrow> fill_ws (str_members ''jsonrpc'' s) m = Some (m\<lparr>wm_jsonrpc := s\<rparr>)"
  "wm_id m = [] \<Longrightarrow> fill_ws (str_members ''id'' s) m = Some (m\<lparr>wm_id := s\<rparr>)"
  "wm_method m = [] \<Longrightarrow> fill_ws (str_members ''method'' s) m = Some (m\<lparr>wm_method := s\<rparr>)"
  "wm_params m = [] \<Longrightarrow> fill_ws (raw_members ''params'' s) m = Some (m\<lparr>wm_params := s\<rparr>)"
  "wm_result m = [] \<Longrightarrow> fill_ws (raw_members ''result'' s) m = Some (m\<lparr>wm_result := s\<rparr>)"
  by (simp_all add: str_members_def raw_members_def ws_member_def store_string_def)

lemma fill_web_errors:
  assumes "wire_error (Some (rpc_error_of e))"
  shows "fill_web_error (error_members (rpc_error_of e)) \<lparr>we_code = 0, we_message = []\<rparr> = Some e"
  using assms
  by (simp add: wire_error_def rpc_error_of_def error_members_def raw_member_def web_error_member_def store_int_def
      store_string_def parse_int64_itoa)

lemma fill_ws_error:
  assumes "wm_error m = None" and "wire_error (map_option rpc_error_of e)"
  shows "fill_ws (err_members ''error'' (map_option rpc_error_of e)) m = Some (m\<lparr>wm_error := e\<rparr>)"
proof (cases e)
  case None
  with assms(1) show ?thesis by (simp add: err_members_def)
next
  case (Some r)
  with assms show ?thesis
    using wire_error_members [of "rpc_error_of r" "max_depth - 1"] fill_web_errors [of r]
    by (simp add: err_members_def ws_member_def store_web_error_def json_members_fields)
qed

lemma ws_unmarshal_members:
  assumes "list_all (member_parses (max_depth - 1)) ms"
  shows "ws_unmarshal (print_fields (map member_text ms)) = fill_ws ms empty_ws"
proof -
  have "json_unmarshal (print_fields (map member_text ms)) = Some (GObj (members_object ms))"
    by (rule json_unmarshal_parses [OF parses_fields [OF assms]]) (simp add: max_depth_def)
  then show ?thesis by (simp add: ws_unmarshal_def json_members_fields [OF assms])
qed

lemma ws_reads:
  assumes "wire_ws m"
  obtains data where "ws_marshal m = Inr data" "ws_unmarshal data = Some m"
    "marshalMessage (rpc_form m) = Inr data" "unmarshalMessage data = Some (rpc_form m)"
proof -
  have w: "wire_message (rpc_form m)" and u: "utf8_valid (wm_id m)" using assms by (simp_all add: wire_ws_def)
  obtain data where d: "marshalMessage (rpc_form m) = Inr data" "unmarshalMessage data = Some (rpc_form m)"
    by (rule frame_reads [OF w])
  have data: "data = print_fields (map member_text (message_members (rpc_form m)))"
    using d(1) marshalMessage_members(1) [OF w] by simp
  have "wire_error (map_option rpc_error_of (wm_error m))" using w by (simp add: wire_message_def rpc_form_def)
  then have "fill_ws (message_members (rpc_form m)) empty_ws = Some m"
    by (simp add: message_members_def rpc_form_def id_members [OF u] fill_ws_append fill_ws_fields fill_ws_error
        empty_ws_def)
  then have "ws_unmarshal data = Some m"
    using ws_unmarshal_members [OF marshalMessage_members(2) [OF w]] by (simp add: data)
  with d ws_marshal_rpc [OF assms] show thesis by (intro that) simp_all
qed

text \<open>
  C22: The two implementations write the same wire format where identifiers are strings: the
  bridge and \<^verbatim>\<open>pkg/holonrpc\<close> marshal an envelope with the same content to the same bytes, and
  each reads what the other wrote as that content.
\<close>

theorem web_envelopes_agree:
  assumes "wire_ws m"
  shows "\<exists>data. ws_marshal m = Inr data \<and> marshalMessage (rpc_form m) = Inr data \<and>
    ws_unmarshal data = Some m \<and> unmarshalMessage data = Some (rpc_form m)"
  by (rule ws_reads [OF assms]) blast

lemma web_envelopes_agree_witness:
  "\<exists>data. ws_marshal (ws_request ''s1'' ''m'' ''{}'') = Inr data \<and>
    ws_unmarshal data = Some (ws_request ''s1'' ''m'' ''{}'') \<and>
    unmarshalMessage data = Some (request_message (makeID ''s1'') ''m'' ''{}'')"
proof -
  have s: "utf8_valid ''s1''" by code_simp
  have "wire_message (request_message (makeID ''s1'') ''m'' (json_print (GObj [])))"
    by (rule request_reads [OF wire_raw_makeID [OF s] method_m(2) wire_empty_object])
  then have "wire_ws (ws_request ''s1'' ''m'' ''{}'')"
    using s by (simp add: wire_ws_def ws_request_def rpc_form_def empty_ws_def request_message_def empty_message_def
        jsonRPCVersion_def)
  from web_envelopes_agree [OF this] show ?thesis
    by (auto simp: ws_request_def rpc_form_def empty_ws_def request_message_def empty_message_def jsonRPCVersion_def)
qed

lemma ws_of_frame:
  assumes "wire_ws m" and "marshalMessage (rpc_form m) = Inr frame"
  shows "ws_unmarshal frame = Some m" and "ws_marshal m = Inr frame" and "unmarshalMessage frame = Some (rpc_form m)"
proof -
  obtain data where "ws_marshal m = Inr data" "ws_unmarshal data = Some m"
    "marshalMessage (rpc_form m) = Inr data" "unmarshalMessage data = Some (rpc_form m)"
    by (rule ws_reads [OF assms(1)])
  with assms(2) show "ws_unmarshal frame = Some m" and "ws_marshal m = Inr frame"
    and "unmarshalMessage frame = Some (rpc_form m)" by simp_all
qed

definition ws_result :: "string \<Rightarrow> bytes \<Rightarrow> ws_msg" where
  "ws_result rid result = empty_ws\<lparr>wm_jsonrpc := ''2.0'', wm_id := rid, wm_result := result\<rparr>"

lemma rpc_forms:
  "rid \<noteq> [] \<Longrightarrow> rpc_form (ws_request rid m params) = request_message (makeID rid) m params"
  "rid \<noteq> [] \<Longrightarrow> rpc_form (ws_result rid result) = result_message (makeID rid) result"
  "rid \<noteq> [] \<Longrightarrow> rpc_form (web_error_resp rid code message) = error_message (makeID rid) code message GNull"
  by (simp_all add: rpc_form_def ws_request_def ws_result_def web_error_resp_def request_message_def
      result_message_def error_message_def empty_ws_def empty_message_def jsonRPCVersion_def rpc_error_of_def)

lemma wire_ws_request:
  assumes "rid \<noteq> []" "utf8_valid rid" "utf8_valid m" "wire_any (GObj ps)" "depth (GObj ps) < max_depth"
  shows "wire_ws (ws_request rid m (json_print (GObj ps)))"
  using assms(1,2) request_reads [OF wire_raw_makeID [OF assms(2)] assms(3-5)] unfolding wire_ws_def
  by (simp add: rpc_forms(1) del: json_print.simps) (simp add: ws_request_def empty_ws_def)

lemma wire_ws_result:
  assumes "rid \<noteq> []" "utf8_valid rid" "wire_raw result"
  shows "wire_ws (ws_result rid result)"
  using assms unfolding wire_ws_def
  by (simp add: rpc_forms(2)) (simp add: ws_result_def empty_ws_def wire_message_def result_message_def
      empty_message_def wire_error_def)

lemma wire_ws_error:
  assumes "rid \<noteq> []" "utf8_valid rid" "- (2 ^ 63) \<le> code" "code < 2 ^ 63" "utf8_valid message"
  shows "wire_ws (web_error_resp rid code message)"
  using assms(1,2) error_message_wire [OF wire_raw_makeID [OF assms(2)] wire_error_plain [OF assms(3-5)]]
  unfolding wire_ws_def
  by (simp add: rpc_forms(3)) (simp add: web_error_resp_def empty_ws_def)

section \<open>Frames\<close>

text \<open>One frame, the envelope \<open>m\<close>, is written; both implementations read it as \<open>m\<close>; nothing else happens.\<close>

definition web_sends :: "ws_msg \<Rightarrow> webconn \<Rightarrow> webconn \<Rightarrow> bool" where
  "web_sends m c c' \<longleftrightarrow>
     (\<exists>data. ws_marshal m = Inr data \<and> ws_unmarshal data = Some m \<and> unmarshalMessage data = Some (rpc_form m) \<and>
       c' = c\<lparr>w_sent := w_sent c @ [data]\<rparr>)"

lemma web_respond_sends:
  assumes "w_ws c = None" and "wire_ws m"
  shows "web_sends m c (web_respond m c)"
proof -
  obtain data where "ws_marshal m = Inr data" "ws_unmarshal data = Some m" "unmarshalMessage data = Some (rpc_form m)"
    by (rule ws_reads [OF assms(2)])
  with assms(1) show ?thesis by (simp add: web_sends_def web_respond_def marshalWsResp_def web_write_def)
qed

lemma web_sends_frame:
  assumes "web_sends m c c'"
  obtains frame where "unmarshalMessage frame = Some (rpc_form m)" and "w_sent c' = w_sent c @ [frame]"
    and "ws_marshal m = Inr frame" and "ws_unmarshal frame = Some m"
  using assms that by (auto simp: web_sends_def)

section \<open>Calls of the bridge\<close>

abbreviation web_next :: "webconn \<Rightarrow> string" where
  "web_next c \<equiv> server_id (w_nextID c + 1)"

definition web_registered :: "webconn \<Rightarrow> webconn" where
  "web_registered c =
     c\<lparr>w_nextID := w_nextID c + 1, w_pend := snd (pend_register (web_next c) (w_pend c))\<rparr>"

definition web_new_call :: "webconn \<Rightarrow> wcall" where
  "web_new_call c = \<lparr>wc_id = web_next c, wc_chan = pd_next (w_pend c)\<rparr>"

lemma web_invoke_begin_eq:
  "web_invoke_begin m payload c =
     (case web_send (web_next c) m payload (web_registered c) of
        (Some e, c2) \<Rightarrow> (Inl e, wcall_done (web_new_call c) c2)
      | (None, c2) \<Rightarrow> (Inr (web_new_call c), c2))"
  by (simp add: web_invoke_begin_def Let_def web_registered_def web_new_call_def pend_register_fields
      cong: option.case_cong)

lemma server_id_nonempty [simp]: "server_id n \<noteq> []"
  by (simp add: server_id_def)

lemma web_call_answered:
  assumes "pend_inv (w_pend c)" and "w_ws c = None" and "mget (pd_map (w_pend c)) (web_next c) = None"
    and "ws_marshal (ws_request (web_next c) m p) = Inr frame"
    and "ws_unmarshal reply = Some (ws_result (web_next c) res)" and "res \<noteq> []"
  obtains c1 c2 c3 where "web_invoke_begin m (Some p) c = (Inr (web_new_call c), c1)"
    and "w_sent c1 = w_sent c @ [frame]" and "web_read_frame reply c1 = (None, c2)"
    and "web_invoke_end WakeResponse (web_new_call c) c2 = Some (Inr res, c3)"
    and "pd_map (w_pend c3) = pd_map (w_pend c)"
proof -
  let ?m = "ws_result (web_next c) res"
  let ?c1 = "(web_registered c)\<lparr>w_sent := w_sent c @ [frame]\<rparr>"
  let ?c2 = "?c1\<lparr>w_pend := pend_deliver (web_next c) ?m (w_pend ?c1)\<rparr>"
  obtain q where q: "pend_take (pd_next (w_pend c)) (w_pend ?c2) = Some (?m, q)"
      "pd_map (pend_remove (web_next c) q) = pd_map (w_pend c)"
    using call_answered [OF assms(1,3), of ?m] by (auto simp: web_registered_def)
  show thesis
  proof (rule that)
    show "web_invoke_begin m (Some p) c = (Inr (web_new_call c), ?c1)"
      using assms(2,4) by (simp add: web_invoke_begin_eq web_send_def web_write_def) (simp add: web_registered_def)
    show "w_sent ?c1 = w_sent c @ [frame]" by simp
    show "web_read_frame reply ?c1 = (None, ?c2)"
      using assms(5,6) by (simp add: web_read_frame_def web_handleResponse_def ws_result_def empty_ws_def)
    show "web_invoke_end WakeResponse (web_new_call c) ?c2 =
        Some (Inr res, wcall_done (web_new_call c) (?c2\<lparr>w_pend := q\<rparr>))"
      using q(1) by (simp add: web_invoke_end_def web_new_call_def web_result_def)
        (simp add: ws_result_def empty_ws_def)
    show "pd_map (w_pend (wcall_done (web_new_call c) (?c2\<lparr>w_pend := q\<rparr>))) = pd_map (w_pend c)"
      using q(2) by (simp add: wcall_done_def web_new_call_def)
  qed
qed

text \<open>
  C5: A call of the bridge on a client of \<^verbatim>\<open>pkg/holonrpc\<close>, through both programs. The one frame
  that \<open>WebConn.Invoke\<close> writes is one the client reads as a request, accepts the identifier
  of, and hands to its handler with the object of the payload; the frame with the handler's
  object is matched to the call, \<open>Invoke\<close> returns that object's JSON text, and the table of
  calls is what it was before.
\<close>

theorem bridge_calls_client:
  assumes bridge: "pend_inv (w_pend c)" "w_ws c = None" "mget (pd_map (w_pend c)) (web_next c) = None"
    and client: "client_writable r d" "mget (k_handlers d) (TrimSpace m) = Some h"
    and m: "TrimSpace m \<notin> {[], ''rpc.heartbeat''}" "utf8_valid m"
    and ps: "wire_any (GObj ps)" "depth (GObj ps) < max_depth"
    and out: "wire_any (GObj out)" "depth (GObj out) < max_depth"
  shows "\<exists>cl c1 frame msg reply c2 c3.
    web_invoke_begin m (Some (json_print (GObj ps))) c = (Inr cl, c1) \<and> w_sent c1 = w_sent c @ [frame] \<and>
    client_read_frame True frame r d = (Some msg, d) \<and> handleRequest r msg d = (Some (h, ps), d) \<and>
    n_sent (k_conns (client_handler_end r (m_id msg) (Inr (Some out)) d) r) = n_sent (k_conns d r) @ [reply] \<and>
    web_read_frame reply c1 = (None, c2) \<and>
    web_invoke_end WakeResponse cl c2 = Some (Inr (json_print (GObj out)), c3) \<and>
    pd_map (w_pend c3) = pd_map (w_pend c)"
proof -
  let ?id = "web_next c" and ?ps = "json_print (GObj ps)" and ?out = "json_print (GObj out)"
  note u = server_id_utf8 [of "w_nextID c + 1"]
  obtain frame where f: "ws_marshal (ws_request ?id m ?ps) = Inr frame"
    "unmarshalMessage frame = Some (request_message (makeID ?id) m ?ps)"
    using ws_reads [OF wire_ws_request [OF server_id_nonempty u m(2) ps]] by (auto simp: rpc_forms)
  obtain reply where r: "n_sent (k_conns (client_handler_end r (makeID ?id) (Inr (Some out)) d) r) =
      n_sent (k_conns d r) @ [reply]" "marshalMessage (result_message (makeID ?id) ?out) = Inr reply"
    by (rule client_answers_result [OF client(1) wire_raw_makeID [OF u] hasID_makeID out])
  have "wire_raw ?out" by (intro wire_raw_print wire_any_wf out)
  from ws_of_frame(1) [OF wire_ws_result [OF server_id_nonempty u this]] r(2)
  have reply: "ws_unmarshal reply = Some (ws_result ?id ?out)" by (simp add: rpc_forms)
  obtain c1 c2 c3 where i: "web_invoke_begin m (Some ?ps) c = (Inr (web_new_call c), c1)"
    "w_sent c1 = w_sent c @ [frame]" "web_read_frame reply c1 = (None, c2)"
    "web_invoke_end WakeResponse (web_new_call c) c2 = Some (Inr ?out, c3)" "pd_map (w_pend c3) = pd_map (w_pend c)"
    by (rule web_call_answered [OF bridge f(1) reply print_nonempty [OF wire_any_wf [OF out(1)]]])
  have "decodeStringID (makeID ?id) = Inr (CHR ''s'' # itoa (sint (w_nextID c + 1)))"
    using decodeStringID_makeID [OF u] by simp (simp add: server_id_def)
  note handled = client_request_handled [OF this m(1) ps(1) client(2) f(2), of r]
  have "m_id (request_message (makeID ?id) m ?ps) = makeID ?id" by (simp add: request_message_def)
  with handled r(1) i show ?thesis by metis
qed

definition answering :: "nat client" where
  "answering = client_Register ''m'' 5 online"

lemma answering_facts: "client_writable 0 answering" "mget (k_handlers answering) (TrimSpace ''m'') = Some 5"
  using online_facts(3,7) by (simp_all add: answering_def client_Register_def client_writable_def method_m)

lemma new_webconn_facts:
  "pend_inv (w_pend new_webconn)" "w_ws new_webconn = None" "w_sent new_webconn = []"
  "pd_map (w_pend new_webconn) = []"
  by (simp_all add: new_webconn_def pend_empty_def pend_inv_def wf_map_def)

lemma bridge_calls_client_witness:
  "\<exists>cl c1 frame msg reply c2 c3.
    web_invoke_begin ''m'' (Some ''{}'') new_webconn = (Inr cl, c1) \<and> w_sent c1 = [frame] \<and>
    client_read_frame True frame 0 answering = (Some msg, answering) \<and>
    handleRequest 0 msg answering = (Some (5, []), answering) \<and>
    web_read_frame reply c1 = (None, c2) \<and> web_invoke_end WakeResponse cl c2 = Some (Inr ''{}'', c3)"
proof -
  have fresh: "mget (pd_map (w_pend new_webconn)) (web_next new_webconn) = None"
    by (simp add: new_webconn_facts)
  have m: "TrimSpace ''m'' \<notin> {[], ''rpc.heartbeat''}" by (simp add: method_m)
  from bridge_calls_client [OF new_webconn_facts(1,2) fresh answering_facts m method_m(2) wire_empty_object
      wire_empty_object] show ?thesis by (simp add: new_webconn_facts) blast
qed

section \<open>Calls of the client\<close>

text \<open>What the bridge does to a request it has a handler for.\<close>

lemma bridge_request_handled:
  assumes "rid \<noteq> []" and "TrimSpace m \<notin> {[], ''rpc.heartbeat''}" and "p \<noteq> []"
    and "mget (b_handlers b) (TrimSpace m) = Some h" and "ws_unmarshal frame = Some (ws_request rid m p)"
  shows "web_read_frame frame w = (Some (ws_request rid m p), w)"
    and "web_handleRequest b (ws_request rid m p) w = (Some (h, p), w)"
proof -
  have "m \<noteq> []" using assms(2) by auto
  with assms(5) show "web_read_frame frame w = (Some (ws_request rid m p), w)"
    by (simp add: web_read_frame_def ws_request_def empty_ws_def)
  show "web_handleRequest b (ws_request rid m p) w = (Some (h, p), w)"
    using assms(2-4) by (simp add: web_handleRequest_def Let_def ws_request_def empty_ws_def)
qed

lemma web_handler_result:
  assumes "w_ws w = None" and "TrimSpace (wm_id msg) \<noteq> []" and "utf8_valid (wm_id msg)" and "wire_raw result"
  shows "web_sends (ws_result (wm_id msg) result) w (web_handler_end msg (Inr result) w)"
proof -
  have "wm_id msg \<noteq> []" using assms(2) by auto
  from web_respond_sends [OF assms(1) wire_ws_result [OF this assms(3,4)]] assms(2) show ?thesis
    by (simp add: web_handler_end_def ws_result_def)
qed

lemma TrimSpace_number: "solid c \<Longrightarrow> TrimSpace (c # itoa i) = c # itoa i"
proof -
  assume c: "solid c"
  have digits: "nat_digits n = butlast (nat_digits n) @ [last (nat_digits n)]" "solid (last (nat_digits n))" for n
  proof -
    have "is_digit (last (nat_digits n))" by (rule nat_digits_digits [OF last_in_set [OF nat_digits_nonempty]])
    then show "solid (last (nat_digits n))" by (simp add: is_digit_def solid_def)
  qed simp
  show ?thesis
  proof (cases "i < 0")
    case True
    then have "c # itoa i = c # (CHR ''-'' # butlast (nat_digits (nat (- i)))) @ [last (nat_digits (nat (- i)))]"
      by (simp add: itoa_def int_digits_def)
    then show ?thesis by (simp only: TrimSpace_solid(1) [OF c digits(2)])
  next
    case False
    then have "c # itoa i = c # butlast (nat_digits (nat i)) @ [last (nat_digits (nat i))]"
      by (simp add: itoa_def int_digits_def)
    then show ?thesis by (simp only: TrimSpace_solid(1) [OF c digits(2)])
  qed
qed

lemma c_next_id:
  "client_id n \<noteq> []" "TrimSpace (client_id n) \<noteq> []"
  using TrimSpace_number [of "CHR ''c''"] by (simp_all add: client_id_def solid_def)

text \<open>
  C6: A call of a client of \<^verbatim>\<open>pkg/holonrpc\<close> on the bridge, through both programs. The one frame
  that \<open>Client.Invoke\<close> writes is one the bridge reads as a request and hands to the handler of
  the trimmed name with the JSON text of the parameters; the frame with the object the handler
  returns is matched to the call, \<open>Invoke\<close> returns that object, and the client's table of
  calls is what it was before.
\<close>

theorem client_calls_bridge:
  assumes client: "client_inv c" "k_ws c = Some ws" "client_writable ws c"
      "mget (pd_map (k_pend c)) (c_next_key c) = None"
    and bridge: "w_ws w = None" "mget (b_handlers b) (TrimSpace m) = Some h"
    and m: "TrimSpace m \<notin> {[], ''rpc.heartbeat''}" "utf8_valid m"
    and ps: "wire_any (GObj ps)" "depth (GObj ps) < max_depth"
    and out: "wire_any (GObj out)" "depth (GObj out) < max_depth"
  shows "\<exists>cl c1 frame msg reply c2 c3.
    client_invoke_begin m (Some ps) c = (Inr cl, c1) \<and> n_sent (k_conns c1 ws) = n_sent (k_conns c ws) @ [frame] \<and>
    web_read_frame frame w = (Some msg, w) \<and> web_handleRequest b msg w = (Some (h, json_print (GObj ps)), w) \<and>
    w_sent (web_handler_end msg (Inr (json_print (GObj out))) w) = w_sent w @ [reply] \<and>
    client_read_frame True reply ws c1 = (None, c2) \<and>
    client_invoke_end WakeResponse cl c2 = Some (Inr out, c3) \<and> pd_map (k_pend c3) = pd_map (k_pend c)"
proof -
  let ?id = "client_id (k_nextClientID c + 1)" and ?ps = "json_print (GObj ps)" and ?out = "json_print (GObj out)"
  let ?msg = "ws_request ?id m ?ps"
  have key: "c_next_key c = makeID ?id" by (simp add: c_next_key_def)
  have name: "TrimSpace m \<noteq> []" using m(1) by auto
  have id: "wm_id ?msg = ?id" by (simp add: ws_request_def)
  have raw: "wire_raw ?out" by (intro wire_raw_print wire_any_wf out)
  have "web_sends (ws_result ?id ?out) w (web_handler_end ?msg (Inr ?out) w)"
    using web_handler_result [OF bridge(1), of ?msg, OF _ _ raw]
    by (simp add: id c_next_id client_id_utf8 del: json_print.simps)
  then obtain reply where r: "unmarshalMessage reply = Some (result_message (makeID ?id) ?out)"
    "w_sent (web_handler_end ?msg (Inr ?out) w) = w_sent w @ [reply]"
    by (rule web_sends_frame) (simp add: rpc_forms c_next_id)
  obtain cl c1 c2 c3 where i: "client_invoke_begin m (Some ps) c = (Inr cl, c1)"
    "client_sends ws (request_message (makeID ?id) m ?ps) (c_registered (makeID ?id) c) c1"
    "client_read_frame True reply ws c1 = (None, c2)"
    "client_invoke_end WakeResponse cl c2 = Some (decodeResult ?out, c3)" "pd_map (k_pend c3) = pd_map (k_pend c)"
    using client_invoke_answered [OF client(1-3) name m(2) ps client(4) out(1)] r(1) unfolding key by blast
  obtain frame where f: "n_sent (k_conns c1 ws) = n_sent (k_conns c ws) @ [frame]"
    "marshalMessage (request_message (makeID ?id) m ?ps) = Inr frame"
    using i(2) by (auto simp: client_sends_def upd_conn_def c_registered_def upd_pending_def)
  have "ws_unmarshal frame = Some ?msg"
    using ws_of_frame(1) [OF wire_ws_request [OF c_next_id(1) client_id_utf8 m(2) ps]] f(2)
    by (simp add: rpc_forms c_next_id)
  note h = bridge_request_handled [OF c_next_id(1) m(1) print_nonempty [OF wire_any_wf [OF ps(1)]] bridge(2) this, of w]
  have "decodeResult ?out = Inr out" using decodeResult_print [OF out(1)] by simp
  with h i f(1) r(2) show ?thesis by metis
qed

lemma client_calls_bridge_witness:
  "\<exists>cl c1 msg reply c2 c3.
    client_invoke_begin ''m'' (Some []) online = (Inr cl, c1) \<and>
    web_handleRequest (bridge_Register ''m'' (7::nat) NewWebBridge) msg new_webconn = (Some (7, ''{}''), new_webconn) \<and>
    w_sent (web_handler_end msg (Inr ''{}'') new_webconn) = [reply] \<and>
    client_read_frame True reply 0 c1 = (None, c2) \<and> client_invoke_end WakeResponse cl c2 = Some (Inr [], c3)"
proof -
  have fresh: "mget (pd_map (k_pend online)) (c_next_key online) = None"
    by (simp add: online_facts pend_empty_def)
  have h: "mget (b_handlers (bridge_Register ''m'' (7::nat) NewWebBridge)) (TrimSpace ''m'') = Some 7"
    by (simp add: bridge_Register_def NewWebBridge_def method_m)
  have m: "TrimSpace ''m'' \<notin> {[], ''rpc.heartbeat''}" by (simp add: method_m)
  from client_calls_bridge [OF online_facts(1-3) fresh new_webconn_facts(2) h m method_m(2) wire_empty_object
      wire_empty_object] show ?thesis by (simp add: new_webconn_facts) blast
qed

section \<open>Requests\<close>

text \<open>What the bridge answers to a request that it does not hand to a handler.\<close>

definition web_refusal :: "ws_msg \<Rightarrow> ('h, 'f) bridge \<Rightarrow> (int \<times> string) option" where
  "web_refusal msg b =
     (let m = TrimSpace (wm_method msg) in
      if wm_jsonrpc msg \<noteq> ''2.0'' \<or> m = [] then Some (- 32600, ''invalid request'')
      else if m = ''rpc.heartbeat'' then None
      else if mget (b_handlers b) m = None then Some (- 32601, ''method '' @ quote_q m @ '' not registered'')
      else None)"

lemma web_refused:
  assumes "ws_unmarshal data = Some msg" and "wm_method msg \<noteq> []" and "web_refusal msg b = Some (code, message)"
    and "c' = (if TrimSpace (wm_id msg) = [] then c else web_respond (web_error_resp (wm_id msg) code message) c)"
  shows "web_read_frame data c = (None, c') \<or>
    web_read_frame data c = (Some msg, c) \<and> web_handleRequest b msg c = (None, c')"
  using assms
  by (auto simp: web_read_frame_def web_handleRequest_def web_refusal_def Let_def split: if_splits option.splits)

text \<open>
  C26: Requests that the bridge refuses. When the table \<open>web_refusal\<close> gives a code and a message
  (wrong version or blank method: invalid request; no handler: method not registered), no
  handler runs; a request, one whose identifier is not blank, is answered with exactly one
  frame, the error with its identifier, which both implementations read; a notification with
  nothing.
\<close>

theorem web_refuses_requests:
  assumes "ws_unmarshal data = Some msg" and "wm_method msg \<noteq> []" and "web_refusal msg b = Some (code, message)"
    and "w_ws c = None" and "utf8_valid (wm_id msg)"
    and "- (2 ^ 63) \<le> code" and "code < 2 ^ 63" and "utf8_valid message"
  shows "\<exists>c'. (web_read_frame data c = (None, c') \<or>
      web_read_frame data c = (Some msg, c) \<and> web_handleRequest b msg c = (None, c')) \<and>
    (if TrimSpace (wm_id msg) = [] then c' = c else web_sends (web_error_resp (wm_id msg) code message) c c')"
proof -
  have "web_sends (web_error_resp (wm_id msg) code message) c (web_respond (web_error_resp (wm_id msg) code message) c)"
    if "TrimSpace (wm_id msg) \<noteq> []"
  proof -
    from that have "wm_id msg \<noteq> []" by auto
    from web_respond_sends [OF assms(4) wire_ws_error [OF this assms(5-8)]] show ?thesis .
  qed
  with web_refused [OF assms(1-3) refl, of c] show ?thesis by auto
qed

lemma web_refuses_requests_witness:
  "\<exists>data c'. web_read_frame data new_webconn = (Some (ws_request ''s1'' ''m'' ''{}''), new_webconn) \<and>
    web_handleRequest (NewWebBridge :: (nat, nat) bridge) (ws_request ''s1'' ''m'' ''{}'') new_webconn = (None, c') \<and>
    web_sends (web_error_resp ''s1'' (- 32601) (''method '' @ quote_q ''m'' @ '' not registered'')) new_webconn c'"
proof -
  let ?msg = "ws_request ''s1'' ''m'' ''{}''" and ?b = "NewWebBridge :: (nat, nat) bridge"
  have s: "utf8_valid ''s1''" by code_simp
  have "wire_ws ?msg" using wire_ws_request [OF _ s method_m(2) wire_empty_object] by simp
  then obtain data where d: "ws_unmarshal data = Some ?msg" by (rule ws_reads)
  have f: "wm_method ?msg = ''m''" "wm_id ?msg = ''s1''" "wm_jsonrpc ?msg = ''2.0''"
    by (simp_all add: ws_request_def empty_ws_def)
  have t: "TrimSpace ''s1'' = ''s1''"
    using TrimSpace_solid(1) [of "CHR ''s''" "CHR ''1''" "[]"] by (simp add: solid_def)
  have r: "web_refusal ?msg ?b = Some (- 32601, ''method '' @ quote_q ''m'' @ '' not registered'')"
    by (simp add: web_refusal_def f method_m NewWebBridge_def)
  have "utf8_valid ''method ''" "utf8_valid '' not registered''" by code_simp+
  then have u: "utf8_valid (''method '' @ quote_q ''m'' @ '' not registered'')"
    by (intro utf8_valid_append utf8_valid_quote method_m)
  obtain c' where c': "web_read_frame data new_webconn = (None, c') \<or>
      web_read_frame data new_webconn = (Some ?msg, new_webconn) \<and> web_handleRequest ?b ?msg new_webconn = (None, c')"
      "web_sends (web_error_resp ''s1'' (- 32601) (''method '' @ quote_q ''m'' @ '' not registered'')) new_webconn c'"
    using web_refuses_requests [OF d _ r new_webconn_facts(2) _ _ _ u] s by (auto simp: f t)
  have "web_read_frame data new_webconn = (Some ?msg, new_webconn)" by (simp add: web_read_frame_def d f)
  moreover from c' this have "web_handleRequest ?b ?msg new_webconn = (None, c')" by auto
  ultimately show ?thesis using c'(2) by blast
qed

text \<open>
  C28: The outcome of a bridge handler. A request is answered once, under its own identifier:
  with the JSON text of the result, or with the error, where only a \<open>*WebError\<close> itself keeps
  its code and message and any other error, one that wraps a \<open>*WebError\<close> included, becomes
  "internal error". A notification is never answered.
\<close>

theorem web_handler_answers:
  assumes "w_ws c = None" and "TrimSpace (wm_id msg) \<noteq> []" and "utf8_valid (wm_id msg)"
    and "\<And>e. out = Inl (FailWeb e) \<Longrightarrow> - (2 ^ 63) \<le> we_code e \<and> we_code e < 2 ^ 63 \<and> utf8_valid (we_message e)"
    and "\<And>r. out = Inr r \<Longrightarrow> wire_raw r"
  shows "(case out of
      Inl (FailWeb e) \<Rightarrow>
        web_sends (web_error_resp (wm_id msg) (we_code e) (we_message e)) c (web_handler_end msg out c)
    | Inl (FailGo e) \<Rightarrow>
        web_sends (web_error_resp (wm_id msg) (- 32603) ''internal error'') c (web_handler_end msg out c)
    | Inr r \<Rightarrow> web_sends (ws_result (wm_id msg) r) c (web_handler_end msg out c)) \<and>
    web_handler_end (msg\<lparr>wm_id := []\<rparr>) out c = c"
proof -
  have id: "wm_id msg \<noteq> []" using assms(2) by auto
  have err: "web_sends (web_error_resp (wm_id msg) code m) c (web_respond (web_error_resp (wm_id msg) code m) c)"
    if "- (2 ^ 63) \<le> code \<and> code < 2 ^ 63 \<and> utf8_valid m" for code m
    using web_respond_sends [OF assms(1) wire_ws_error [OF id assms(3)]] that by blast
  have "utf8_valid ''internal error''" by code_simp
  with assms(2,4) err web_handler_result [OF assms(1-3)] assms(5) show ?thesis
    by (auto simp: web_handler_end_def split: sum.split web_fail.split)
qed

lemma web_handler_answers_witness:
  "web_sends (web_error_resp ''s1'' (- 32603) ''internal error'') new_webconn
     (web_handler_end (ws_request ''s1'' ''m'' ''{}'') (Inl (FailGo (ErrText ''x''))) new_webconn)"
proof -
  have s: "utf8_valid ''s1''" by code_simp
  have t: "TrimSpace ''s1'' = ''s1''"
    using TrimSpace_solid(1) [of "CHR ''s''" "CHR ''1''" "[]"] by (simp add: solid_def)
  have f: "wm_id (ws_request ''s1'' ''m'' ''{}'') = ''s1''" by (simp add: ws_request_def)
  show ?thesis
    using web_handler_answers [OF new_webconn_facts(2), of "ws_request ''s1'' ''m'' ''{}''"
        "Inl (FailGo (ErrText ''x''))"] s by (simp add: f t)
qed

text \<open>The frame for a result that is nil, and the one for a result that is not JSON.\<close>

lemma client_ignores:
  assumes "unmarshalMessage reply = Some msg" and "m_method msg = []"
    and "m_result msg = [] \<and> m_error msg = None \<or> \<not> hasID (m_id msg)"
  shows "fst (client_read_frame True reply r c) = None \<and> k_pend (snd (client_read_frame True reply r c)) = k_pend c"
  using assms same_sendError [of c r "m_id msg" codeInvalidRequest "''invalid request''" GNull]
  by (auto simp: client_read_frame_def handleResponse_def same_calls_def hasID_idKey)

lemma broken_result_frame:
  obtains data where "marshalWsResp (ws_result rid result) = data \<or> json_valid result \<or> result = []"
    and "unmarshalMessage data = Some (rpc_form (web_error_resp [] (- 32603) ''internal error''))"
proof -
  let ?m = "web_error_resp [] (- 32603) ''internal error''"
  have u: "utf8_valid ''internal error''" "utf8_valid ''2.0''" by code_simp+
  have "wire_ws ?m"
    using u by (simp add: wire_ws_def rpc_form_def web_error_resp_def empty_ws_def wire_message_def wire_error_def
        rpc_error_of_def max_depth_def)
  then obtain data where d: "ws_marshal ?m = Inr data" "unmarshalMessage data = Some (rpc_form ?m)" by (rule ws_reads)
  have "ws_marshal ?m = Inr ''{\"jsonrpc\":\"2.0\",\"error\":{\"code\":-32603,\"message\":\"internal error\"}}''"
    by code_simp
  with d(1) have "data = marshalWsResp (ws_result rid result) \<or> json_valid result \<or> result = []"
    by (auto simp: marshalWsResp_def ws_marshal_def ws_result_def empty_ws_def raw_field_def marshal_raw_def)
  then show thesis using that [OF _ d(2)] by blast
qed

text \<open>
  C29: A handler of the bridge that returns a nil result, or one that is not JSON, leaves the
  caller waiting: a request is answered with one frame, which for nil has neither a result
  nor an error and otherwise has no identifier, and whatever the state of a client of
  \<^verbatim>\<open>pkg/holonrpc\<close>, reading it leaves all its waiting calls as they are.
\<close>

theorem web_empty_result_unanswered:
  assumes "w_ws c = None" and "TrimSpace (wm_id msg) \<noteq> []" and "utf8_valid (wm_id msg)"
    and "result = [] \<or> \<not> json_valid result"
  shows "\<exists>reply. w_sent (web_handler_end msg (Inr result) c) = w_sent c @ [reply] \<and>
    (\<forall>r (d :: 'h client). fst (client_read_frame True reply r d) = None \<and>
       k_pend (snd (client_read_frame True reply r d)) = k_pend d)"
proof -
  have "web_handler_end msg (Inr result) c = web_respond (ws_result (wm_id msg) result) c"
    using assms(2) by (simp add: web_handler_end_def ws_result_def)
  with assms(1) have sent: "w_sent (web_handler_end msg (Inr result) c) =
      w_sent c @ [marshalWsResp (ws_result (wm_id msg) result)]"
    by (simp add: web_respond_def web_write_def)
  have id: "wm_id msg \<noteq> []" using assms(2) by auto
  show ?thesis
  proof (cases "result = []")
    case True
    with wire_ws_result [OF id assms(3)] have "wire_ws (ws_result (wm_id msg) result)" by simp
    then obtain data where d: "ws_marshal (ws_result (wm_id msg) result) = Inr data"
      "unmarshalMessage data = Some (rpc_form (ws_result (wm_id msg) result))" by (rule ws_reads)
    have "m_method (rpc_form (ws_result (wm_id msg) result)) = []"
      "m_result (rpc_form (ws_result (wm_id msg) result)) = [] \<and> m_error (rpc_form (ws_result (wm_id msg) result)) = None"
      using True by (simp_all add: rpc_form_def ws_result_def empty_ws_def)
    then show ?thesis using client_ignores [OF d(2)] sent d(1) by (auto simp: marshalWsResp_def)
  next
    case False
    obtain data where d: "marshalWsResp (ws_result (wm_id msg) result) = data \<or> json_valid result \<or> result = []"
      "unmarshalMessage data = Some (rpc_form (web_error_resp [] (- 32603) ''internal error''))"
      by (rule broken_result_frame)
    have "m_method (rpc_form (web_error_resp [] (- 32603) ''internal error'')) = []"
      "\<not> hasID (m_id (rpc_form (web_error_resp [] (- 32603) ''internal error'')))"
      by (simp_all add: rpc_form_def web_error_resp_def empty_ws_def hasID_def)
    then show ?thesis using client_ignores [OF d(2)] sent d(1) False assms(4) by auto
  qed
qed

lemma web_empty_result_unanswered_witness:
  "\<exists>reply. w_sent (web_handler_end (ws_request ''s1'' ''m'' ''{}'') (Inr []) new_webconn) = [reply] \<and>
    k_pend (snd (client_read_frame True reply 0 online)) = k_pend online"
proof -
  have s: "utf8_valid ''s1''" by code_simp
  have t: "TrimSpace ''s1'' = ''s1''"
    using TrimSpace_solid(1) [of "CHR ''s''" "CHR ''1''" "[]"] by (simp add: solid_def)
  have f: "wm_id (ws_request ''s1'' ''m'' ''{}'') = ''s1''" by (simp add: ws_request_def)
  show ?thesis
    using web_empty_result_unanswered [OF new_webconn_facts(2), of "ws_request ''s1'' ''m'' ''{}''" "[]"] s
    by (auto simp: f t new_webconn_facts)
qed

section \<open>Frames the bridge does not read\<close>

lemma id_not_string:
  assumes "wire_message m" and "m_id m = json_print v" and "wire_any v" and "\<And>s. v \<noteq> GStr s" and "v \<noteq> GNull"
  shows "fill_ws (message_members m) empty_ws = None"
proof -
  have "m_id m \<noteq> []" using assms(2) print_nonempty [OF wire_any_wf [OF assms(3)]] by simp
  moreover have "json_unmarshal (m_id m) = Some v" using assms(2) json_round_trip [OF assms(3)] by simp
  ultimately have "raw_members ''id'' (m_id m) = [(''id'', m_id m, v)]" by (simp add: raw_members_def)
  moreover have "store_string old v = None" for old using assms(4,5) by (cases v) (auto simp: store_string_def)
  ultimately show ?thesis by (simp add: message_members_def fill_ws_append fill_ws_fields ws_member_def empty_ws_def)
qed

text \<open>
  The two implementations differ on identifiers that are not strings. An envelope of
  \<^verbatim>\<open>pkg/holonrpc\<close> whose identifier is a number, a boolean, an array or an object is one its
  server and client read; the bridge does not read it and answers it, notification or
  request, with "invalid request" without an identifier.
\<close>

lemma web_refuses_other_ids:
  assumes "wire_message m" and "m_id m = json_print v" and "wire_any v" and "\<And>s. v \<noteq> GStr s" and "v \<noteq> GNull"
    and "w_ws c = None"
  shows "\<exists>data c'. marshalMessage m = Inr data \<and> unmarshalMessage data = Some m \<and>
    idKey (m_id m) \<noteq> None \<and> ws_unmarshal data = None \<and> web_read_frame data c = (None, c') \<and>
    web_sends (web_error_resp [] (- 32600) ''invalid request'') c c'"
proof -
  obtain data where d: "marshalMessage m = Inr data" "unmarshalMessage data = Some m"
    by (rule frame_reads [OF assms(1)])
  have frame: "data = print_fields (map member_text (message_members m))"
    using d(1) marshalMessage_members(1) [OF assms(1)] by simp
  have no: "ws_unmarshal data = None"
    using ws_unmarshal_members [OF marshalMessage_members(2) [OF assms(1)]] id_not_string [OF assms(1-5)] by (simp add: frame)
  have "json_valid data" using d(2) by (auto simp: json_valid_def unmarshalMessage_def split: option.splits)
  with no have r: "web_read_frame data c = (None, web_respond (web_error_resp [] (- 32600) ''invalid request'') c)"
    by (simp add: web_read_frame_def)
  have "utf8_valid ''invalid request''" "utf8_valid ''2.0''" by code_simp+
  then have "wire_ws (web_error_resp [] (- 32600) ''invalid request'')"
    by (simp add: wire_ws_def rpc_form_def web_error_resp_def empty_ws_def wire_message_def wire_error_def
        rpc_error_of_def max_depth_def)
  from web_respond_sends [OF assms(6) this] d no r assms(2,5) hasID_print [OF assms(3)] show ?thesis
    by (auto simp: hasID_idKey)
qed

section \<open>Origins\<close>

lemma origins_map:
  assumes "wf_map m"
  shows "wf_map (foldl (\<lambda>m o'. mput o' True m) m os)"
    and "mget (foldl (\<lambda>m o'. mput o' True m) m os) x = (if x \<in> set os then Some True else mget m x)"
  using assms by (induction os arbitrary: m) (simp_all add: gomap)

lemma origins_keys: "mkeys (foldl (\<lambda>m o'. mput o' True m) [] os) = sorted_list_of_set (set os)"
proof -
  let ?m = "foldl (\<lambda>m o'. mput o' True m) [] os"
  have "sorted_wrt (<) (mkeys ?m)" using origins_map(1) [of "[]" os] by (simp add: wf_map_def mkeys_def)
  moreover have "set (mkeys ?m) = set os"
    by (auto simp: mkeys_mget origins_map(2) split: if_splits)
  ultimately show ?thesis by (metis sorted_list_of_set.idem_if_sorted_distinct strict_sorted_iff)
qed

text \<open>
  C30: The origin policy. After \<open>AllowOrigins\<close> with a list of origins, whatever was allowed
  before, a connection is upgraded only when its Origin header is one of them, and the
  websocket library is then given exactly them as patterns; any other origin gets the refusal.
  After \<open>AllowOrigins\<close> with no origin every connection is upgraded with the check of the
  library off. What a connection that joins starts with is a new connection and the callback.
\<close>

theorem web_origin_policy:
  "web_accept accept origin (AllowOrigins os b) =
    (if os \<noteq> [] \<and> origin \<notin> set os then OriginRefused
     else if accept (os = []) (sorted_list_of_set (set os)) then Admitted (b_onConnect b) new_webconn
     else UpgradeRefused)"
  by (auto simp: web_accept_def AllowOrigins_def origins_map(2) origins_keys)

end
