(* ===== verification/Tracked.thy ===== *)
theory Tracked
  imports ClientCalls
begin

text \<open>
  A list of calls under way against the table they are registered in: that the table keeps
  them apart and has lost none, and that its operations keep it so.
\<close>

text \<open>A list of calls, as key and channel, that a table keeps apart and has not lost.\<close>

definition tracked :: "'m pend \<Rightarrow> (bytes \<times> nat) list \<Rightarrow> bool" where
  "tracked p cs \<longleftrightarrow>
     distinct (map fst cs) \<and> distinct (map snd cs) \<and>
     (\<forall>(k, ch) \<in> set cs. ch < pd_next p \<and> (mget (pd_map p) k = Some ch \<or> pd_chans p ch \<noteq> None))"

lemma tracked_register:
  assumes "pend_inv p" and "tracked p cs" and "k \<notin> fst ` set cs"
  shows "tracked (snd (pend_register k p)) (cs @ [(k, pd_next p)])" and "tracked (snd (pend_register k p)) cs"
proof -
  have wf: "wf_map (pd_map p)" by (rule pend_inv_wf [OF assms(1)])
  have old: "j \<noteq> k \<and> ch < pd_next p \<and> (mget (pd_map p) j = Some ch \<or> pd_chans p ch \<noteq> None)"
    if "(j, ch) \<in> set cs" for j ch
    using assms(2,3) that by (force simp: tracked_def)
  have "pd_next p \<notin> snd ` set cs" using old by force
  then show new: "tracked (snd (pend_register k p)) (cs @ [(k, pd_next p)])"
    using assms(2,3) wf by (auto simp: tracked_def pend_register_fields dest: old)
  then show "tracked (snd (pend_register k p)) cs" by (auto simp: tracked_def)
qed

lemma tracked_deliver: "tracked p cs \<Longrightarrow> tracked (pend_deliver k m p) cs"
  by (auto simp: tracked_def pend_deliver_fields)

lemma tracked_remove:
  assumes "pend_inv p" and "tracked p cs" and "k \<notin> fst ` set cs"
  shows "tracked (pend_remove k p) cs"
  using assms pend_inv_wf [OF assms(1)] by (force simp: tracked_def pend_remove_fields)

lemma tracked_take:
  assumes "tracked p cs" and "pend_take ch p = Some (m, q)" and "ch \<notin> snd ` set cs"
  shows "tracked q cs"
  using assms by (force simp: tracked_def pend_take_fields)

lemma tracked_drop:
  assumes "tracked p cs" and "i < length cs"
  shows "tracked p (drop_nth i cs)" and "fst (cs ! i) \<notin> fst ` set (drop_nth i cs)"
    and "snd (cs ! i) \<notin> snd ` set (drop_nth i cs)"
proof -
  have d: "distinct (map fst cs)" "distinct (map snd cs)" using assms(1) by (simp_all add: tracked_def)
  note key = drop_nth_distinct [OF d(1) assms(2)] and ch = drop_nth_distinct [OF d(2) assms(2)]
  show "tracked p (drop_nth i cs)" using assms(1) key(1,3) ch(1) by (auto simp: tracked_def)
  show "fst (cs ! i) \<notin> fst ` set (drop_nth i cs)" using key(2) by force
  show "snd (cs ! i) \<notin> snd ` set (drop_nth i cs)" using ch(2) by force
qed

end
