(* ===== verification/WebCalls.thy ===== *)
theory WebCalls
  imports WebSpec Tracked
begin

text \<open>
  The running bridge connection: its steps, with the read loop, the goroutines of the requests
  and the calls under way interleaved at will, and the invariant of its calls.
\<close>

section \<open>Steps\<close>

text \<open>
  A connection with its goroutines: requests that the loop has handed over, handlers that run
  (each with the message it answers), and calls that wait.
\<close>

record 'h webworld =
  x_conn :: webconn
  x_reqs :: "ws_msg list"
  x_runs :: "('h \<times> bytes \<times> ws_msg) list"
  x_calls :: "wcall list"

definition new_webworld :: "'h webworld" where
  "new_webworld = \<lparr>x_conn = new_webconn, x_reqs = [], x_runs = [], x_calls = []\<rparr>"

text \<open>
  The handlers of the bridge may change at any time: a request comes with the bridge as it is
  when its goroutine looks.
\<close>

datatype ('h, 'f) web_event =
    WeFrame bytes
  | WeRequest nat "('h, 'f) bridge"
  | WeHandlerEnd nat "web_fail + bytes"
  | WeInvoke string "bytes option"
  | WeInvokeEnd wake nat
  | WeDisconnect
  | WeWrites "gerror option"

definition with_x :: "webconn \<Rightarrow> 'h webworld \<Rightarrow> 'h webworld" where
  "with_x c w = w\<lparr>x_conn := c\<rparr>"

fun web_happen :: "('h, 'f) web_event \<Rightarrow> 'h webworld \<Rightarrow> 'h webworld option" where
  "web_happen (WeFrame data) w =
     (if w_done (x_conn w) then None
      else
        (case web_read_frame data (x_conn w) of
           (msg, c) \<Rightarrow> Some ((with_x c w)\<lparr>x_reqs := x_reqs w @ (case msg of None \<Rightarrow> [] | Some m \<Rightarrow> [m])\<rparr>)))"
| "web_happen (WeRequest i b) w =
     (if i < length (x_reqs w) then
        (case web_handleRequest b (x_reqs w ! i) (x_conn w) of
           (q, c) \<Rightarrow>
             Some ((with_x c w)\<lparr>x_reqs := drop_nth i (x_reqs w),
               x_runs := x_runs w @ (case q of None \<Rightarrow> [] | Some (h, ps) \<Rightarrow> [(h, ps, x_reqs w ! i)])\<rparr>))
      else None)"
| "web_happen (WeHandlerEnd i out) w =
     (if i < length (x_runs w) then
        Some ((with_x (web_handler_end (snd (snd (x_runs w ! i))) out (x_conn w)) w)
          \<lparr>x_runs := drop_nth i (x_runs w)\<rparr>)
      else None)"
| "web_happen (WeInvoke mname payload) w =
     (case web_invoke_begin mname payload (x_conn w) of
        (r, c) \<Rightarrow> Some ((with_x c w)\<lparr>x_calls := x_calls w @ (case r of Inl _ \<Rightarrow> [] | Inr cl \<Rightarrow> [cl])\<rparr>))"
| "web_happen (WeInvokeEnd wk i) w =
     (if i < length (x_calls w) then
        map_option (\<lambda>(out, c). (with_x c w)\<lparr>x_calls := drop_nth i (x_calls w)\<rparr>)
          (web_invoke_end wk (x_calls w ! i) (x_conn w))
      else None)"
| "web_happen WeDisconnect w = Some (with_x (web_disconnect (x_conn w)) w)"
| "web_happen (WeWrites e) w = Some (with_x ((x_conn w)\<lparr>w_ws := e\<rparr>) w)"

inductive web_step :: "'h webworld \<Rightarrow> 'h webworld \<Rightarrow> bool" where
  web_step: "web_happen (e :: ('h, unit) web_event) w = Some w' \<Longrightarrow> web_step w w'"

inductive_cases web_stepE [elim!]: "web_step w w'"

abbreviation web_reach :: "nat \<Rightarrow> 'h webworld \<Rightarrow> bool" where
  "web_reach \<equiv> reach_in new_webworld web_step"

section \<open>The invariant\<close>

definition web_keys :: "wcall list \<Rightarrow> (bytes \<times> nat) list" where
  "web_keys = map (\<lambda>cl. (wc_id cl, wc_chan cl))"

definition web_inv :: "nat \<Rightarrow> webconn \<Rightarrow> wcall list \<Rightarrow> bool" where
  "web_inv n c cs \<longleftrightarrow>
     pend_inv (w_pend c) \<and> tracked (w_pend c) (web_keys cs) \<and> w_nextID c = of_nat n \<and>
     (\<forall>cl \<in> set cs. \<exists>j \<le> n. wc_id cl = server_id (of_nat j))"

text \<open>Operations that leave the calls of the connection alone.\<close>

definition same_web :: "webconn \<Rightarrow> webconn \<Rightarrow> bool" where
  "same_web c c' \<longleftrightarrow> w_pend c' = w_pend c \<and> w_nextID c' = w_nextID c"

lemma same_web_inv: "same_web c c' \<Longrightarrow> web_inv n c cs \<Longrightarrow> web_inv n c' cs"
  by (simp add: same_web_def web_inv_def)

lemma same_respond [simp]: "same_web c (web_respond resp c)"
  by (simp add: same_web_def web_respond_def web_write_def split: option.split)

lemma same_web_refl [simp]: "same_web c c"
  by (simp add: same_web_def)

lemma web_same_handleRequest: "web_handleRequest b msg c = (q, c') \<Longrightarrow> same_web c c'"
  by (auto simp: web_handleRequest_def Let_def split: if_splits option.splits)

lemma same_handler: "same_web c (web_handler_end msg out c)"
  by (simp add: web_handler_end_def)

lemma read_frame_inv:
  assumes "web_inv n c cs" and "web_read_frame data c = (msg, c')"
  shows "web_inv n c' cs"
proof -
  have "web_inv n (web_handleResponse m c) cs" for m
    using assms(1)
    by (simp add: web_inv_def web_handleResponse_def Let_def tracked_deliver pend_deliver_inv)
  with assms show ?thesis
    by (auto simp: web_read_frame_def split: if_splits option.splits intro: same_web_inv [OF same_respond])
qed

lemma server_id_inj: "server_id m = server_id n \<Longrightarrow> m = n"
  unfolding server_id_def by (auto dest!: itoa_inj intro: signed_word_eqI)

lemma web_registered_inv:
  assumes "web_inv n c cs" and "Suc n < 2 ^ 64"
  shows "web_inv (Suc n) (web_registered c) (cs @ [web_new_call c])"
    and "web_inv (Suc n) (wcall_done (web_new_call c) (web_registered c)) cs"
proof -
  have inv: "pend_inv (w_pend c)" "tracked (w_pend c) (web_keys cs)" "w_nextID c = of_nat n"
    and ids: "\<And>cl. cl \<in> set cs \<Longrightarrow> \<exists>j \<le> n. wc_id cl = server_id (of_nat j)"
    using assms(1) by (auto simp: web_inv_def)
  have new: "web_next c = server_id (of_nat (Suc n))" using inv(3) by (simp add: add.commute)
  have fresh: "web_next c \<notin> fst ` set (web_keys cs)"
  proof
    assume "web_next c \<in> fst ` set (web_keys cs)"
    then obtain cl where "cl \<in> set cs" "wc_id cl = server_id (of_nat (Suc n))"
      unfolding new by (auto simp: web_keys_def)
    with ids obtain j where "j \<le> n" "server_id (of_nat j) = server_id (of_nat (Suc n))" by metis
    then have "j = Suc n" using assms(2) by (intro of_nat_word64_inj [OF server_id_inj]) auto
    with \<open>j \<le> n\<close> show False by simp
  qed
  note reg = tracked_register [OF inv(1,2) fresh] and pinv = pend_register_inv [OF inv(1), of "web_next c"]
  have old: "\<exists>j \<le> Suc n. wc_id cl = server_id (of_nat j)" if "cl \<in> set cs" for cl
    using ids [OF that] le_SucI by blast
  have count: "w_nextID (web_registered c) = of_nat (Suc n)"
    using inv(3) by (simp add: web_registered_def add.commute)
  have pend: "w_pend (web_registered c) = snd (pend_register (web_next c) (w_pend c))"
    by (simp add: web_registered_def)
  show "web_inv (Suc n) (web_registered c) (cs @ [web_new_call c])"
    using reg(1) pinv old count new
    by (auto simp: web_inv_def pend web_keys_def web_new_call_def simp del: of_nat_Suc)
  have "tracked (pend_remove (web_next c) (w_pend (web_registered c))) (web_keys cs)"
    using tracked_remove [OF pinv reg(2) fresh] by (simp add: pend)
  then show "web_inv (Suc n) (wcall_done (web_new_call c) (web_registered c)) cs"
    using pinv old count
    by (auto simp: web_inv_def wcall_done_def pend web_new_call_def pend_remove_inv simp del: of_nat_Suc)
qed

lemma web_send_same: "web_send rid m payload c = (e, c') \<Longrightarrow> same_web c c'"
  by (auto simp: web_send_def web_write_def same_web_def split: sum.splits option.splits)

lemma invoke_begin_inv:
  assumes "web_inv n c cs" and "Suc n < 2 ^ 64" and "web_invoke_begin m payload c = (r, c')"
  shows "web_inv (Suc n) c' (cs @ (case r of Inl _ \<Rightarrow> [] | Inr cl \<Rightarrow> [cl]))"
proof -
  obtain e c2 where s: "web_send (web_next c) m payload (web_registered c) = (e, c2)" by force
  note same = web_send_same [OF s] and new = web_registered_inv [OF assms(1,2)]
  show ?thesis
  proof (cases e)
    case None
    with assms(3) s have "r = Inr (web_new_call c)" "c' = c2" by (simp_all add: web_invoke_begin_eq)
    with same_web_inv [OF same new(1)] show ?thesis by simp
  next
    case (Some err)
    with assms(3) s have r: "r = Inl err" "c' = wcall_done (web_new_call c) c2" by (simp_all add: web_invoke_begin_eq)
    have "same_web (wcall_done (web_new_call c) (web_registered c)) (wcall_done (web_new_call c) c2)"
      using same by (simp add: same_web_def wcall_done_def)
    from same_web_inv [OF this new(2)] r show ?thesis by simp
  qed
qed

lemma invoke_end_inv:
  assumes "web_inv n c cs" and "i < length cs" and "web_invoke_end wk (cs ! i) c = Some (out, c')"
  shows "web_inv n c' (drop_nth i cs)"
proof -
  let ?cl = "cs ! i"
  have inv: "pend_inv (w_pend c)" "tracked (w_pend c) (web_keys cs)" using assms(1) by (simp_all add: web_inv_def)
  have keys: "web_keys (drop_nth i cs) = drop_nth i (web_keys cs)" "web_keys cs ! i = (wc_id ?cl, wc_chan ?cl)"
    using assms(2) by (simp_all add: web_keys_def drop_nth_def take_map drop_map)
  have len: "i < length (web_keys cs)" using assms(2) by (simp add: web_keys_def)
  note dropped = tracked_drop [OF inv(2) len, folded keys(1), unfolded keys(2) fst_conv snd_conv]
  have sub: "set (drop_nth i cs) \<subseteq> set cs"
    unfolding drop_nth_def using set_take_subset [of i cs] set_drop_subset [of "Suc i" cs] by auto
  obtain q where q: "c' = wcall_done ?cl (c\<lparr>w_pend := q\<rparr>)" "q = w_pend c \<or> (\<exists>m. pend_take (wc_chan ?cl) (w_pend c) = Some (m, q))"
    using assms(3) that [of "w_pend c"] that
    by (auto simp: web_invoke_end_def split: wake.splits option.splits if_splits)
  then have "pend_inv q" "tracked q (web_keys (drop_nth i cs))"
    using inv(1) dropped pend_take_inv [OF inv(1)] tracked_take [OF dropped(1) _ dropped(3)] by auto
  then show ?thesis
    using assms(1) sub q(1) tracked_remove [of q, OF _ _ dropped(2)]
    by (auto simp: web_inv_def wcall_done_def pend_remove_inv)
qed

definition webworld_inv :: "nat \<Rightarrow> 'h webworld \<Rightarrow> bool" where
  "webworld_inv n w \<longleftrightarrow> (\<exists>k \<le> n. web_inv k (x_conn w) (x_calls w))"

lemma web_happen_inv:
  assumes "webworld_inv n w" and "web_happen e w = Some w'" and "Suc n < 2 ^ 64"
  shows "webworld_inv (Suc n) w'"
proof -
  obtain k where k: "k \<le> n" "web_inv k (x_conn w) (x_calls w)" using assms(1) by (auto simp: webworld_inv_def)
  then have le: "k \<le> Suc n" "Suc k \<le> Suc n" "Suc k < 2 ^ 64" using assms(3) by auto
  show ?thesis
  proof (cases e)
    case (WeFrame data)
    with assms(2) read_frame_inv [OF k(2)] le(1) show ?thesis
      by (auto simp: webworld_inv_def with_x_def split: if_splits prod.splits)
  next
    case (WeRequest i b)
    obtain q c where q: "web_handleRequest b (x_reqs w ! i) (x_conn w) = (q, c)" by force
    with same_web_inv [OF web_same_handleRequest [OF q] k(2)] WeRequest assms(2) le(1) show ?thesis
      by (auto simp: webworld_inv_def with_x_def split: if_splits)
  next
    case (WeHandlerEnd i out)
    with assms(2) same_web_inv [OF same_handler k(2)] le(1) show ?thesis
      by (auto simp: webworld_inv_def with_x_def split: if_splits)
  next
    case (WeInvoke m payload)
    with assms(2) invoke_begin_inv [OF k(2) le(3)] le(2) show ?thesis
      by (auto simp: webworld_inv_def with_x_def split: prod.splits)
  next
    case (WeInvokeEnd wk i)
    with assms(2) invoke_end_inv [OF k(2)] le(1) show ?thesis
      by (auto simp: webworld_inv_def with_x_def split: if_splits)
  next
    case WeDisconnect
    with assms(2) k(2) le(1) show ?thesis by (auto simp: webworld_inv_def with_x_def web_disconnect_def web_inv_def)
  next
    case (WeWrites e)
    with assms(2) k(2) le(1) show ?thesis by (auto simp: webworld_inv_def with_x_def web_inv_def)
  qed
qed

interpretation wc: bounded_system new_webworld web_step webworld_inv "2 ^ 64 - 1"
proof
  have "web_inv 0 new_webconn []"
    by (simp add: web_inv_def new_webconn_facts tracked_def web_keys_def) (simp add: new_webconn_def)
  then show "webworld_inv 0 (new_webworld :: 'a webworld)" by (auto simp: webworld_inv_def new_webworld_def)
  fix n and w w' :: "'a webworld"
  assume "n < 2 ^ 64 - 1" "webworld_inv n w" "web_step w w'"
  then show "webworld_inv (Suc n) w'" by (auto intro: web_happen_inv)
qed

section \<open>The calls of the running connection\<close>

text \<open>
  C9: In every state a bridge connection reaches in fewer than 2 to the 64 steps, whatever the
  browser sends and however frames, handlers and calls interleave, two waiting calls never
  share an identifier and no call is forgotten: the table still leads its identifier to its
  channel, or its answer is there and it can return. When the connection has ended every
  waiting call can return, with the error "connection closed".
\<close>

theorem web_calls_never_lost:
  assumes "web_reach n w" and "n < 2 ^ 64" and "i < length (x_calls w)" and "j < length (x_calls w)"
    and "cl = x_calls w ! i"
  shows "(wc_id cl = wc_id (x_calls w ! j) \<longleftrightarrow> i = j) \<and>
    (mget (pd_map (w_pend (x_conn w))) (wc_id cl) = Some (wc_chan cl) \<or>
     (\<exists>out c. web_invoke_end WakeResponse cl (x_conn w) = Some (out, c))) \<and>
    (w_done (x_conn w) \<longrightarrow>
     (\<exists>c. web_invoke_end WakePeerGone cl (x_conn w) =
        Some (Inl (FailGo (ErrText ''wsweb: connection closed'')), c)))"
proof -
  obtain k where k: "web_inv k (x_conn w) (x_calls w)"
    using wc.reachable_good [OF assms(1)] assms(2) by (auto simp: webworld_inv_def)
  then have "distinct (map wc_id (x_calls w))" and
    "mget (pd_map (w_pend (x_conn w))) (wc_id cl) = Some (wc_chan cl) \<or> pd_chans (w_pend (x_conn w)) (wc_chan cl) \<noteq> None"
    using assms(3,5) nth_mem [OF assms(3)] by (auto simp: web_inv_def tracked_def web_keys_def comp_def)
  then show ?thesis
    using assms(3-5) nth_eq_iff_index_eq [of "map wc_id (x_calls w)" i j]
    by (auto simp: web_invoke_end_def pend_take_def split: option.split)
qed

lemma web_calls_never_lost_witness:
  "\<exists>w :: nat webworld. web_reach 1 w \<and> x_calls w = [web_new_call new_webconn] \<and>
    (mget (pd_map (w_pend (x_conn w))) ''s1'' = Some 0 \<or>
     (\<exists>out c. web_invoke_end WakeResponse (web_new_call new_webconn) (x_conn w) = Some (out, c)))"
proof -
  have s1: "web_next new_webconn = ''s1''"
    by (simp add: new_webconn_def server_id_def itoa_def int_digits_def nat_digits.simps digit_def)
  have "wire_ws (ws_request (web_next new_webconn) ''m'' ''{}'')"
    using wire_ws_request [OF server_id_nonempty server_id_utf8 method_m(2) wire_empty_object] by simp
  then obtain data where "ws_marshal (ws_request (web_next new_webconn) ''m'' ''{}'') = Inr data" by (rule ws_reads)
  then have b: "\<exists>c1. web_invoke_begin ''m'' None new_webconn = (Inr (web_new_call new_webconn), c1)"
    using new_webconn_facts(2)
    by (simp add: web_invoke_begin_eq web_send_def web_write_def web_registered_def)
  then obtain c1 where "web_invoke_begin ''m'' None new_webconn = (Inr (web_new_call new_webconn), c1)" by blast
  then have "web_happen (WeInvoke ''m'' None :: (nat, unit) web_event) new_webworld =
      Some \<lparr>x_conn = c1, x_reqs = [], x_runs = [], x_calls = [web_new_call new_webconn]\<rparr>"
    by (simp add: new_webworld_def with_x_def)
  then have w: "web_reach (Suc 0) \<lparr>x_conn = c1, x_reqs = [], x_runs = [] :: (nat \<times> bytes \<times> ws_msg) list,
      x_calls = [web_new_call new_webconn]\<rparr>"
    by (intro reach_move [OF reach_start] web_step)
  have f: "wc_id (web_new_call new_webconn) = ''s1''" "wc_chan (web_new_call new_webconn) = 0"
    by (simp_all add: web_new_call_def s1) (simp add: new_webconn_def pend_empty_def)
  from web_calls_never_lost [OF w, of 0 0] w show ?thesis by (auto simp: f)
qed

end
