(* ===== verification/Session.thy ===== *)
theory Session
  imports ClientRequests Tracked "HOL-Library.Multiset"
begin

text \<open>
  A client and a server joined by a connection: both programs run, the frames in flight are two
  queues, and calls, frames and handlers interleave at will. The specification is a service
  that answers calls at once; the simulation between the two is the invariant of this theory.
\<close>

section \<open>The two programs and the connection\<close>

text \<open>
  The client with the connection \<open>ws\<close>, the server with the peer \<open>ref\<close>, the frames on their way
  up and down, the goroutines of the server that answer requests, and the calls of the client
  with what they asked.
\<close>

record ('k, 'h) session =
  q_c :: "'k client"
  q_s :: "'h server"
  q_up :: "bytes list"
  q_down :: "bytes list"
  q_tasks :: "'h task list"
  q_calls :: "(ccall \<times> string \<times> object) list"

datatype session_event =
    SeCall string object
  | SeUp
  | SeFinish nat
  | SeDown
  | SeReturn nat
  | SeGiveUp nat gerror

datatype session_label =
    Called string object
  | Returned string object "object res"
  | GaveUp string object

text \<open>
  The requests of the session: methods that are not built in and parameters without routing
  hints, of which JSON can carry the texts.
\<close>

definition plain :: "string \<Rightarrow> object \<Rightarrow> bool" where
  "plain m ps \<longleftrightarrow>
     utf8_valid m \<and> utf8_valid (TrimSpace m) \<and> TrimSpace m \<notin> {[], ''rpc.heartbeat'', ''rpc.peers''} \<and>
     \<not> HasPrefix ''*.'' (TrimSpace m) \<and> wire_any (GObj ps) \<and> depth (GObj ps) < max_depth \<and>
     mget ps ''_routing'' = None \<and> mget ps ''_peer'' = None"

definition news :: "bytes list \<Rightarrow> bytes list \<Rightarrow> bytes list" where
  "news old new = drop (length old) new"

text \<open>
  One step. \<open>F\<close> is what the handlers return. What an operation writes to the connection joins
  the frames in flight; a frame is read when it is the first of its queue. The goroutine of a
  request runs up to its handler when the frame is read, and ends in any order; \<open>None\<close> where a
  step is not possible, or leaves the session: no request travels down, as the server makes no
  calls of its own here.
\<close>

fun session_step ::
    "('h \<Rightarrow> object \<Rightarrow> object option res) \<Rightarrow> nat \<Rightarrow> nat \<Rightarrow> session_event \<Rightarrow> ('k, 'h) session \<Rightarrow>
     (session_label option \<times> ('k, 'h) session) option" where
  "session_step F ws ref (SeCall m ps) q =
     (if \<not> plain m ps then None
      else
        (case client_invoke_begin m (Some ps) (q_c q) of
           (r, c) \<Rightarrow>
             Some ((case r of Inl e \<Rightarrow> None | Inr cl \<Rightarrow> Some (Called m ps)),
               q\<lparr>q_c := c, q_up := q_up q @ news (n_sent (k_conns (q_c q) ws)) (n_sent (k_conns c ws)),
                 q_calls := q_calls q @ (case r of Inl e \<Rightarrow> [] | Inr cl \<Rightarrow> [(cl, m, ps)])\<rparr>)))"
| "session_step F ws ref SeUp q =
     (case q_up q of
        [] \<Rightarrow> None
      | f # fs \<Rightarrow>
          (case read_frame True f ref (q_s q) of
             (msg, s1) \<Rightarrow>
               (case (case msg of None \<Rightarrow> (None, s1) | Some m \<Rightarrow> handlePeerRequest ref m s1) of
                  (t, s2) \<Rightarrow>
                    Some (None,
                      q\<lparr>q_s := s2, q_up := fs,
                        q_down := q_down q @ news (p_sent (s_heap (q_s q) ref)) (p_sent (s_heap s2 ref)),
                        q_tasks := q_tasks q @ (case t of None \<Rightarrow> [] | Some x \<Rightarrow> [x])\<rparr>))))"
| "session_step F ws ref (SeFinish i) q =
     (if i < length (q_tasks q) then
        (case q_tasks q ! i of
           HandlerTask r key h ps \<Rightarrow>
             (let s = handler_end r key (F h ps) (q_s q) in
              Some (None,
                q\<lparr>q_s := s, q_down := q_down q @ news (p_sent (s_heap (q_s q) ref)) (p_sent (s_heap s ref)),
                  q_tasks := drop_nth i (q_tasks q)\<rparr>))
         | _ \<Rightarrow> None)
      else None)"
| "session_step F ws ref SeDown q =
     (case q_down q of
        [] \<Rightarrow> None
      | f # fs \<Rightarrow>
          (case client_read_frame True f ws (q_c q) of
             (None, c) \<Rightarrow>
               Some (None,
                 q\<lparr>q_c := c, q_down := fs,
                   q_up := q_up q @ news (n_sent (k_conns (q_c q) ws)) (n_sent (k_conns c ws))\<rparr>)
           | (Some msg, c) \<Rightarrow> None))"
| "session_step F ws ref (SeReturn i) q =
     (if i < length (q_calls q) then
        (case q_calls q ! i of
           (cl, m, ps) \<Rightarrow>
             map_option (\<lambda>(out, c). (Some (Returned m ps out), q\<lparr>q_c := c, q_calls := drop_nth i (q_calls q)\<rparr>))
               (client_invoke_end WakeResponse cl (q_c q)))
      else None)"
| "session_step F ws ref (SeGiveUp i e) q =
     (if i < length (q_calls q) then
        (case q_calls q ! i of
           (cl, m, ps) \<Rightarrow>
             map_option (\<lambda>(out, c). (Some (GaveUp m ps), q\<lparr>q_c := c, q_calls := drop_nth i (q_calls q)\<rparr>))
               (client_invoke_end (WakeCtx e) cl (q_c q)))
      else None)"

section \<open>The service\<close>

text \<open>
  The specification: calls that are open, each with its method and parameters; a call returns
  what the service answers to them, or is given up.
\<close>

fun service_step ::
    "(string \<Rightarrow> object \<Rightarrow> object res) \<Rightarrow> session_label \<Rightarrow> (string \<times> object) multiset \<Rightarrow>
     (string \<times> object) multiset option" where
  "service_step f (Called m ps) A = Some (add_mset (m, ps) A)"
| "service_step f (Returned m ps out) A =
     (if (m, ps) \<in># A \<and> out = f m ps then Some (A - {#(m, ps)#}) else None)"
| "service_step f (GaveUp m ps) A = (if (m, ps) \<in># A then Some (A - {#(m, ps)#}) else None)"

text \<open>What the handlers of the server make of a call, and what its caller gets for that.\<close>

definition outcome_of ::
    "(string, 'h) gmap \<Rightarrow> ('h \<Rightarrow> object \<Rightarrow> object option res) \<Rightarrow> string \<Rightarrow> object \<Rightarrow> object option res" where
  "outcome_of H F m ps =
     (case mget H (TrimSpace m) of
        None \<Rightarrow> Inl (rpc_err codeMethodNotFound (''method '' @ quote_q (TrimSpace m) @ '' not found''))
      | Some h \<Rightarrow> F h ps)"

fun result_of :: "object option res \<Rightarrow> object res" where
  "result_of (Inl e) = Inl (ErrRPC (handler_error e))"
| "result_of (Inr None) = Inr []"
| "result_of (Inr (Some ms)) = Inr ms"

definition answers ::
    "(string, 'h) gmap \<Rightarrow> ('h \<Rightarrow> object \<Rightarrow> object option res) \<Rightarrow> string \<Rightarrow> object \<Rightarrow> object res" where
  "answers H F m ps = result_of (outcome_of H F m ps)"

section \<open>Replies\<close>

text \<open>Outcomes the server answers, with a frame that JSON can carry.\<close>

fun good_outcome :: "object option res \<Rightarrow> bool" where
  "good_outcome (Inl e) \<longleftrightarrow> \<not> is_canceled e \<and> \<not> is_deadline e \<and> wire_error (Some (handler_error e))"
| "good_outcome (Inr None) \<longleftrightarrow> True"
| "good_outcome (Inr (Some ms)) \<longleftrightarrow> wire_any (GObj ms) \<and> depth (GObj ms) < max_depth"

fun reply :: "bytes \<Rightarrow> object option res \<Rightarrow> rpc_message" where
  "reply key (Inl e) =
     error_message key (re_code (handler_error e)) (re_message (handler_error e)) (re_data (handler_error e))"
| "reply key (Inr None) = result_message key ''null''"
| "reply key (Inr (Some ms)) = result_message key (json_print (GObj ms))"

lemma handler_error_rpc_err [simp]:
  "handler_error (rpc_err c t) = \<lparr>re_code = c, re_message = t, re_data = GNull\<rparr>"
  "is_canceled (rpc_err c t) = False" "is_deadline (rpc_err c t) = False"
  by (simp_all add: handler_error_def rpc_err_def)

lemma reply_fields:
  "m_id (reply key out) = key" "m_jsonrpc (reply key out) = jsonRPCVersion" "m_method (reply key out) = []"
  by (cases "(key, out)" rule: reply.cases; simp add: error_message_def result_message_def empty_message_def)+

lemma reply_response:
  "m_result (reply key out) = [] \<and> m_error (reply key out) = None \<Longrightarrow> \<not> good_outcome out"
  by (cases "(key, out)" rule: reply.cases)
    (auto simp: error_message_def result_message_def empty_message_def)

lemma reply_result: "good_outcome out \<Longrightarrow> response_result (reply key out) = result_of out"
proof (cases "(key, out)" rule: reply.cases)
  case (1 key e)
  then show ?thesis by (simp add: response_result_def error_message_def empty_message_def)
next
  case (2 key)
  then show ?thesis using decodeResult_print [OF wire_null]
    by (simp add: response_result_def result_message_def empty_message_def)
next
  case (3 key ms)
  moreover assume "good_outcome out"
  ultimately show ?thesis using result_reads [of ms key] by (simp del: json_print.simps)
qed

lemma handler_end_reply:
  assumes "writable ref s" and "wire_raw key" and "hasID key" and "good_outcome out"
  shows "sends_message ref (reply key out) s (handler_end ref key out s)"
proof (cases "(key, out)" rule: reply.cases)
  case (1 key' e)
  with assms handler_error_sent [OF assms(1-3), of e] show ?thesis by simp
next
  case (2 key')
  with nil_result_sends_null [OF assms(1-3)] show ?thesis by simp
next
  case (3 key' ms)
  with assms sendPeerResult_message [OF assms(1,2), of ms] show ?thesis
    by (simp add: handler_end_def del: json_print.simps)
qed

end
