(* ===== verification/SessionSpec.thy ===== *)
theory SessionSpec
  imports Session
begin

text \<open>
  The invariant of the session and its two properties: what the calls return is what the
  service answers, and without new calls the session comes to rest with every call answered.
\<close>

section \<open>Calls on their way\<close>

text \<open>\<open>K key m ps\<close>: the call with the identifier \<open>key\<close> asked for \<open>m\<close> with \<open>ps\<close>.\<close>

type_synonym asked = "bytes \<Rightarrow> string \<Rightarrow> object \<Rightarrow> bool"

definition up_ok :: "asked \<Rightarrow> bytes \<Rightarrow> bytes \<Rightarrow> bool" where
  "up_ok K key f \<longleftrightarrow>
     (\<exists>m ps. K key m ps \<and> unmarshalMessage f = Some (request_message key m (json_print (GObj ps))))"

definition task_ok :: "(string, 'h) gmap \<Rightarrow> nat \<Rightarrow> asked \<Rightarrow> bytes \<Rightarrow> 'h task \<Rightarrow> bool" where
  "task_ok H ref K key t \<longleftrightarrow>
     (\<exists>m ps h. K key m ps \<and> mget H (TrimSpace m) = Some h \<and> t = HandlerTask ref key h ps)"

definition down_ok ::
    "(string, 'h) gmap \<Rightarrow> ('h \<Rightarrow> object \<Rightarrow> object option res) \<Rightarrow> asked \<Rightarrow> bytes \<Rightarrow> bytes \<Rightarrow> bool" where
  "down_ok H F K key f \<longleftrightarrow>
     (\<exists>m ps. K key m ps \<and> unmarshalMessage f = Some (reply key (outcome_of H F m ps)))"

definition flow_ok ::
    "(string, 'h) gmap \<Rightarrow> ('h \<Rightarrow> object \<Rightarrow> object option res) \<Rightarrow> nat \<Rightarrow> asked \<Rightarrow> ('k, 'h) session \<Rightarrow> bool" where
  "flow_ok H F ref K q \<longleftrightarrow>
     (\<forall>f \<in> set (q_up q). \<exists>key. up_ok K key f) \<and> (\<forall>t \<in> set (q_tasks q). \<exists>key. task_ok H ref K key t) \<and>
     (\<forall>f \<in> set (q_down q). \<exists>key. down_ok H F K key f)"

definition in_flight ::
    "(string, 'h) gmap \<Rightarrow> ('h \<Rightarrow> object \<Rightarrow> object option res) \<Rightarrow> nat \<Rightarrow> asked \<Rightarrow> bytes \<Rightarrow> ('k, 'h) session \<Rightarrow> bool" where
  "in_flight H F ref K key q \<longleftrightarrow>
     (\<exists>f \<in> set (q_up q). up_ok K key f) \<or> (\<exists>t \<in> set (q_tasks q). task_ok H ref K key t) \<or>
     (\<exists>f \<in> set (q_down q). down_ok H F K key f)"

lemmas flow_defs = flow_ok_def in_flight_def up_ok_def task_ok_def down_ok_def

definition call_ok ::
    "(string, 'h) gmap \<Rightarrow> ('h \<Rightarrow> object \<Rightarrow> object option res) \<Rightarrow> nat \<Rightarrow> asked \<Rightarrow> ('k, 'h) session \<Rightarrow>
     ccall \<times> string \<times> object \<Rightarrow> bool" where
  "call_ok H F ref K q x \<longleftrightarrow>
     (case x of (cl, m, ps) \<Rightarrow>
       K (cc_key cl) m ps \<and> mget (pd_map (k_pend (q_c q))) (cc_key cl) = Some (cc_chan cl) \<and>
       (case pd_chans (k_pend (q_c q)) (cc_chan cl) of
          Some msg \<Rightarrow> msg = reply (cc_key cl) (outcome_of H F m ps)
        | None \<Rightarrow> in_flight H F ref K (cc_key cl) q))"

definition call_keys :: "(ccall \<times> string \<times> object) list \<Rightarrow> (bytes \<times> nat) list" where
  "call_keys = map (\<lambda>(cl, m, ps). (cc_key cl, cc_chan cl))"

definition good_keys ::
    "(string, 'h) gmap \<Rightarrow> ('h \<Rightarrow> object \<Rightarrow> object option res) \<Rightarrow> asked \<Rightarrow> bool" where
  "good_keys H F K \<longleftrightarrow>
     (\<forall>key m ps. K key m ps \<longrightarrow>
        plain m ps \<and> good_outcome (outcome_of H F m ps) \<and> wire_raw key \<and> hasID key \<and> idKey key = Some key \<and>
        (\<forall>m' ps'. K key m' ps' \<longrightarrow> m' = m \<and> ps' = ps))"

definition session_inv ::
    "('h \<Rightarrow> object \<Rightarrow> object option res) \<Rightarrow> nat \<Rightarrow> nat \<Rightarrow> (string, 'h) gmap \<Rightarrow> asked \<Rightarrow> ('k, 'h) session \<Rightarrow> bool" where
  "session_inv F ws ref H K q \<longleftrightarrow>
     client_inv (q_c q) \<and> k_ws (q_c q) = Some ws \<and> client_writable ws (q_c q) \<and>
     writable ref (q_s q) \<and> s_handlers (q_s q) = H \<and> good_keys H F K \<and> flow_ok H F ref K q \<and>
     tracked (k_pend (q_c q)) (call_keys (q_calls q)) \<and> (\<forall>x \<in> set (q_calls q). call_ok H F ref K q x)"

lemma news_append [simp]: "news old (old @ xs) = xs" "news old old = []"
  by (simp_all add: news_def)

section \<open>The server's steps\<close>

lemma plain_request_reads:
  assumes "plain m ps" and "unmarshalMessage f = Some (request_message key m (json_print (GObj ps)))"
  shows "read_frame True f ref s = (Some (request_message key m (json_print (GObj ps))), s)"
    and "handlePeerRequest ref (request_message key m (json_print (GObj ps))) s =
      (case mget (s_handlers s) (TrimSpace m) of
         None \<Rightarrow> (None, answer_code ref key codeMethodNotFound (''method '' @ quote_q (TrimSpace m) @ '' not found'') s)
       | Some h \<Rightarrow> (Some (HandlerTask ref key h ps), s))"
proof -
  have "m \<noteq> []" using assms(1) by (auto simp: plain_def)
  with assms(2) show "read_frame True f ref s = (Some (request_message key m (json_print (GObj ps))), s)"
    by (simp add: read_frame_def request_message_def empty_message_def)
  have "decodeParams (m_params (request_message key m (json_print (GObj ps)))) = Inr ps"
    using decodeParams_print [of "GObj ps"] assms(1) by (simp add: request_message_def plain_def)
  from plain_request [OF _ refl _ _ this] assms(1)
  show "handlePeerRequest ref (request_message key m (json_print (GObj ps))) s =
      (case mget (s_handlers s) (TrimSpace m) of
         None \<Rightarrow> (None, answer_code ref key codeMethodNotFound (''method '' @ quote_q (TrimSpace m) @ '' not found'') s)
       | Some h \<Rightarrow> (Some (HandlerTask ref key h ps), s))"
    by (simp add: plain_def request_message_def empty_message_def cong: option.case_cong)
qed

text \<open>A method without a handler is answered at once, with the reply of its outcome.\<close>

lemma unknown_method_reply:
  assumes "mget H (TrimSpace m) = None" and "writable ref s" and "wire_raw key" and "hasID key"
    and "good_outcome (outcome_of H F m ps)"
  shows "sends_message ref (reply key (outcome_of H F m ps)) s
    (answer_code ref key codeMethodNotFound (''method '' @ quote_q (TrimSpace m) @ '' not found'') s)"
proof -
  let ?text = "''method '' @ quote_q (TrimSpace m) @ '' not found''"
  have out: "outcome_of H F m ps = Inl (rpc_err codeMethodNotFound ?text)" using assms(1) by (simp add: outcome_of_def)
  with assms(5) have "wire_error (Some \<lparr>re_code = codeMethodNotFound, re_message = ?text, re_data = GNull\<rparr>)"
    by simp
  from sendPeerError_message [OF assms(2,3) this] assms(4) show ?thesis
    by (simp add: out answer_code_def)
qed

lemma sends_message_facts:
  assumes "sends_message ref m s s'"
  obtains f where "unmarshalMessage f = Some m" and "p_sent (s_heap s' ref) = p_sent (s_heap s ref) @ [f]"
    and "s_handlers s' = s_handlers s" and "writable r s' = writable r s"
  using assms that by (auto simp: sends_message_def upd_peer_def writable_def)

section \<open>The steps of frames and handlers\<close>

definition work :: "('k, 'h) session \<Rightarrow> nat" where
  "work q = 3 * length (q_up q) + 2 * length (q_tasks q) + length (q_down q)"

lemma session_inv_server:
  assumes "session_inv F ws ref H K q" and "q_c q' = q_c q" and "q_calls q' = q_calls q"
    and "writable ref (q_s q')" and "s_handlers (q_s q') = H" and "flow_ok H F ref K q'"
    and "\<And>key. in_flight H F ref K key q \<Longrightarrow> in_flight H F ref K key q'"
  shows "session_inv F ws ref H K q'"
  using assms(1-6) assms(7) by (auto simp: session_inv_def call_ok_def split: option.splits)

lemma in_drop_nth: "x \<in> set xs \<Longrightarrow> i < length xs \<Longrightarrow> x \<in> set (drop_nth i xs) \<or> x = xs ! i"
proof -
  assume "x \<in> set xs" "i < length xs"
  then have "x \<in> set (take i xs @ xs ! i # drop (Suc i) xs)" by (simp add: id_take_nth_drop [symmetric])
  then show ?thesis by (auto simp: drop_nth_def)
qed

lemma drop_nth_subset: "set (drop_nth i xs) \<subseteq> set xs"
  unfolding drop_nth_def using set_take_subset [of i xs] set_drop_subset [of "Suc i" xs] by auto

lemma drop_nth_length: "i < length xs \<Longrightarrow> Suc (length (drop_nth i xs)) = length xs"
  by (simp add: drop_nth_def)

lemma up_ok_key: "up_ok K key f \<Longrightarrow> unmarshalMessage f = Some msg \<Longrightarrow> m_id msg = key"
  by (auto simp: up_ok_def request_message_def)

lemma down_ok_key: "down_ok H F K key f \<Longrightarrow> unmarshalMessage f = Some msg \<Longrightarrow> m_id msg = key"
  by (auto simp: down_ok_def reply_fields)

lemma up_step:
  assumes inv: "session_inv F ws ref H K q" and up: "q_up q = f # fs"
  obtains q' where "session_step F ws ref SeUp q = Some (None, q')" and "session_inv F ws ref H K q'"
    and "q_calls q' = q_calls q" and "q_c q' = q_c q" and "work q' < work q"
proof -
  have flow: "flow_ok H F ref K q" and ok: "writable ref (q_s q)" and H: "s_handlers (q_s q) = H"
    and good: "good_keys H F K" using inv by (auto simp: session_inv_def)
  from flow up obtain key m ps where k: "K key m ps"
    "unmarshalMessage f = Some (request_message key m (json_print (GObj ps)))" by (auto simp: flow_ok_def up_ok_def)
  with good have g: "plain m ps" "good_outcome (outcome_of H F m ps)" "wire_raw key" "hasID key"
    by (auto simp: good_keys_def)
  note reads = plain_request_reads [OF g(1) k(2)]
  have here: "key' = key" if "up_ok K key' f" for key'
    using up_ok_key [OF that k(2)] by (simp add: request_message_def)
  show thesis
  proof (cases "mget H (TrimSpace m)")
    case None
    let ?s = "answer_code ref key codeMethodNotFound (''method '' @ quote_q (TrimSpace m) @ '' not found'') (q_s q)"
    obtain r where r: "unmarshalMessage r = Some (reply key (outcome_of H F m ps))"
      "p_sent (s_heap ?s ref) = p_sent (s_heap (q_s q) ref) @ [r]" "s_handlers ?s = H" "writable ref ?s"
      using sends_message_facts [OF unknown_method_reply [OF None ok g(3,4,2)], of ref] H ok by metis
    let ?q = "q\<lparr>q_s := ?s, q_up := fs, q_down := q_down q @ [r]\<rparr>"
    have st: "session_step F ws ref SeUp q = Some (None, ?q)"
      using None H r(2) by (simp add: up reads del: json_print.simps)
    have "flow_ok H F ref K ?q" using flow up r(1) k(1) by (auto simp: flow_ok_def down_ok_def)
    moreover have "in_flight H F ref K key' ?q" if "in_flight H F ref K key' q" for key'
      using that here [of key'] up r(1) k(1) by (auto simp: in_flight_def down_ok_def)
    ultimately have "session_inv F ws ref H K ?q"
      using r(3,4) by (intro session_inv_server [OF inv]) simp_all
    then show thesis using st by (intro that [of ?q]) (simp_all add: work_def up)
  next
    case (Some h)
    let ?q = "q\<lparr>q_up := fs, q_tasks := q_tasks q @ [HandlerTask ref key h ps]\<rparr>"
    have st: "session_step F ws ref SeUp q = Some (None, ?q)"
      using Some H by (simp add: up reads del: json_print.simps)
    have "flow_ok H F ref K ?q" using flow up Some k(1) by (auto simp: flow_ok_def task_ok_def)
    moreover have "in_flight H F ref K key' ?q" if "in_flight H F ref K key' q" for key'
      using that here [of key'] up Some k(1) by (auto simp: in_flight_def task_ok_def)
    ultimately have "session_inv F ws ref H K ?q"
      using ok H by (intro session_inv_server [OF inv]) simp_all
    then show thesis using st by (intro that [of ?q]) (simp_all add: work_def up)
  qed
qed

lemma finish_step:
  assumes inv: "session_inv F ws ref H K q" and i: "i < length (q_tasks q)"
  obtains q' where "session_step F ws ref (SeFinish i) q = Some (None, q')" and "session_inv F ws ref H K q'"
    and "q_calls q' = q_calls q" and "q_c q' = q_c q" and "work q' < work q"
proof -
  have flow: "flow_ok H F ref K q" and ok: "writable ref (q_s q)" and H: "s_handlers (q_s q) = H"
    and good: "good_keys H F K" using inv by (auto simp: session_inv_def)
  from flow nth_mem [OF i] obtain key m ps h where k: "K key m ps" "mget H (TrimSpace m) = Some h"
    "q_tasks q ! i = HandlerTask ref key h ps" by (auto simp: flow_ok_def task_ok_def)
  with good have g: "good_outcome (F h ps)" "wire_raw key" "hasID key" and out: "outcome_of H F m ps = F h ps"
    by (auto simp: good_keys_def outcome_of_def split: option.splits)
  let ?s = "handler_end ref key (F h ps) (q_s q)"
  obtain r where r: "unmarshalMessage r = Some (reply key (F h ps))"
    "p_sent (s_heap ?s ref) = p_sent (s_heap (q_s q) ref) @ [r]" "s_handlers ?s = H" "writable ref ?s"
    using sends_message_facts [OF handler_end_reply [OF ok g(2,3,1)], of ref] H ok by metis
  let ?q = "q\<lparr>q_s := ?s, q_down := q_down q @ [r], q_tasks := drop_nth i (q_tasks q)\<rparr>"
  have down: "down_ok H F K key r" unfolding down_ok_def using r(1) k(1) out by (intro exI [of _ m] exI [of _ ps]) simp
  have st: "session_step F ws ref (SeFinish i) q = Some (None, ?q)" using i k(3) r(2) by simp
  have "flow_ok H F ref K ?q"
    using flow down drop_nth_subset [of i "q_tasks q"] by (auto simp: flow_ok_def)
  moreover have "in_flight H F ref K key' ?q" if "in_flight H F ref K key' q" for key'
  proof (cases "\<exists>t \<in> set (drop_nth i (q_tasks q)). task_ok H ref K key' t")
    case False
    have "key' = key" if "task_ok H ref K key' (q_tasks q ! i)" using that k(3) by (auto simp: task_ok_def)
    with that False down in_drop_nth [OF _ i] show ?thesis by (auto simp: in_flight_def)
  qed (auto simp: in_flight_def)
  ultimately have "session_inv F ws ref H K ?q" using r(3,4) by (intro session_inv_server [OF inv]) simp_all
  then show thesis using st drop_nth_length [OF i] by (intro that [of ?q]) (simp_all add: work_def)
qed

lemma reply_read:
  assumes "unmarshalMessage f = Some (reply key out)" and "good_outcome out" and "idKey key = Some key"
  shows "client_read_frame True f r c = (None, upd_pending (pend_deliver key (reply key out)) c)"
proof -
  have "m_result (reply key out) \<noteq> [] \<or> m_error (reply key out) \<noteq> None" using reply_response [of key out] assms(2) by metis
  then have "client_read_frame True f r c = (None, handleResponse (reply key out) c)"
    using assms(1) by (auto simp: client_read_frame_def reply_fields)
  moreover have "handleResponse (reply key out) c = upd_pending (pend_deliver key (reply key out)) c"
    using assms(3) by (simp add: handleResponse_def reply_fields upd_pending_def pend_deliver_def)
  ultimately show ?thesis by simp
qed

lemma deliver_other:
  assumes "tracked p cs" and "(k, ch) \<in> set cs" and "mget (pd_map p) k = Some ch" and "pend_inv p" and "k \<noteq> key"
  shows "pd_chans (pend_deliver key msg p) ch = pd_chans p ch"
  using assms(3-5) by (auto simp: pend_deliver_fields pend_inv_def)

lemma down_step:
  assumes inv: "session_inv F ws ref H K q" and down: "q_down q = f # fs"
  obtains q' where "session_step F ws ref SeDown q = Some (None, q')" and "session_inv F ws ref H K q'"
    and "q_calls q' = q_calls q" and "k_nextClientID (q_c q') = k_nextClientID (q_c q)" and "work q' < work q"
proof -
  have flow: "flow_ok H F ref K q" and good: "good_keys H F K" and cinv: "client_inv (q_c q)"
    and tr: "tracked (k_pend (q_c q)) (call_keys (q_calls q))"
    and calls: "\<And>x. x \<in> set (q_calls q) \<Longrightarrow> call_ok H F ref K q x" using inv by (auto simp: session_inv_def)
  from flow down obtain key m ps where k: "K key m ps"
    "unmarshalMessage f = Some (reply key (outcome_of H F m ps))" by (auto simp: flow_ok_def down_ok_def)
  with good have g: "good_outcome (outcome_of H F m ps)" "idKey key = Some key"
    and uniq: "\<And>m' ps'. K key m' ps' \<Longrightarrow> m' = m \<and> ps' = ps" by (auto simp: good_keys_def)
  let ?msg = "reply key (outcome_of H F m ps)"
  let ?c = "upd_pending (pend_deliver key ?msg) (q_c q)"
  let ?q = "q\<lparr>q_c := ?c, q_down := fs\<rparr>"
  have pend: "pend_inv (k_pend (q_c q))" using cinv by (simp add: client_inv_def)
  have st: "session_step F ws ref SeDown q = Some (None, ?q)"
    using reply_read [OF k(2) g, of ws "q_c q"] by (simp add: down upd_pending_def)
  have flow': "flow_ok H F ref K ?q" using flow down by (auto simp: flow_ok_def)
  have other: "in_flight H F ref K key' ?q" if "in_flight H F ref K key' q" "key' \<noteq> key" for key'
    using that down_ok_key [OF _ k(2), of H F K key'] down by (auto simp: in_flight_def reply_fields)
  have "call_ok H F ref K ?q x" if x: "x \<in> set (q_calls q)" for x
  proof -
    obtain cl m' ps' where e: "x = (cl, m', ps')" by (cases x)
    have old: "K (cc_key cl) m' ps'" "mget (pd_map (k_pend (q_c q))) (cc_key cl) = Some (cc_chan cl)"
      "case pd_chans (k_pend (q_c q)) (cc_chan cl) of
         Some msg \<Rightarrow> msg = reply (cc_key cl) (outcome_of H F m' ps') | None \<Rightarrow> in_flight H F ref K (cc_key cl) q"
      using calls [OF x] e by (simp_all add: call_ok_def)
    show ?thesis
    proof (cases "cc_key cl = key")
      case True
      with old uniq [of m' ps'] show ?thesis
        by (auto simp: e call_ok_def upd_pending_def pend_deliver_fields split: option.splits)
    next
      case False
      have mem: "(cc_key cl, cc_chan cl) \<in> set (call_keys (q_calls q))" using x e by (force simp: call_keys_def)
      have "pd_chans (pend_deliver key ?msg (k_pend (q_c q))) (cc_chan cl) = pd_chans (k_pend (q_c q)) (cc_chan cl)"
        by (rule deliver_other [OF tr mem old(2) pend False])
      with old other [OF _ False] show ?thesis
        by (auto simp: e call_ok_def upd_pending_def pend_deliver_fields(1) split: option.splits)
    qed
  qed
  moreover have "client_inv ?c" by (rule cquiet_inv [OF upd_pending_quiet cinv]) (rule pend_deliver_inv)
  ultimately have "session_inv F ws ref H K ?q"
    using inv flow' tracked_deliver [OF tr] by (simp add: session_inv_def upd_pending_def client_writable_def)
  with st show thesis by (intro that [of ?q]) (simp_all add: work_def down upd_pending_def)
qed

section \<open>The steps of calls\<close>

text \<open>The end of a call: what the others find unchanged.\<close>

lemma end_step:
  assumes inv: "session_inv F ws ref H K q" and i: "i < length (q_calls q)" and x: "q_calls q ! i = (cl, m, ps)"
    and e: "client_invoke_end wk cl (q_c q) = Some (out, c')"
  shows "session_inv F ws ref H K (q\<lparr>q_c := c', q_calls := drop_nth i (q_calls q)\<rparr>)"
    and "k_nextClientID c' = k_nextClientID (q_c q)"
proof -
  let ?p = "k_pend (q_c q)" and ?cs = "drop_nth i (q_calls q)"
  have tr: "tracked ?p (call_keys (q_calls q))" and cinv: "client_inv (q_c q)" and flow: "flow_ok H F ref K q"
    and calls: "\<And>x. x \<in> set (q_calls q) \<Longrightarrow> call_ok H F ref K q x" using inv by (auto simp: session_inv_def)
  have pend: "pend_inv ?p" using cinv by (simp add: client_inv_def)
  obtain pd where c': "c' = ccall_done cl (upd_pending (\<lambda>_. pd) (q_c q))"
    and pd: "pd = ?p \<or> (\<exists>msg. pend_take (cc_chan cl) ?p = Some (msg, pd))"
  proof -
    have "upd_pending (\<lambda>_. ?p) (q_c q) = q_c q" by (simp add: upd_pending_def)
    with e that [of ?p] that show thesis
      by (auto simp: client_invoke_end_def split: wake.splits option.splits if_splits)
  qed
  show "k_nextClientID c' = k_nextClientID (q_c q)" by (simp add: c' ccall_done_def upd_pending_def)
  have keys: "call_keys ?cs = drop_nth i (call_keys (q_calls q))" "call_keys (q_calls q) ! i = (cc_key cl, cc_chan cl)"
    using i x by (simp_all add: call_keys_def drop_nth_def take_map drop_map)
  have len: "i < length (call_keys (q_calls q))" using i by (simp add: call_keys_def)
  note dropped = tracked_drop [OF tr len, folded keys(1), unfolded keys(2) fst_conv snd_conv]
  have pd_facts: "pend_inv pd" "pd_map pd = pd_map ?p" "tracked pd (call_keys ?cs)"
    "\<And>ch. ch \<noteq> cc_chan cl \<Longrightarrow> pd_chans pd ch = pd_chans ?p ch"
    using pd pend dropped(1) pend_take_inv [OF pend] tracked_take [OF dropped(1) _ dropped(3)]
    by (auto simp: pend_take_fields)
  have new: "k_pend c' = pend_remove (cc_key cl) pd" by (simp add: c' ccall_done_def upd_pending_def)
  have "call_ok H F ref K (q\<lparr>q_c := c', q_calls := ?cs\<rparr>) y" if "y \<in> set ?cs" for y
  proof -
    obtain cl' m' ps' where y: "y = (cl', m', ps')" by (cases y)
    have "(cc_key cl', cc_chan cl') \<in> set (call_keys ?cs)" using that y by (force simp: call_keys_def)
    then have "cc_key cl' \<in> fst ` set (call_keys ?cs)" "cc_chan cl' \<in> snd ` set (call_keys ?cs)"
      by (metis fst_conv imageI, metis snd_conv imageI)
    then have ne: "cc_key cl' \<noteq> cc_key cl" "cc_chan cl' \<noteq> cc_chan cl" using dropped(2,3) by metis+
    have "call_ok H F ref K q y" by (rule calls [OF subsetD [OF drop_nth_subset that]])
    moreover have "in_flight H F ref K key (q\<lparr>q_c := c', q_calls := ?cs\<rparr>) = in_flight H F ref K key q" for key
      by (simp add: in_flight_def)
    ultimately show ?thesis
      using ne(1) by (simp add: call_ok_def y new pend_remove_fields pd_facts(2) pd_facts(4) [OF ne(2)]
          cong: option.case_cong)
  qed
  moreover have "client_inv c'" by (rule cquiet_inv [OF client_invoke_end_quiet [OF e] cinv])
  moreover have "tracked (k_pend c') (call_keys ?cs)"
    unfolding new by (rule tracked_remove [OF pd_facts(1,3) dropped(2)])
  moreover have "k_ws c' = k_ws (q_c q)" "client_writable ws c' = client_writable ws (q_c q)"
    by (simp_all add: c' ccall_done_def upd_pending_def client_writable_def)
  ultimately show "session_inv F ws ref H K (q\<lparr>q_c := c', q_calls := ?cs\<rparr>)"
    using inv flow by (simp add: session_inv_def flow_ok_def)
qed

lemma answered_returns:
  assumes inv: "session_inv F ws ref H K q" and i: "i < length (q_calls q)" and x: "q_calls q ! i = (cl, m, ps)"
  shows "client_invoke_end WakeResponse cl (q_c q) =
    (case pd_chans (k_pend (q_c q)) (cc_chan cl) of
       None \<Rightarrow> None
     | Some msg \<Rightarrow>
         Some (answers H F m ps, ccall_done cl (upd_pending (\<lambda>_. snd (the (pend_take (cc_chan cl) (k_pend (q_c q))))) (q_c q))))"
proof -
  have ok: "call_ok H F ref K q (cl, m, ps)" and good: "good_keys H F K"
    using inv nth_mem [OF i] x by (auto simp: session_inv_def)
  then have g: "good_outcome (outcome_of H F m ps)" by (auto simp: call_ok_def good_keys_def)
  show ?thesis
    using ok reply_result [OF g, of "cc_key cl"]
    by (auto simp: call_ok_def client_invoke_end_def pend_take_def answers_def split: option.splits)
qed

lemma flow_mono:
  assumes "K \<le> K'"
  shows "flow_ok H F ref K q \<Longrightarrow> flow_ok H F ref K' q" and "in_flight H F ref K key q \<Longrightarrow> in_flight H F ref K' key q"
    and "call_ok H F ref K q x \<Longrightarrow> call_ok H F ref K' q x"
proof -
  have le: "\<And>key m ps. K key m ps \<Longrightarrow> K' key m ps" using assms by (auto simp: le_fun_def)
  then show "flow_ok H F ref K q \<Longrightarrow> flow_ok H F ref K' q" by (fastforce simp: flow_defs)
  show f: "in_flight H F ref K key q \<Longrightarrow> in_flight H F ref K' key q" for key using le by (fastforce simp: flow_defs)
  show "call_ok H F ref K q x \<Longrightarrow> call_ok H F ref K' q x"
    using le f by (auto simp: call_ok_def split: option.splits)
qed

lemma call_step:
  assumes inv: "session_inv F ws ref H K q" and p: "plain m ps"
    and K': "K \<le> K'" "good_keys H F K'" "K' (c_next_key (q_c q)) m ps"
    and fresh: "\<And>m ps. \<not> K (c_next_key (q_c q)) m ps"
  obtains q' cl where "session_step F ws ref (SeCall m ps) q = Some (Some (Called m ps), q')"
    and "q_calls q' = q_calls q @ [(cl, m, ps)]" and "k_nextClientID (q_c q') = k_nextClientID (q_c q) + 1"
    and "session_inv F ws ref H K' q'"
proof -
  let ?c = "q_c q" and ?key = "c_next_key (q_c q)"
  have cinv: "client_inv ?c" and conn: "k_ws ?c = Some ws" "client_writable ws ?c"
    and tr: "tracked (k_pend ?c) (call_keys (q_calls q))" and flow: "flow_ok H F ref K q"
    and calls: "\<And>x. x \<in> set (q_calls q) \<Longrightarrow> call_ok H F ref K q x" using inv by (auto simp: session_inv_def)
  have pend: "pend_inv (k_pend ?c)" using cinv by (simp add: client_inv_def)
  have name: "TrimSpace m \<noteq> []" "utf8_valid m" "wire_any (GObj ps)" "depth (GObj ps) < max_depth"
    using p by (auto simp: plain_def)
  obtain c1 where c1: "client_invoke_begin m (Some ps) ?c = (Inr (c_new_call ws ?c), c1)"
    and sent: "client_sends ws (request_message ?key m (json_print (GObj ps))) (c_registered ?key ?c) c1"
    by (rule client_invoke_begin_sends [OF cinv conn name])
  obtain f where f: "unmarshalMessage f = Some (request_message ?key m (json_print (GObj ps)))"
    "n_sent (k_conns c1 ws) = n_sent (k_conns ?c ws) @ [f]"
    using sent by (auto simp: client_sends_def upd_conn_def c_registered_def upd_pending_def)
  have c1_facts: "k_pend c1 = snd (pend_register ?key (k_pend ?c))" "k_nextClientID c1 = k_nextClientID ?c + 1"
    "client_writable ws c1"
    using sent conn(2) by (auto simp: client_sends_def upd_conn_def c_registered_pend client_writable_def
        c_registered_def upd_pending_def)
  have quiet: "cquiet ?c c1" using client_invoke_begin_quiet [of ?c m "Some ps"] c1 by simp
  let ?cl = "c_new_call ws ?c"
  let ?q = "q\<lparr>q_c := c1, q_up := q_up q @ [f], q_calls := q_calls q @ [(?cl, m, ps)]\<rparr>"
  have st: "session_step F ws ref (SeCall m ps) q = Some (Some (Called m ps), ?q)"
    using p c1 f(2) by simp
  have up: "up_ok K' ?key f" using f(1) K'(3) by (auto simp: up_ok_def)
  have flow': "flow_ok H F ref K' ?q" using flow_mono(1) [OF K'(1) flow] up by (auto simp: flow_ok_def)
  have keys: "?key \<notin> fst ` set (call_keys (q_calls q))"
    using calls fresh by (fastforce simp: call_keys_def call_ok_def)
  have cl: "cc_key ?cl = ?key" "cc_chan ?cl = pd_next (k_pend ?c)" by (simp_all add: c_new_call_def)
  have wf: "wf_map (pd_map (k_pend ?c))" by (rule pend_inv_wf [OF pend])
  have "call_ok H F ref K' ?q x" if x: "x \<in> set (q_calls q)" for x
  proof -
    obtain cl' m' ps' where e: "x = (cl', m', ps')" by (cases x)
    have old: "call_ok H F ref K' q x" by (rule flow_mono(3) [OF K'(1) calls [OF x]])
    have mem: "(cc_key cl', cc_chan cl') \<in> set (call_keys (q_calls q))" using x e by (force simp: call_keys_def)
    then have "cc_key cl' \<noteq> ?key" "cc_chan cl' \<noteq> pd_next (k_pend ?c)" using keys tr by (force simp: tracked_def)+
    with old wf show ?thesis
      by (auto simp: e call_ok_def c1_facts(1) pend_register_fields in_flight_def split: option.splits)
  qed
  moreover have "call_ok H F ref K' ?q (?cl, m, ps)"
    using K'(3) up wf by (auto simp: call_ok_def cl c1_facts(1) pend_register_fields in_flight_def)
  moreover have "tracked (k_pend c1) (call_keys (q_calls q @ [(?cl, m, ps)]))"
    using tracked_register(1) [OF pend tr keys] by (simp add: c1_facts(1) call_keys_def cl)
  ultimately have "session_inv F ws ref H K' ?q"
    using inv flow' K'(2) cquiet_inv [OF quiet cinv] quiet c1_facts(3) by (auto simp: session_inv_def cquiet_def)
  then show thesis using st c1_facts(2) by (intro that [of ?q ?cl]) simp_all
qed

section \<open>The identifiers of a session\<close>

text \<open>The calls that have been made, in order; \<open>b\<close> is the counter at the start.\<close>

definition issued :: "64 word \<Rightarrow> (string \<times> object) list \<Rightarrow> asked" where
  "issued b hist key m ps \<longleftrightarrow>
     (\<exists>j < length hist. key = makeID (client_id (b + of_nat (Suc j))) \<and> hist ! j = (m, ps))"

lemma issued_index:
  assumes "makeID (client_id (b + of_nat i)) = makeID (client_id (b + of_nat j))" and "i < 2 ^ 64" and "j < 2 ^ 64"
  shows "i = j"
proof -
  have "b + of_nat i = b + of_nat j" using makeID_client_inj [OF assms(1)] .
  then show ?thesis using assms(2,3) by (intro of_nat_word64_inj) simp_all
qed

lemma issued_good:
  assumes "length hist < 2 ^ 64" and "\<forall>(m, ps) \<in> set hist. plain m ps"
    and "\<And>m ps. plain m ps \<Longrightarrow> good_outcome (outcome_of H F m ps)"
  shows "good_keys H F (issued b hist)"
  unfolding good_keys_def
proof (intro allI impI)
  fix key m ps
  assume "issued b hist key m ps"
  then obtain j where j: "j < length hist" "key = makeID (client_id (b + of_nat (Suc j)))" "hist ! j = (m, ps)"
    by (auto simp: issued_def)
  have "(m, ps) \<in> set hist" using j(1,3) by (metis nth_mem)
  with assms(2) have "plain m ps" by auto
  moreover have "m' = m \<and> ps' = ps" if other: "issued b hist key m' ps'" for m' ps'
  proof -
    obtain i where i: "i < length hist" "key = makeID (client_id (b + of_nat (Suc i)))" "hist ! i = (m', ps')"
      using other by (auto simp: issued_def)
    have "Suc i = Suc j"
      by (rule issued_index [of b]) (use i j assms(1) in \<open>simp_all del: of_nat_Suc\<close>)
    with i(3) j(3) show ?thesis by simp
  qed
  ultimately show "plain m ps \<and> good_outcome (outcome_of H F m ps) \<and> wire_raw key \<and> hasID key \<and>
      idKey key = Some key \<and> (\<forall>m' ps'. issued b hist key m' ps' \<longrightarrow> m' = m \<and> ps' = ps)"
    using assms(3) j(2) by (simp add: client_id_utf8 del: of_nat_Suc)
qed

lemma issued_grows:
  "issued b hist \<le> issued b (hist @ [x])"
  by (auto simp: le_fun_def issued_def nth_append less_SucI)

lemma issued_new: "issued b (hist @ [(m, ps)]) (makeID (client_id (b + of_nat (Suc (length hist))))) m ps"
  unfolding issued_def by (intro exI [of _ "length hist"]) simp

lemma issued_fresh:
  assumes "Suc (length hist) < 2 ^ 64"
  shows "\<not> issued b hist (makeID (client_id (b + of_nat (Suc (length hist))))) m ps"
proof
  assume "issued b hist (makeID (client_id (b + of_nat (Suc (length hist))))) m ps"
  then obtain j where j: "j < length hist"
    "makeID (client_id (b + of_nat (Suc (length hist)))) = makeID (client_id (b + of_nat (Suc j)))"
    by (auto simp: issued_def simp del: of_nat_Suc)
  have "Suc (length hist) = Suc j" by (rule issued_index [OF j(2)]) (use j(1) assms in simp_all)
  with j(1) show False by simp
qed

section \<open>The simulation\<close>

definition session_rel ::
    "('h \<Rightarrow> object \<Rightarrow> object option res) \<Rightarrow> nat \<Rightarrow> nat \<Rightarrow> (string, 'h) gmap \<Rightarrow> 64 word \<Rightarrow> nat \<Rightarrow>
     ('k, 'h) session \<Rightarrow> (string \<times> object) multiset \<Rightarrow> bool" where
  "session_rel F ws ref H b n q A \<longleftrightarrow>
     A = mset (map snd (q_calls q)) \<and> (\<forall>m ps. plain m ps \<longrightarrow> good_outcome (outcome_of H F m ps)) \<and>
     (\<exists>hist. length hist \<le> n \<and> k_nextClientID (q_c q) = b + of_nat (length hist) \<and>
        (\<forall>(m, ps) \<in> set hist. plain m ps) \<and> session_inv F ws ref H (issued b hist) q)"

lemma session_relI:
  assumes "session_rel F ws ref H b n q A" and "k_nextClientID (q_c q') = k_nextClientID (q_c q)"
    and "A' = mset (map snd (q_calls q'))"
    and "\<And>K. session_inv F ws ref H K q \<Longrightarrow> session_inv F ws ref H K q'"
  shows "session_rel F ws ref H b (Suc n) q' A'"
  using assms unfolding session_rel_def by (metis le_SucI)

lemma session_rel_inv:
  assumes "session_rel F ws ref H b n q A"
  obtains K where "session_inv F ws ref H K q"
  using assms by (auto simp: session_rel_def)

lemma session_call:
  assumes "session_rel F ws ref H b n q A" and "n < 2 ^ 64 - 1" and "plain m ps"
  obtains q' cl where "session_step F ws ref (SeCall m ps) q = Some (Some (Called m ps), q')"
    and "q_calls q' = q_calls q @ [(cl, m, ps)]"
    and "session_rel F ws ref H b (Suc n) q' (add_mset (m, ps) A)"
proof -
  obtain hist where hist: "length hist \<le> n" "k_nextClientID (q_c q) = b + of_nat (length hist)"
    "\<forall>(m, ps) \<in> set hist. plain m ps" "session_inv F ws ref H (issued b hist) q"
    and good: "\<And>m ps. plain m ps \<Longrightarrow> good_outcome (outcome_of H F m ps)" and A: "A = mset (map snd (q_calls q))"
    using assms(1) by (auto simp: session_rel_def)
  let ?hist = "hist @ [(m, ps)]"
  have len: "Suc (length hist) < 2 ^ 64" using hist(1) assms(2) by simp
  have key: "c_next_key (q_c q) = makeID (client_id (b + of_nat (Suc (length hist))))"
    by (simp add: c_next_key_def hist(2) add.commute add.left_commute)
  have good': "good_keys H F (issued b ?hist)"
    by (rule issued_good [OF _ _ good]) (use len hist(3) assms(3) in auto)
  obtain q' cl where q': "session_step F ws ref (SeCall m ps) q = Some (Some (Called m ps), q')"
    "q_calls q' = q_calls q @ [(cl, m, ps)]" "k_nextClientID (q_c q') = k_nextClientID (q_c q) + 1"
    "session_inv F ws ref H (issued b ?hist) q'"
    by (rule call_step [OF hist(4) assms(3) issued_grows good'])
      (use issued_new [of b hist] issued_fresh [OF len, of b] in \<open>auto simp: key simp del: of_nat_Suc\<close>)
  have "session_rel F ws ref H b (Suc n) q' (add_mset (m, ps) A)"
    unfolding session_rel_def using q'(2-4) hist good assms(3)
    by (intro conjI exI [of _ ?hist]) (auto simp: A add.commute add.left_commute)
  with q'(1,2) show thesis by (rule that)
qed

lemma drop_nth_mset: "i < length xs \<Longrightarrow> mset (map f (drop_nth i xs)) = mset (map f xs) - {#f (xs ! i)#}"
proof -
  assume "i < length xs"
  then have "mset (map f xs) = mset (map f (take i xs @ xs ! i # drop (Suc i) xs))"
    by (simp only: id_take_nth_drop [symmetric])
  then show ?thesis by (simp add: drop_nth_def)
qed

lemma session_ends:
  assumes rel: "session_rel F ws ref H b n q A" and i: "i < length (q_calls q)" and x: "q_calls q ! i = (cl, m, ps)"
    and e: "client_invoke_end wk cl (q_c q) = Some (out, c')"
  shows "(m, ps) \<in># A"
    and "session_rel F ws ref H b (Suc n) (q\<lparr>q_c := c', q_calls := drop_nth i (q_calls q)\<rparr>) (A - {#(m, ps)#})"
    and "wk = WakeResponse \<Longrightarrow> out = answers H F m ps"
proof -
  have A: "A = mset (map snd (q_calls q))" using rel by (simp add: session_rel_def)
  have "(m, ps) \<in> snd ` set (q_calls q)" using nth_mem [OF i] x by force
  then show "(m, ps) \<in># A" by (simp add: A)
  obtain K where K: "session_inv F ws ref H K q" by (rule session_rel_inv [OF rel])
  show "session_rel F ws ref H b (Suc n) (q\<lparr>q_c := c', q_calls := drop_nth i (q_calls q)\<rparr>) (A - {#(m, ps)#})"
    by (rule session_relI [OF rel]) (use end_step [OF _ i x e] K drop_nth_mset [OF i, of snd] x in \<open>auto simp: A\<close>)
  show "out = answers H F m ps" if "wk = WakeResponse"
    using e answered_returns [OF K i x] that by (auto split: option.splits)
qed

text \<open>Steps of frames and handlers.\<close>

definition inner :: "session_event \<Rightarrow> bool" where
  "inner e \<longleftrightarrow> (case e of SeUp \<Rightarrow> True | SeDown \<Rightarrow> True | SeFinish i \<Rightarrow> True | _ \<Rightarrow> False)"

lemma inner_step:
  assumes "inner e" and "session_step F ws ref e q = Some (l, q')" and "session_inv F ws ref H K q"
  shows "l = None" and "session_inv F ws ref H K q'" and "q_calls q' = q_calls q"
    and "k_nextClientID (q_c q') = k_nextClientID (q_c q)" and "work q' < work q"
proof -
  have "l = None \<and> session_inv F ws ref H K q' \<and> q_calls q' = q_calls q \<and>
    k_nextClientID (q_c q') = k_nextClientID (q_c q) \<and> work q' < work q"
  proof (cases e)
    case SeUp
    with assms(2) obtain f fs where "q_up q = f # fs" by (cases "q_up q") auto
    then obtain q1 where "session_step F ws ref SeUp q = Some (None, q1)" "session_inv F ws ref H K q1"
      "q_calls q1 = q_calls q" "k_nextClientID (q_c q1) = k_nextClientID (q_c q)" "work q1 < work q"
      by (rule up_step [OF assms(3)]) auto
    with assms(2) SeUp show ?thesis by simp
  next
    case (SeFinish i)
    with assms(2) have "i < length (q_tasks q)" by (simp split: if_splits)
    then obtain q1 where "session_step F ws ref (SeFinish i) q = Some (None, q1)" "session_inv F ws ref H K q1"
      "q_calls q1 = q_calls q" "k_nextClientID (q_c q1) = k_nextClientID (q_c q)" "work q1 < work q"
      by (rule finish_step [OF assms(3)]) auto
    with assms(2) SeFinish show ?thesis by simp
  next
    case SeDown
    with assms(2) obtain f fs where "q_down q = f # fs" by (cases "q_down q") auto
    then obtain q1 where "session_step F ws ref SeDown q = Some (None, q1)" "session_inv F ws ref H K q1"
      "q_calls q1 = q_calls q" "k_nextClientID (q_c q1) = k_nextClientID (q_c q)" "work q1 < work q"
      by (rule down_step [OF assms(3)]) auto
    with assms(2) SeDown show ?thesis by simp
  qed (use assms(1) in \<open>simp_all add: inner_def\<close>)
  then show "l = None" and "session_inv F ws ref H K q'" and "q_calls q' = q_calls q"
    and "k_nextClientID (q_c q') = k_nextClientID (q_c q)" and "work q' < work q" by simp_all
qed

lemma session_simulates:
  assumes "n < 2 ^ 64 - 1" and rel: "session_rel F ws ref H b n q A" and st: "session_step F ws ref e q = Some (l, q')"
  shows "case l of None \<Rightarrow> session_rel F ws ref H b (Suc n) q' A
    | Some x \<Rightarrow> \<exists>A'. service_step (answers H F) x A = Some A' \<and> session_rel F ws ref H b (Suc n) q' A'"
proof (cases "inner e")
  case True
  obtain K where K: "session_inv F ws ref H K q" by (rule session_rel_inv [OF rel])
  note i = inner_step [OF True st]
  have "session_rel F ws ref H b (Suc n) q' A"
    by (rule session_relI [OF rel i(4) [OF K]]) (use i(2) i(3) [OF K] rel in \<open>simp_all add: session_rel_def\<close>)
  then show ?thesis by (simp add: i(1) [OF K])
next
  case False
  show ?thesis
  proof (cases e)
    case (SeCall m ps)
    with st have "plain m ps" by (simp split: if_splits)
    then obtain q1 where "session_step F ws ref (SeCall m ps) q = Some (Some (Called m ps), q1)"
      "session_rel F ws ref H b (Suc n) q1 (add_mset (m, ps) A)"
      by (rule session_call [OF rel assms(1)])
    with st SeCall have "l = Some (Called m ps) \<and> session_rel F ws ref H b (Suc n) q' (add_mset (m, ps) A)"
      by (simp del: session_step.simps)
    then show ?thesis by simp
  next
    case (SeReturn i)
    with st obtain cl m ps out c' where i: "i < length (q_calls q)" "q_calls q ! i = (cl, m, ps)"
      "client_invoke_end WakeResponse cl (q_c q) = Some (out, c')" "l = Some (Returned m ps out)"
      "q' = q\<lparr>q_c := c', q_calls := drop_nth i (q_calls q)\<rparr>"
      by (cases "q_calls q ! i") (auto split: if_splits)
    from session_ends [OF rel i(1-3)] i(4,5) show ?thesis by simp
  next
    case (SeGiveUp i err)
    with st obtain cl m ps out c' where i: "i < length (q_calls q)" "q_calls q ! i = (cl, m, ps)"
      "client_invoke_end (WakeCtx err) cl (q_c q) = Some (out, c')" "l = Some (GaveUp m ps)"
      "q' = q\<lparr>q_c := c', q_calls := drop_nth i (q_calls q)\<rparr>"
      by (cases "q_calls q ! i") (auto split: if_splits)
    from session_ends(1,2) [OF rel i(1-3)] i(4,5) show ?thesis by simp
  qed (use False in \<open>simp_all add: inner_def\<close>)
qed

interpretation ss: label_simulation "session_step F ws ref" "service_step (answers H F)"
  "session_rel F ws ref H b" "2 ^ 64 - 1"
  for F :: "'h \<Rightarrow> object \<Rightarrow> object option res" and ws ref H b
  by unfold_locales (use session_simulates in \<open>fastforce+\<close>)

section \<open>The properties\<close>

text \<open>
  A session at its start: the client has the connection, nothing is in flight, no call is open,
  and the handlers of the server end with what it answers (no cancelled context) and JSON
  carries.
\<close>

definition session_start ::
    "('h \<Rightarrow> object \<Rightarrow> object option res) \<Rightarrow> nat \<Rightarrow> nat \<Rightarrow> ('k, 'h) session \<Rightarrow> bool" where
  "session_start F ws ref q \<longleftrightarrow>
     client_inv (q_c q) \<and> k_ws (q_c q) = Some ws \<and> client_writable ws (q_c q) \<and> writable ref (q_s q) \<and>
     q_up q = [] \<and> q_down q = [] \<and> q_tasks q = [] \<and> q_calls q = [] \<and>
     (\<forall>m ps. plain m ps \<longrightarrow> good_outcome (outcome_of (s_handlers (q_s q)) F m ps))"

lemma session_start_rel:
  "session_start F ws ref q \<Longrightarrow>
     session_rel F ws ref (s_handlers (q_s q)) (k_nextClientID (q_c q)) 0 q {#}"
  by (auto simp: session_start_def session_rel_def session_inv_def good_keys_def issued_def flow_ok_def
      call_keys_def tracked_def)

lemma session_reach:
  assumes "session_start F ws ref q0" and "run_labels (session_step F ws ref) es q0 = Some (ls, q)"
    and "length es < 2 ^ 64"
  obtains K where "session_inv F ws ref (s_handlers (q_s q0)) K q"
    and "run_spec (service_step (answers (s_handlers (q_s q0)) F)) ls {#} = Some (mset (map snd (q_calls q)))"
proof -
  have "0 + length es \<le> 2 ^ 64 - 1" using assms(3) by simp
  from ss.run_simulated [OF session_start_rel [OF assms(1)] assms(2) this]
  obtain A where A: "run_spec (service_step (answers (s_handlers (q_s q0)) F)) ls {#} = Some A"
    "session_rel F ws ref (s_handlers (q_s q0)) (k_nextClientID (q_c q0)) (0 + length es) q A" by blast
  obtain K where "session_inv F ws ref (s_handlers (q_s q0)) K q" by (rule session_rel_inv [OF A(2)])
  with A show thesis by (intro that) (simp_all add: session_rel_def)
qed

lemma inner_run:
  "session_inv F ws ref H K q \<Longrightarrow> list_all inner es \<Longrightarrow> run_labels (session_step F ws ref) es q = Some (ls, q') \<Longrightarrow>
     ls = [] \<and> session_inv F ws ref H K q' \<and> q_calls q' = q_calls q \<and> length es + work q' \<le> work q"
proof (induction es arbitrary: q ls)
  case (Cons e es)
  from Cons.prems(3) obtain l q1 ls1 where m: "session_step F ws ref e q = Some (l, q1)"
    "run_labels (session_step F ws ref) es q1 = Some (ls1, q')" "ls = (case l of None \<Rightarrow> ls1 | Some x \<Rightarrow> x # ls1)"
    by (auto simp del: session_step.simps split: option.splits)
  have e: "inner e" and es: "list_all inner es" using Cons.prems(2) by simp_all
  note one = inner_step [OF e m(1) Cons.prems(1)]
  from Cons.IH [OF one(2) es m(2)] one m(3) show ?case by simp
qed simp

lemma inner_enabled:
  assumes "session_inv F ws ref H K q" and "0 < work q"
  shows "\<exists>e. inner e \<and> session_step F ws ref e q \<noteq> None"
proof (cases "q_up q")
  case (Cons f fs)
  obtain q' where "session_step F ws ref SeUp q = Some (None, q')" by (rule up_step [OF assms(1) Cons])
  then show ?thesis by (intro exI [of _ SeUp]) (simp add: inner_def del: session_step.simps)
next
  case up: Nil
  show ?thesis
  proof (cases "q_down q")
    case (Cons f fs)
    obtain q' where "session_step F ws ref SeDown q = Some (None, q')" by (rule down_step [OF assms(1) Cons])
    then show ?thesis by (intro exI [of _ SeDown]) (simp add: inner_def del: session_step.simps)
  next
    case Nil
    with up assms(2) have i: "0 < length (q_tasks q)" by (simp add: work_def)
    obtain q' where "session_step F ws ref (SeFinish 0) q = Some (None, q')" by (rule finish_step [OF assms(1) i])
    then show ?thesis by (intro exI [of _ "SeFinish 0"]) (simp add: inner_def del: session_step.simps)
  qed
qed

lemma rest_answered:
  assumes inv: "session_inv F ws ref H K q" and "work q = 0" and i: "i < length (q_calls q)"
    and x: "q_calls q ! i = (cl, m, ps)"
  shows "\<exists>q'. session_step F ws ref (SeReturn i) q = Some (Some (Returned m ps (answers H F m ps)), q')"
proof -
  have "call_ok H F ref K q (cl, m, ps)" using inv nth_mem [OF i] x by (auto simp: session_inv_def)
  moreover have "\<not> in_flight H F ref K (cc_key cl) q" using assms(2) by (simp add: in_flight_def work_def)
  ultimately obtain msg where "pd_chans (k_pend (q_c q)) (cc_chan cl) = Some msg"
    by (auto simp: call_ok_def split: option.splits)
  with i x answered_returns [OF inv i x] show ?thesis by simp
qed

text \<open>
  C2: a session of the client and the server implements the service. Whatever the interleaving
  of new calls, frames in both directions, handlers that run, calls that return and calls that
  are given up, what the callers see is a run of a service that keeps a bag of the open calls
  and answers each with what the server's handler of its method makes of its parameters: no
  call gets the answer of another, none is answered twice, and the open calls are those of the
  client.
\<close>

theorem calls_answered_by_service:
  assumes "session_start F ws ref q0" and "run_labels (session_step F ws ref) es q0 = Some (ls, q)"
    and "length es < 2 ^ 64"
  shows "run_spec (service_step (answers (s_handlers (q_s q0)) F)) ls {#} = Some (mset (map snd (q_calls q)))"
  by (rule session_reach [OF assms])

text \<open>
  C3: a session comes to rest with its calls answered. From any reachable state, the frames in
  flight and the running handlers are worked off in at most \<open>work q\<close> steps of any order, in
  which no call is lost; as long as there are any, a step is possible; and when there are none
  left, every open call can return, with what the service answers.
\<close>

theorem session_comes_to_rest:
  assumes "session_start F ws ref q0" and "run_labels (session_step F ws ref) es q0 = Some (ls, q)"
    and "length es < 2 ^ 64"
    and "list_all inner es'" and "run_labels (session_step F ws ref) es' q = Some (ls', q')"
  shows "ls' = [] \<and> q_calls q' = q_calls q \<and> length es' + work q' \<le> work q \<and>
    (0 < work q' \<longrightarrow> (\<exists>e. inner e \<and> session_step F ws ref e q' \<noteq> None)) \<and>
    (work q' = 0 \<longrightarrow> (\<forall>i < length (q_calls q'). \<exists>m ps q''.
       snd (q_calls q' ! i) = (m, ps) \<and>
       session_step F ws ref (SeReturn i) q' =
         Some (Some (Returned m ps (answers (s_handlers (q_s q0)) F m ps)), q'')))"
proof -
  let ?H = "s_handlers (q_s q0)"
  obtain K where K: "session_inv F ws ref ?H K q" by (rule session_reach [OF assms(1-3)])
  from inner_run [OF K assms(4,5)] have r: "ls' = []" "session_inv F ws ref ?H K q'" "q_calls q' = q_calls q"
    "length es' + work q' \<le> work q" by simp_all
  have "\<exists>m ps q''. snd (q_calls q' ! i) = (m, ps) \<and> session_step F ws ref (SeReturn i) q' =
      Some (Some (Returned m ps (answers ?H F m ps)), q'')" if "work q' = 0" and i: "i < length (q_calls q')" for i
  proof -
    obtain cl m ps where x: "q_calls q' ! i = (cl, m, ps)" by (cases "q_calls q' ! i")
    from rest_answered [OF r(2) that(1) i x] x show ?thesis by (auto simp del: session_step.simps)
  qed
  with r inner_enabled [OF r(2)] show ?thesis by (simp del: session_step.simps)
qed

section \<open>A concrete session\<close>

text \<open>Any session can be worked off.\<close>

lemma settles:
  "session_inv F ws ref H K q \<Longrightarrow>
     \<exists>es q'. list_all inner es \<and> run_labels (session_step F ws ref) es q = Some ([], q') \<and> work q' = 0"
proof (induction q rule: measure_induct_rule [of work])
  case (less q)
  show ?case
  proof (cases "work q = 0")
    case True
    then show ?thesis by (intro exI [of _ "[]"] exI [of _ q]) simp
  next
    case False
    then obtain e l q1 where e: "inner e" "session_step F ws ref e q = Some (l, q1)"
      using inner_enabled [OF less.prems] by (auto simp del: session_step.simps)
    note one = inner_step [OF e less.prems]
    from less.IH [OF one(5,2)] obtain es q' where es: "list_all inner es"
      "run_labels (session_step F ws ref) es q1 = Some ([], q')" "work q' = 0" by blast
    with e one(1) show ?thesis by (intro exI [of _ "e # es"] exI [of _ q']) (simp del: session_step.simps)
  qed
qed

text \<open>The client of the examples with the server of the examples, whose handler returns its parameters.\<close>

definition echo_handler :: "nat \<Rightarrow> object \<Rightarrow> object option res" where
  "echo_handler h ps = Inr (Some ps)"

definition linked :: "(nat, nat) session" where
  "linked = \<lparr>q_c = online, q_s = serving, q_up = [], q_down = [], q_tasks = [], q_calls = []\<rparr>"

lemma linked_start: "session_start echo_handler 0 0 linked"
proof -
  have t: "utf8_valid ''method ''" "utf8_valid '' not found''" by code_simp+
  have "good_outcome (outcome_of H echo_handler m ps)" if "plain m ps" for H :: "(string, nat) gmap" and m ps
  proof (cases "mget H (TrimSpace m)")
    case None
    have "utf8_valid (''method '' @ quote_q (TrimSpace m) @ '' not found'')"
      using that by (intro utf8_valid_append utf8_valid_quote t) (simp add: plain_def)
    then show ?thesis using None by (simp add: outcome_of_def wire_error_def wire_any_def codeMethodNotFound_def max_depth_def)
  next
    case (Some h)
    then show ?thesis using that by (simp add: outcome_of_def echo_handler_def plain_def)
  qed
  then show ?thesis using online_facts serving_facts(1) by (simp add: session_start_def linked_def)
qed

lemma plain_m: "plain ''m'' []"
  by (simp add: plain_def method_m HasPrefix_def wire_empty_object max_depth_def)

lemma linked_answers: "answers (s_handlers (q_s linked)) echo_handler ''m'' [] = Inr []"
  using serving_facts(2) by (simp add: answers_def outcome_of_def linked_def method_m echo_handler_def)

text \<open>One call, made and worked off.\<close>

lemma linked_run:
  obtains q cl where "session_step echo_handler 0 0 (SeCall ''m'' []) linked = Some (Some (Called ''m'' []), q)"
    and "q_calls q = [(cl, ''m'', [])]"
proof -
  have "(0::nat) < 2 ^ 64 - 1" by simp
  from session_call [OF session_start_rel [OF linked_start] this plain_m]
  obtain q cl where "session_step echo_handler 0 0 (SeCall ''m'' []) linked = Some (Some (Called ''m'' []), q)"
    "q_calls q = q_calls linked @ [(cl, ''m'', [])]" by blast
  then show thesis using that by (simp add: linked_def)
qed

lemma calls_answered_by_service_witness:
  "\<exists>q cl. run_labels (session_step echo_handler 0 0) [SeCall ''m'' []] linked = Some ([Called ''m'' []], q) \<and>
     q_calls q = [(cl, ''m'', [])] \<and>
     run_spec (service_step (answers (s_handlers (q_s linked)) echo_handler)) [Called ''m'' []] {#} =
       Some {#(''m'', [])#}"
proof -
  obtain q cl where q: "session_step echo_handler 0 0 (SeCall ''m'' []) linked = Some (Some (Called ''m'' []), q)"
    "q_calls q = [(cl, ''m'', [])]" by (rule linked_run)
  have run: "run_labels (session_step echo_handler 0 0) [SeCall ''m'' []] linked = Some ([Called ''m'' []], q)"
    using q(1) by (simp del: session_step.simps)
  from calls_answered_by_service [OF linked_start run] q(2) run show ?thesis by simp
qed

lemma session_comes_to_rest_witness:
  "\<exists>es q q'. list_all inner es \<and>
     run_labels (session_step echo_handler 0 0) (SeCall ''m'' [] # es) linked = Some ([Called ''m'' []], q) \<and>
     session_step echo_handler 0 0 (SeReturn 0) q = Some (Some (Returned ''m'' [] (Inr [])), q')"
proof -
  obtain q cl where q: "session_step echo_handler 0 0 (SeCall ''m'' []) linked = Some (Some (Called ''m'' []), q)"
    "q_calls q = [(cl, ''m'', [])]" by (rule linked_run)
  have run: "run_labels (session_step echo_handler 0 0) [SeCall ''m'' []] linked = Some ([Called ''m'' []], q)"
    using q(1) by (simp del: session_step.simps)
  obtain K where K: "session_inv echo_handler 0 0 (s_handlers (q_s linked)) K q"
    by (rule session_reach [OF linked_start run]) simp
  from settles [OF K] obtain es q1 where es: "list_all inner es"
    "run_labels (session_step echo_handler 0 0) es q = Some ([], q1)" "work q1 = 0" by blast
  have len: "length [SeCall ''m'' []] < 2 ^ 64" by simp
  from session_comes_to_rest [OF linked_start run len es(1,2)] es(3) q(2)
  obtain q2 where "session_step echo_handler 0 0 (SeReturn 0) q1 = Some (Some (Returned ''m'' [] (Inr [])), q2)"
    by (auto simp: linked_answers simp del: session_step.simps)
  with es q(1) show ?thesis
    by (intro exI [of _ es] exI [of _ q1] exI [of _ q2]) (simp del: session_step.simps)
qed

end
