(* ===== verification/Conform.thy ===== *)
theory Conform
  imports ServerSpec ClientSpec
begin

text \<open>
  The type of what goes over the wire: every text frame that the server or the client has written
  in a reachable state is a marshalled JSON-RPC envelope of one of three kinds, a request with an
  identifier of the writer's own numbering, a notification, or a response with exactly one of
  result and error.
\<close>

section \<open>Envelopes\<close>

definition envelope :: "(bytes \<Rightarrow> bool) \<Rightarrow> rpc_message \<Rightarrow> bool" where
  "envelope own m \<longleftrightarrow>
     m_jsonrpc m = jsonRPCVersion \<and>
     (if m_method m \<noteq> [] then
        m_params m \<noteq> [] \<and> m_result m = [] \<and> m_error m = None \<and> (m_id m = [] \<or> own (m_id m))
      else m_id m \<noteq> [] \<and> m_params m = [] \<and> (m_result m = [] \<longleftrightarrow> m_error m \<noteq> None))"

definition frame_ok :: "(bytes \<Rightarrow> bool) \<Rightarrow> bytes \<Rightarrow> bool" where
  "frame_ok own f \<longleftrightarrow> (\<exists>m. envelope own m \<and> marshalMessage m = Inr f)"

lemma trim_empty: "TrimSpace [] = []"
  by code_simp

lemma hasID_nonempty: "hasID rid \<Longrightarrow> rid \<noteq> []"
  using trim_empty by (auto simp: hasID_def)

lemma marshalObject_nonempty: "marshalObject obj = Inr raw \<Longrightarrow> raw \<noteq> []"
  by (auto simp: marshalObject_def json_marshal_def split: option.splits if_splits)

lemma marshalAnyResult_nonempty: "marshalAnyResult result = Inr raw \<Longrightarrow> raw \<noteq> []"
  by (auto simp: marshalAnyResult_def json_marshal_def split: any_result.splits option.splits if_splits)

lemma envelopes:
  "rid \<noteq> [] \<Longrightarrow> envelope own (error_message rid code t data)"
  "rid \<noteq> [] \<Longrightarrow> res \<noteq> [] \<Longrightarrow> envelope own (result_message rid res)"
  "own rid \<Longrightarrow> m \<noteq> [] \<Longrightarrow> ps \<noteq> [] \<Longrightarrow> envelope own (request_message rid m ps)"
  "m \<noteq> [] \<Longrightarrow> ps \<noteq> [] \<Longrightarrow> envelope own (notification_message m ps)"
  by (simp_all add: envelope_def error_message_def result_message_def request_message_def
      notification_message_def empty_message_def)

lemma frame_okI: "envelope own m \<Longrightarrow> marshalMessage m = Inr f \<Longrightarrow> frame_ok own f"
  by (auto simp: frame_ok_def)

lemmas frames = envelopes [THEN frame_okI]

section \<open>The server\<close>

definition server_own :: "bytes \<Rightarrow> bool" where
  "server_own rid \<longleftrightarrow> (\<exists>k. rid = makeID (server_id k))"

definition speaks :: "'h server \<Rightarrow> bool" where
  "speaks s \<longleftrightarrow> (\<forall>r. \<forall>f \<in> set (p_sent (s_heap s r)). frame_ok server_own f)"

lemma speaks_same: "speaks s \<Longrightarrow> (\<And>r. p_sent (s_heap s' r) = p_sent (s_heap s r)) \<Longrightarrow> speaks s'"
  by (simp add: speaks_def)

lemma speaks_upd: "(\<And>p. p_sent (f p) = p_sent p) \<Longrightarrow> speaks (upd_peer ref f s) = speaks s"
  by (auto simp: speaks_def upd_peer_def)

lemma speaks_pend [simp]: "speaks (upd_pend ref f s) = speaks s"
  by (simp add: upd_pend_def speaks_upd)

lemma speaks_done [simp]: "speaks (call_done c s) = speaks s" "speaks (failPeerPending ref e s) = speaks s"
  "speaks (registered ref key s) = speaks s"
  by (simp_all add: call_done_def failPeerPending_def registered_def) (simp add: speaks_def)

lemma write_speaks: "speaks s \<Longrightarrow> frame_ok server_own f \<Longrightarrow> speaks (snd (writePeer ref f s))"
  by (auto simp: writePeer_def speaks_def upd_peer_def split: option.split)

lemma sendPeerError_speaks: "speaks s \<Longrightarrow> rid \<noteq> [] \<Longrightarrow> speaks (snd (sendPeerError ref rid code t data s))"
  by (auto simp: sendPeerError_def intro: write_speaks frames(1) split: sum.split)

lemma sendPeerResultAny_speaks: "speaks s \<Longrightarrow> rid \<noteq> [] \<Longrightarrow> speaks (snd (sendPeerResultAny ref rid result s))"
  by (auto simp: sendPeerResultAny_def split: sum.split
      intro: write_speaks sendPeerError_speaks frames(2) dest: marshalAnyResult_nonempty)

lemma sendPeerResult_speaks: "speaks s \<Longrightarrow> rid \<noteq> [] \<Longrightarrow> speaks (snd (sendPeerResult ref rid result s))"
  by (simp add: sendPeerResult_def sendPeerResultAny_speaks)

lemma answer_speaks:
  "speaks s \<Longrightarrow> speaks (answer_error ref rid err s)" "speaks s \<Longrightarrow> speaks (answer_code ref rid code t s)"
  "speaks s \<Longrightarrow> speaks (handler_end ref rid out s)"
  by (auto simp: answer_error_def answer_code_def sendRPCError_def handler_end_def
      intro!: sendPeerError_speaks sendPeerResult_speaks dest: hasID_nonempty split: option.split sum.split)

lemma foldl_speaks: "(\<And>acc e. speaks acc \<Longrightarrow> speaks (f acc e)) \<Longrightarrow> speaks s \<Longrightarrow> speaks (foldl f s es)"
  by (induction es arbitrary: s) auto

lemma broadcast_speaks:
  assumes "speaks s" and "m \<noteq> []"
  shows "speaks (broadcastNotificationMany exclude m payload s)"
proof -
  have "speaks (foldl (\<lambda>acc e. snd (writePeer (snd e) f acc)) s es)"
    if "marshalObject payload = Inr ps" "marshalMessage (notification_message m ps) = Inr f" for ps f es
    using assms frames(4) [OF assms(2) marshalObject_nonempty [OF that(1)] that(2)]
    by (intro foldl_speaks write_speaks) auto
  with assms(1) show ?thesis by (auto simp: broadcastNotificationMany_def split: sum.split)
qed

lemma route_end_speaks:
  assumes "speaks s" and "m \<noteq> []"
  shows "speaks (route_call_end caller rid m hints r s)" and "speaks (route_fan_end caller rid m hints entries s)"
  using assms
  by (auto simp: route_call_end_def route_fan_end_def Let_def intro!: answer_speaks sendPeerResult_speaks
      sendPeerResultAny_speaks foldl_speaks broadcast_speaks dest: hasID_nonempty split: sum.split)

lemma invoke_begin_speaks:
  assumes "speaks s" and "invoke_begin cid m ps s = (r, s')"
  shows "speaks s'"
proof -
  have own: "server_own (next_key s)" by (auto simp: server_own_def next_key_def)
  have send: "speaks (snd (invoke_send ref (next_key s) m ps t))" if "TrimSpace m \<noteq> []" "speaks t" for ref t
  proof -
    have "m \<noteq> []" using that(1) trim_empty by auto
    with that(2) own show ?thesis
      by (auto simp: invoke_send_def split: sum.split intro!: write_speaks
          dest: frames(3) [of server_own] marshalObject_nonempty)
  qed
  show ?thesis
    using assms send [of "registered _ (next_key s) s"]
    by (auto simp: invoke_begin_eq split: if_splits option.splits prod.splits) (metis snd_conv speaks_done(3))+
qed

lemma invoke_end_speaks: "speaks s \<Longrightarrow> invoke_end w c s = Some (r, s') \<Longrightarrow> speaks s'"
  by (auto simp: invoke_end_def split: wake.splits option.splits if_splits)

lemma read_frame_speaks:
  assumes "speaks s" and "read_frame is_text data ref s = (msg, s')"
  shows "speaks s'"
proof -
  have "speaks (handlePeerResponse ref m s)" for m
    using assms(1) by (auto simp: handlePeerResponse_def Let_def split: option.split)
  with assms show ?thesis
    by (auto simp: read_frame_def Let_def intro!: sendPeerError_speaks dest: hasID_nonempty
        split: if_splits option.splits)
qed

lemma parseRouteHints_named:
  "parseRouteHints m ps = Inr (m', fo, ps', h) \<Longrightarrow> m' \<noteq> []"
  by (auto simp: parseRouteHints_def fan_out_method_def Let_def split: if_splits sum.splits prod.splits)

lemma routePeerRequest_speaks:
  assumes "speaks s" and "routePeerRequest caller rid m ps h fo s = (out, s')"
  shows "speaks s'"
proof -
  obtain r s1 where r: "invoke_begin (targetPeerID h) m (Some ps) s = (r, s1)" by force
  with invoke_begin_speaks [OF assms(1) r] assms show ?thesis
    by (auto simp: routePeerRequest_def answer_speaks split: if_splits sum.splits)
qed

text \<open>The tasks that will broadcast have a method to broadcast.\<close>

definition named :: "'h task option \<Rightarrow> bool" where
  "named k \<longleftrightarrow> (case k of Some (RouteTask caller rid m h rt) \<Rightarrow> m \<noteq> [] | _ \<Rightarrow> True)"

lemma named_simps [simp]:
  "named None" "named (Some (ReqTask ref msg))" "named (Some (HandlerTask ref rid h ps))" "named (Some (ApiTask c))"
  "named (Some (StartTask addr path))" "named (Some (RouteTask caller rid m hints rt)) \<longleftrightarrow> m \<noteq> []"
  by (simp_all add: named_def)

lemma handlePeerRequest_speaks:
  assumes "speaks s" and "handlePeerRequest ref msg s = (k, s')"
  shows "speaks s' \<and> named k"
proof (cases "m_jsonrpc msg = jsonRPCVersion \<and> TrimSpace (m_method msg) \<notin> {[], ''rpc.heartbeat'', ''rpc.peers''} \<and>
      \<not> isl (decodeParams (m_params msg)) \<and>
      \<not> isl (parseRouteHints (TrimSpace (m_method msg)) (projr (decodeParams (m_params msg))))")
  case False
  with assms show ?thesis
    by (auto simp: handlePeerRequest_def Let_def answer_speaks intro!: sendPeerResult_speaks dest: hasID_nonempty
        split: if_splits sum.splits)
next
  case True
  then obtain ps m fo ps' h where p: "decodeParams (m_params msg) = Inr ps"
    and h: "parseRouteHints (TrimSpace (m_method msg)) ps = Inr (m, fo, ps', h)"
    by (auto simp: isl_def) (metis sum.collapse(2) isl_def prod_cases4)
  obtain out s1 where r: "routePeerRequest ref (m_id msg) m ps' h fo s = (out, s1)" by force
  from assms True p h r routePeerRequest_speaks [OF assms(1) r] parseRouteHints_named [OF h] show ?thesis
    by (auto simp: handlePeerRequest_def Let_def answer_speaks split: route_outcome.splits option.splits)
qed

lemma fan_speaks:
  assumes "speaks s"
  shows "fan_begin target f s = Some (f', s') \<Longrightarrow> speaks s'" and "fan_end target w f s = Some (f', s') \<Longrightarrow> speaks s'"
  using assms
  by (auto simp: fan_begin_def fan_end_def split: if_splits prod.splits sum.splits option.splits
      dest: invoke_begin_speaks invoke_end_speaks)

lemma start_commit_speaks: "speaks s \<Longrightarrow> speaks (snd (start_commit addr path s))"
  by (auto simp: start_commit_def close_listener_def Let_def elim!: speaks_same)

lemma run_task_speaks:
  assumes "speaks s" and "named (Some task)" and "run_task ev task s = Some (k, s')"
  shows "speaks s' \<and> named k"
  using assms
proof (cases "(ev, task, s)" rule: run_task.cases)
  case (1 ref msg t)
  with assms have "handlePeerRequest ref msg s = (k, s')" by simp
  from handlePeerRequest_speaks [OF assms(1) this] show ?thesis .
qed (auto simp: start_commit_speaks answer_speaks dest: invoke_end_speaks fan_speaks
    intro: route_end_speaks split: if_splits)

section \<open>The running server\<close>

definition world_speaks :: "'h world \<Rightarrow> bool" where
  "world_speaks w \<longleftrightarrow> speaks (w_srv w) \<and> (\<forall>t task. mget (w_tasks w) t = Some task \<longrightarrow> named (Some task)) \<and> wf_map (w_tasks w)"

lemma close_peers_speaks: "speaks s \<Longrightarrow> speaks (foldl (\<lambda>acc e. close_peer (snd e) acc) s es)"
  by (rule foldl_speaks) (simp_all add: close_peer_def ws_close_def cancel_peer_def speaks_upd)

lemma Close_speaks:
  assumes "speaks s"
  shows "speaks (snd (Close shutdown s))"
proof (cases "s_shut s")
  case False
  have "speaks (close_begin s)" using assms by (rule speaks_same) (simp add: close_begin_heap)
  then show ?thesis using False by (simp add: Close_eq close_peers_speaks)
qed (simp add: Close_eq assms)

lemma spawn_speaks:
  "world_speaks w \<Longrightarrow> speaks s \<Longrightarrow> named k \<Longrightarrow> world_speaks (with_srv (k, s) w)"
  by (auto simp: world_speaks_def with_srv_def spawn_def gomap split: option.split)

lemma happen_speaks:
  assumes w: "world_speaks w" and ev: "happen e w = Some w'"
  shows "world_speaks w'"
proof -
  have s: "speaks (w_srv w)" using w by (simp add: world_speaks_def)
  note quiet = spawn_speaks [OF w] and same = speaks_same [OF s]
  show ?thesis
  proof (cases e)
    case (EvTask t te)
    with ev obtain task k s' where t: "mget (w_tasks w) t = Some task" "run_task te task (w_srv w) = Some (k, s')"
      "w' = set_task t k (w\<lparr>w_srv := s'\<rparr>)" by (auto split: option.splits)
    from t(1) w have "named (Some task)" by (auto simp: world_speaks_def)
    from run_task_speaks [OF s this t(2)] w t(3) show ?thesis
      by (auto simp: world_speaks_def set_task_def gomap split: option.split)
  next
    case (EvFrame ref is_text data)
    obtain m s' where "read_frame is_text data ref (w_srv w) = (m, s')" by force
    with ev EvFrame read_frame_speaks [OF s this] show ?thesis
      by (auto intro!: quiet split: if_splits) (cases m; simp)
  next
    case (EvAccept sub)
    have "speaks (snd (accept_peer sub (w_srv w)))"
      using s by (auto simp: accept_peer_def Let_def speaks_def new_peer_def split: option.split)
    with ev EvAccept show ?thesis by (auto intro!: quiet)
  next
    case (EvDisconnect ref)
    have "speaks (disconnect ref (w_srv w))"
      by (rule same) (simp add: disconnect_def Let_def failPeerPending_def cancel_peer_def upd_pend_def upd_peer_def)
    with ev EvDisconnect show ?thesis by (auto intro!: quiet split: if_splits)
  next
    case (EvInvoke cid mname params)
    obtain r s' where r: "invoke_begin cid mname params (w_srv w) = (r, s')" by force
    with ev EvInvoke invoke_begin_speaks [OF s r] show ?thesis by (auto intro!: quiet split: sum.splits)
  next
    case (EvWait choice)
    then show ?thesis using ev
      by (auto intro!: quiet same simp: WaitForClient_def split: wait_choice.splits list.splits)
  next
    case (EvStart parsed lis)
    obtain r s' where r: "start_begin (\<lambda>_. parsed) (\<lambda>_. lis) (w_srv w) = (r, s')" by force
    then have "s_heap s' = s_heap (w_srv w)" using start_frame by (metis snd_conv)
    then have "speaks s'" by (intro same) simp
    with ev EvStart r show ?thesis by (auto intro!: quiet split: sum.splits)
  qed (use ev in \<open>auto intro!: quiet same Close_speaks s simp: Register_def Unregister_def upd_peer_def\<close>)
qed

interpretation sp: closed_system "new_world b" step world_speaks
proof
  show "world_speaks (new_world b :: 'a world)"
    by (simp add: world_speaks_def new_world_def speaks_def NewServer_def new_peer_def)
qed (auto intro: happen_speaks)

section \<open>The client\<close>

definition client_own :: "bytes \<Rightarrow> bool" where
  "client_own rid \<longleftrightarrow> (\<exists>k. rid = makeID (client_id k))"

definition c_speaks :: "'h client \<Rightarrow> bool" where
  "c_speaks c \<longleftrightarrow> (\<forall>r. \<forall>f \<in> set (n_sent (k_conns c r)). frame_ok client_own f)"

lemma c_speaks_same: "c_speaks c \<Longrightarrow> k_conns c' = k_conns c \<Longrightarrow> c_speaks c'"
  by (simp add: c_speaks_def)

lemma c_speaks_upd: "(\<And>n. n_sent (f n) = n_sent n) \<Longrightarrow> c_speaks (upd_conn r f c) = c_speaks c"
  by (auto simp: c_speaks_def upd_conn_def)

lemma c_speaks_simps [simp]:
  "c_speaks (upd_pending g c) = c_speaks c" "c_speaks (ccall_done cl c) = c_speaks c"
  "c_speaks (upd_loop l h c) = c_speaks c" "c_speaks (c_registered key c) = c_speaks c"
  "c_speaks (failAllPending e c) = c_speaks c" "c_speaks (loop_cancel l c) = c_speaks c"
  "c_speaks (loop_goto l pc c) = c_speaks c" "c_speaks (rx_cancel r c) = c_speaks c"
  "c_speaks (conn_close r code t c) = c_speaks c" "c_speaks (install r c) = c_speaks c"
  "c_speaks (disableReconnect l c) = c_speaks c"
  by (auto simp: c_speaks_def upd_pending_def ccall_done_def upd_loop_def c_registered_def failAllPending_def
      loop_cancel_def loop_goto_def rx_cancel_def conn_close_def install_def upd_conn_def disableReconnect_def)

lemma c_write_speaks: "c_speaks c \<Longrightarrow> frame_ok client_own f \<Longrightarrow> c_speaks (snd (client_write r f c))"
  by (auto simp: client_write_def c_speaks_def upd_conn_def split: option.split)

lemma sendError_speaks: "c_speaks c \<Longrightarrow> rid \<noteq> [] \<Longrightarrow> c_speaks (snd (sendError r rid code t data c))"
  by (auto simp: sendError_def intro: c_write_speaks frames(1) split: sum.split)

lemma sendResult_speaks: "c_speaks c \<Longrightarrow> rid \<noteq> [] \<Longrightarrow> c_speaks (snd (sendResult r rid result c))"
  by (auto simp: sendResult_def split: sum.split
      intro: c_write_speaks sendError_speaks frames(2) dest: marshalObject_nonempty)

lemma client_requests_speak:
  assumes "c_speaks c"
  shows "c_speaks (snd (handleRequest r msg c))" and "c_speaks (client_handler_end r rid out c)"
    and "c_speaks (snd (client_read_frame is_text data r c))"
proof -
  have "c_speaks (handleResponse m c)" for m
    using assms by (auto simp: handleResponse_def Let_def split: option.split)
  with assms show "c_speaks (snd (handleRequest r msg c))" "c_speaks (client_handler_end r rid out c)"
    "c_speaks (snd (client_read_frame is_text data r c))"
    by (auto simp: handleRequest_def client_handler_end_def client_read_frame_def client_answer_def Let_def
        intro!: sendError_speaks sendResult_speaks dest: hasID_nonempty split: sum.split option.split)
qed

lemma client_invoke_speaks:
  assumes "c_speaks c" and "client_invoke_begin m ps c = (r, c')"
  shows "c_speaks c'"
proof -
  have own: "client_own (c_next_key c)" by (auto simp: client_own_def c_next_key_def)
  have send: "c_speaks d'" if "client_send ws (c_next_key c) m ps d = (e, d')" "TrimSpace m \<noteq> []" "c_speaks d" for ws d d' e
  proof -
    have "m \<noteq> []" using that(2) trim_empty by auto
    with that(3) own have "c_speaks (snd (client_send ws (c_next_key c) m ps d))"
      by (auto simp: client_send_def split: sum.split intro!: c_write_speaks
          dest: frames(3) [of client_own] marshalObject_nonempty)
    with that(1) show ?thesis by simp
  qed
  from assms show ?thesis
    by (auto simp: client_invoke_begin_eq split: if_splits sum.splits prod.splits option.splits dest!: send)
qed

lemma client_invoke_end_speaks: "c_speaks c \<Longrightarrow> client_invoke_end w cl c = Some (r, c') \<Longrightarrow> c_speaks c'"
  by (auto simp: client_invoke_end_def split: wake.splits option.splits if_splits)

lemma open_conn_speaks: "c_speaks c \<Longrightarrow> open_conn c = (r, c') \<Longrightarrow> c_speaks c'"
  by (auto simp: open_conn_def c_speaks_def new_conn_def Let_def split: if_splits)

lemma on_ref_speaks: "(\<And>x c. c_speaks c \<Longrightarrow> c_speaks (f x c)) \<Longrightarrow> c_speaks c \<Longrightarrow> c_speaks (on_ref f r c)"
  by (cases r) (simp_all add: on_ref_def)

lemma connecting_speaks:
  assumes "c_speaks c"
  shows "connect_dialed dialed c = (e, c') \<Longrightarrow> c_speaks c'" and "c_speaks (dialed_in l dialed c)"
    and "reconnect_begin url c = (q, c') \<Longrightarrow> c_speaks c'"
proof -
  show d: "connect_dialed dialed c = (e, c') \<Longrightarrow> c_speaks c'" for e c'
    using assms by (auto simp: connect_dialed_def split: sum.splits prod.splits if_splits dest: open_conn_speaks)
  show "c_speaks (dialed_in l dialed c)"
    by (auto simp: dialed_in_def split: prod.split option.split dest!: d intro!: on_ref_speaks)
  show "reconnect_begin url c = (q, c') \<Longrightarrow> c_speaks c'"
    using assms by (auto simp: reconnect_begin_def Let_def c_speaks_def split: if_splits)
qed

lemma loop_step_speaks: "c_speaks c \<Longrightarrow> loop_step ev pc l c = Some c' \<Longrightarrow> c_speaks c'"
  by (induction ev pc l c rule: loop_step.induct)
    (auto simp: loop_dialed_def split: if_splits sum.splits prod.splits dest: open_conn_speaks)

lemma closing_speaks:
  assumes "c_speaks c"
  shows "c_speaks (onDisconnect r c)" and "c_speaks (read_end r c)" and "client_close_begin c = (q, c') \<Longrightarrow> c_speaks c'"
proof -
  show d: "c_speaks (onDisconnect r c)"
    using assms by (auto simp: onDisconnect_def Let_def intro!: on_ref_speaks) (simp_all add: c_speaks_def)
  then show "c_speaks (read_end r c)" by (simp add: read_end_def c_speaks_upd)
  show "client_close_begin c = (q, c') \<Longrightarrow> c_speaks c'"
    using assms by (auto simp: client_close_begin_def Let_def split: if_splits intro!: on_ref_speaks)
      (simp_all add: c_speaks_def)
qed

lemma c_happen_speaks:
  assumes "c_speaks (v_c w)" and "c_happen e w = Some w'"
  shows "c_speaks (v_c w')"
proof (cases e)
  case (CeReconnect url)
  obtain q c where "reconnect_begin url (v_c w) = (q, c)" by force
  with CeReconnect assms connecting_speaks(3) [OF assms(1) this] show ?thesis
    by (auto simp: with_c_def split: sum.splits if_splits)
next
  case CeClose
  obtain q c where "client_close_begin (v_c w) = (q, c)" by force
  with CeClose assms closing_speaks(3) [OF assms(1) this] show ?thesis
    by (auto simp: with_c_def split: option.splits)
next
  case (CeInvoke m params)
  obtain r c where "client_invoke_begin m params (v_c w) = (r, c)" by force
  with CeInvoke assms client_invoke_speaks [OF assms(1) this] show ?thesis
    by (auto simp: with_c_def split: sum.splits)
next
  case (CeLoop l ev)
  with assms show ?thesis by (auto simp: with_c_def split: if_splits dest: loop_step_speaks)
next
  case (CeCloseEnd i)
  with assms show ?thesis by (auto simp: with_c_def split: if_splits dest!: client_close_end_eq)
next
  case (CeInvokeEnd wk i)
  with assms show ?thesis by (auto simp: with_c_def split: if_splits dest: client_invoke_end_speaks)
next
  case (CeRegister m h)
  with assms show ?thesis by (auto simp: with_c_def client_Register_def c_speaks_def)
next
  case (CeUnregister m)
  with assms show ?thesis by (auto simp: with_c_def client_Unregister_def c_speaks_def)
qed (use assms in \<open>auto simp: with_c_def connecting_speaks(2) closing_speaks(1,2) client_requests_speak c_speaks_upd
    split: if_splits\<close>)

interpretation cs: closed_system new_cworld c_step "\<lambda>w. c_speaks (v_c w)"
proof
  show "c_speaks (v_c (new_cworld :: 'a cworld))"
    by (simp add: new_cworld_def NewClient_def c_speaks_def new_conn_def)
qed (auto intro: c_happen_speaks)

section \<open>The property\<close>

text \<open>
  C10: Everything the two programs write is well typed. In every reachable state, whatever the
  other side has sent and whatever handlers and callers have done, each text frame the server or
  the client has written is a marshalled envelope of JSON-RPC 2.0: a request or notification has
  parameters and neither result nor error, and the identifier of a request is one of the writer's
  own, \<open>s\<close> and a number for the server, \<open>c\<close> and a number for the client, so that the two never
  meet; a response has an identifier and exactly one of result and error.
\<close>

theorem frames_well_typed:
  assumes "reach bindURL n w" and "c_reach k v"
  shows "(\<forall>f \<in> set (p_sent (s_heap (w_srv w) ref)). \<exists>m. envelope server_own m \<and> marshalMessage m = Inr f) \<and>
    (\<forall>f \<in> set (n_sent (k_conns (v_c v) r)). \<exists>m. envelope client_own m \<and> marshalMessage m = Inr f) \<and>
    (\<forall>rid. \<not> (server_own rid \<and> client_own rid))"
proof -
  have "makeID (server_id i) \<noteq> makeID (client_id j)" "makeID (client_id j) \<noteq> makeID (server_id i)" for i j
    using makeID_inj [OF _ server_id_utf8 client_id_utf8] makeID_inj [OF _ client_id_utf8 server_id_utf8]
    by (auto simp: server_id_def client_id_def)
  then show ?thesis
    using sp.reachable_inv [OF assms(1)] cs.reachable_inv [OF assms(2)]
    by (auto simp: world_speaks_def speaks_def c_speaks_def frame_ok_def server_own_def client_own_def)
qed

text \<open>A peer that sends a frame that is not JSON, and a client that calls.\<close>

lemma frames_well_typed_witness:
  "\<exists>(w :: nat world) (v :: nat cworld) f m. reach ''ws://h'' 2 w \<and> c_reach 3 v \<and> p_sent (s_heap (w_srv w) 0) = [f] \<and>
     envelope server_own m \<and> marshalMessage m = Inr f"
proof -
  have null: "wire_raw ''null''" unfolding wire_raw_def by (intro disjI2 exI [of _ GNull]) (simp add: max_depth_def)
  have err: "wire_error (Some \<lparr>re_code = codeParseError, re_message = ''parse error'', re_data = GNull\<rparr>)"
    using utf8_valid_ascii [of "''parse error''"] by (simp add: wire_error_def codeParseError_def max_depth_def)
  let ?s = "snd (sendPeerError 0 ''null'' codeParseError ''parse error'' GNull one_peer)"
  have "sends_message 0 (error_message ''null'' codeParseError ''parse error'' GNull) one_peer ?s"
    by (rule sendPeerError_message [OF one_peer_facts(3) null err])
  moreover have "p_sent (s_heap one_peer 0) = []"
    by (simp add: one_peer_def accept_peer_def NewServer_def Let_def new_peer_def queue_size_def)
  ultimately obtain f where f: "p_sent (s_heap ?s 0) = [f]" by (auto simp: sends_message_def upd_peer_def)
  have bad: "unmarshalMessage ''{'' = None" "classifyDecodeError ''{'' = codeParseError" by code_simp+
  have "reading 0 one_peer" by (simp add: reading_def one_peer_def accept_peer_def NewServer_def Let_def new_peer_def queue_size_def)
  then have run: "run [EvAccept (Some ''holon-rpc''), EvFrame 0 True ''{''] (new_world ''ws://h'') =
      Some (with_srv (None, ?s) (with_srv (None, one_peer) (new_world ''ws://h'')))"
    by (simp add: new_world_def with_srv_def spawn_def one_peer_def [symmetric] read_frame_def bad)
  define w where "w = with_srv (None, ?s) (with_srv (None, one_peer) (new_world ''ws://h''))"
  have w: "reach ''ws://h'' 2 w" "p_sent (s_heap (w_srv w) 0) = [f]"
    using run_reach [OF reach_start run] f by (simp_all add: w_def numeral_2_eq_2 with_srv_def)
  obtain v :: "nat cworld" where v: "c_reach 3 v" by (rule c_call_run_reaches)
  from frames_well_typed [OF w(1) v, of 0 0] w v show ?thesis by auto
qed

end
