(* ===== verification/Transport.thy ===== *)
theory Transport
  imports Server
begin

text \<open>
  \<^verbatim>\<open>pkg/transport/transport.go\<close> and \<^verbatim>\<open>ws.go\<close>: the listener for a URI, the stdio listener with its
  single connection, the unix listener, and the websocket listener with its queue; and the
  flags and addresses of \<^verbatim>\<open>pkg/serve\<close> and the echo commands.
\<close>

section \<open>The operating system\<close>

text \<open>What the code asks of it, and what it answers: \<open>os.Remove\<close>, \<open>net.Listen\<close>, \<open>os.Getenv\<close>.\<close>

datatype os_call = OsRemove string | NetListen string string

datatype remove_outcome = Removed | NoSuchFile | RemoveFailed gerror

text \<open>The parts of a websocket URL the source reads, as \<open>url.Parse\<close> gives them.\<close>

record ws_url =
  wu_scheme :: string
  wu_host :: string
  wu_path :: string
  wu_cert :: string
  wu_key :: string

record os_env =
  e_remove :: "string \<Rightarrow> remove_outcome"
  e_listen :: "string \<Rightarrow> string \<Rightarrow> string res"
  e_getenv :: "string \<Rightarrow> string"
  e_parse :: "string \<Rightarrow> ws_url res"

section \<open>Host and port\<close>

definition first_index :: "char \<Rightarrow> string \<Rightarrow> nat option" where
  "first_index c s = str_index [c] s"

definition last_index :: "char \<Rightarrow> string \<Rightarrow> nat option" where
  "last_index c s = map_option (\<lambda>i. length s - Suc i) (first_index c (rev s))"

definition addr_err :: "string \<Rightarrow> string \<Rightarrow> gerror" where
  "addr_err addr why = ErrText (''address '' @ addr @ '': '' @ why)"

text \<open>\<open>net.SplitHostPort\<close>\<close>

definition SplitHostPort :: "string \<Rightarrow> (string \<times> string) res" where
  "SplitHostPort hp =
     (case last_index CHR '':'' hp of
        None \<Rightarrow> Inl (addr_err hp ''missing port in address'')
      | Some i \<Rightarrow>
          (let finish = (\<lambda>host j k.
                 if first_index CHR ''['' (drop j hp) \<noteq> None then Inl (addr_err hp (''unexpected '' @ [CHR 0x27] @ ''['' @ [CHR 0x27] @ '' in address''))
                 else if first_index CHR '']'' (drop k hp) \<noteq> None then Inl (addr_err hp (''unexpected '' @ [CHR 0x27] @ '']'' @ [CHR 0x27] @ '' in address''))
                 else Inr (host, drop (Suc i) hp))
           in
             if HasPrefix ''['' hp then
               (case first_index CHR '']'' hp of
                  None \<Rightarrow> Inl (addr_err hp (''missing '' @ [CHR 0x27] @ '']'' @ [CHR 0x27] @ '' in address''))
                | Some e \<Rightarrow>
                    if Suc e = length hp then Inl (addr_err hp ''missing port in address'')
                    else if Suc e = i then finish (take (e - 1) (drop 1 hp)) 1 (Suc e)
                    else if hp ! Suc e = CHR '':'' then Inl (addr_err hp ''too many colons in address'')
                    else Inl (addr_err hp ''missing port in address''))
             else if first_index CHR '':'' (take i hp) \<noteq> None then
               Inl (addr_err hp ''too many colons in address'')
             else finish (take i hp) 0 0))"

section \<open>Listen\<close>

definition DefaultURI :: string where
  "DefaultURI = ''tcp://:9090''"

definition Scheme :: "string \<Rightarrow> string" where
  "Scheme uri = (case str_index ''://'' uri of Some i \<Rightarrow> take i uri | None \<Rightarrow> uri)"

text \<open>\<open>strings.ToLower\<close>; the scheme of a parsed URL is ASCII.\<close>

definition to_lower :: "string \<Rightarrow> string" where
  "to_lower s =
     map (\<lambda>c. if 65 \<le> (of_char c :: nat) \<and> (of_char c :: nat) \<le> 90 then char_of ((of_char c :: nat) + 32) else c) s"

text \<open>A listener; a net listener is its network and bound address.\<close>

datatype listener =
    NetListener string string
  | UnixListener string
  | StdioListener
  | MemListener
  | WSListener string string bool

definition ws_credentials :: "os_env \<Rightarrow> ws_url \<Rightarrow> string \<times> string" where
  "ws_credentials env u =
     ((if wu_cert u = [] then e_getenv env ''HOLONS_WSS_CERT_FILE'' else wu_cert u),
      (if wu_key u = [] then e_getenv env ''HOLONS_WSS_KEY_FILE'' else wu_key u))"

definition newWSListener :: "os_env \<Rightarrow> string \<Rightarrow> listener res \<times> os_call list" where
  "newWSListener env uri =
     (case e_parse env uri of
        Inl e \<Rightarrow> (Inl (ErrWrap (''parse websocket URI '' @ quote_q uri) e), [])
      | Inr u \<Rightarrow>
          (let scheme = to_lower (wu_scheme u); isTLS = (scheme = ''wss''); addr = wu_host u;
               path = (if wu_path u = [] then ''/grpc'' else wu_path u)
           in
             if scheme \<noteq> ''ws'' \<and> scheme \<noteq> ''wss'' then
               (Inl (ErrText (''unsupported websocket scheme '' @ quote_q (wu_scheme u))), [])
             else if TrimSpace addr = [] then
               (Inl (ErrText (''websocket URI '' @ quote_q uri @ '' is missing host:port'')), [])
             else
               (case SplitHostPort addr of
                  Inl e \<Rightarrow> (Inl (ErrWrap (''invalid websocket host:port '' @ quote_q addr) e), [])
                | Inr _ \<Rightarrow>
                    if isTLS \<and> (fst (ws_credentials env u) = [] \<or> snd (ws_credentials env u) = []) then
                      (Inl (ErrText ''wss:// requires cert and key (query params cert/key or HOLONS_WSS_CERT_FILE/HOLONS_WSS_KEY_FILE)''), [])
                    else
                      (case e_listen env ''tcp'' addr of
                         Inl e \<Rightarrow> (Inl (ErrWrap (''ws listen '' @ addr) e), [NetListen ''tcp'' addr])
                       | Inr bound \<Rightarrow> (Inr (WSListener bound path isTLS), [NetListen ''tcp'' addr])))))"

definition Listen :: "os_env \<Rightarrow> string \<Rightarrow> listener res \<times> os_call list" where
  "Listen env uri =
     (if HasPrefix ''tcp://'' uri then
        (let addr = TrimPrefix ''tcp://'' uri in
         (case e_listen env ''tcp'' addr of Inl e \<Rightarrow> Inl e | Inr b \<Rightarrow> Inr (NetListener ''tcp'' b),
          [NetListen ''tcp'' addr]))
      else if HasPrefix ''unix://'' uri then
        (let path = TrimPrefix ''unix://'' uri in
         if TrimSpace path = [] then
           (Inl (ErrText (''unix transport URI '' @ quote_q uri @ '' is missing socket path'')), [])
         else
           (case e_remove env path of
              RemoveFailed e \<Rightarrow> (Inl (ErrWrap (''remove stale unix socket '' @ quote_q path) e), [OsRemove path])
            | _ \<Rightarrow>
                (case e_listen env ''unix'' path of Inl e \<Rightarrow> Inl e | Inr b \<Rightarrow> Inr (UnixListener path),
                 [OsRemove path, NetListen ''unix'' path])))
      else if uri = ''stdio://'' \<or> uri = ''stdio'' then (Inr StdioListener, [])
      else if HasPrefix ''mem://'' uri then (Inr MemListener, [])
      else if HasPrefix ''ws://'' uri \<or> HasPrefix ''wss://'' uri then newWSListener env uri
      else
        (Inl (ErrText (''unsupported transport URI: '' @ quote_q uri @
           '' (expected tcp://, unix://, stdio://, mem://, or ws://)'')), []))"

section \<open>The stdio listener\<close>

text \<open>
  Whether its one connection is still in the channel, and whether \<open>shutdown\<close> has closed the
  two channels. An \<open>Accept\<close> between the two closes can end as one after both.
\<close>

record stdio =
  io_conn :: bool
  io_closed :: bool

definition newStdioListener :: stdio where
  "newStdioListener = \<lparr>io_conn = True, io_closed = False\<rparr>"

datatype accept_branch = FromConns | FromDone

definition err_eof :: gerror where
  "err_eof = ErrText ''EOF''"

text \<open>\<open>None\<close>: the branch is not ready. The result is the connection or an error.\<close>

definition stdio_Accept :: "accept_branch \<Rightarrow> stdio \<Rightarrow> (unit res \<times> stdio) option" where
  "stdio_Accept b l =
     (case b of
        FromConns \<Rightarrow>
          if io_conn l then Some (Inr (), l\<lparr>io_conn := False\<rparr>)
          else if io_closed l then Some (Inl err_eof, l)
          else None
      | FromDone \<Rightarrow> if io_closed l then Some (Inl err_eof, l) else None)"

text \<open>\<open>Close\<close> of the listener and of its connection.\<close>

definition stdio_shutdown :: "stdio \<Rightarrow> stdio" where
  "stdio_shutdown l = (if io_closed l then l else l\<lparr>io_closed := True\<rparr>)"

section \<open>The unix listener\<close>

text \<open>
  \<open>closed\<close> is whether the \<open>sync.Once\<close> has run; \<open>close_err\<close> and \<open>outcome\<close> are what closing the
  socket and removing its file answer. The last component is whether both were called.
\<close>

definition unix_Close ::
    "gerror option \<Rightarrow> remove_outcome \<Rightarrow> bool \<Rightarrow> gerror option \<times> bool \<times> bool" where
  "unix_Close close_err outcome closed =
     (if closed then (None, True, False)
      else
        ((case (outcome, close_err) of (RemoveFailed e, None) \<Rightarrow> Some e | _ \<Rightarrow> close_err), True, True))"

section \<open>The websocket listener\<close>

text \<open>
  Connections are numbered as they are upgraded: those whose \<open>handleUpgrade\<close> stands in its
  select, those in the channel, those that \<open>Accept\<close> has returned, those the listener closed.
\<close>

record ws_listener =
  wl_upgraded :: "nat list"
  wl_queue :: "nat list"
  wl_accepted :: "nat list"
  wl_dropped :: "nat list"
  wl_done :: bool
  wl_next :: nat

definition new_ws_listener :: ws_listener where
  "new_ws_listener =
     \<lparr>wl_upgraded = [], wl_queue = [], wl_accepted = [], wl_dropped = [], wl_done = False, wl_next = 0\<rparr>"

definition ws_capacity :: nat where
  "ws_capacity = 16"

text \<open>\<open>handleUpgrade\<close>: the upgrade, when the websocket library accepts, and the branches of the select.\<close>

definition ws_upgrade :: "bool \<Rightarrow> ws_listener \<Rightarrow> ws_listener" where
  "ws_upgrade ok l =
     (if ok then l\<lparr>wl_upgraded := wl_upgraded l @ [wl_next l], wl_next := Suc (wl_next l)\<rparr> else l)"

definition ws_handover :: "accept_branch \<Rightarrow> nat \<Rightarrow> ws_listener \<Rightarrow> ws_listener option" where
  "ws_handover b conn l =
     (if conn \<notin> set (wl_upgraded l) then None
      else
        (case b of
           FromConns \<Rightarrow>
             if length (wl_queue l) < ws_capacity then
               Some (l\<lparr>wl_upgraded := remove1 conn (wl_upgraded l), wl_queue := wl_queue l @ [conn]\<rparr>)
             else None
         | FromDone \<Rightarrow>
             if wl_done l then
               Some (l\<lparr>wl_upgraded := remove1 conn (wl_upgraded l), wl_dropped := wl_dropped l @ [conn]\<rparr>)
             else None))"

definition ws_Accept :: "accept_branch \<Rightarrow> ws_listener \<Rightarrow> (nat res \<times> ws_listener) option" where
  "ws_Accept b l =
     (case b of
        FromConns \<Rightarrow>
          (case wl_queue l of
             [] \<Rightarrow> None
           | conn # q \<Rightarrow> Some (Inr conn, l\<lparr>wl_queue := q, wl_accepted := wl_accepted l @ [conn]\<rparr>))
      | FromDone \<Rightarrow> if wl_done l then Some (Inl err_eof, l) else None)"

definition ws_Close :: "ws_listener \<Rightarrow> ws_listener" where
  "ws_Close l = (if wl_done l then l else l\<lparr>wl_done := True\<rparr>)"

text \<open>\<open>Addr().String()\<close> of a listener; the address of a net listener is its bound address.\<close>

fun listener_addr :: "listener \<Rightarrow> string" where
  "listener_addr (NetListener network addr) = addr"
| "listener_addr (UnixListener path) = path"
| "listener_addr StdioListener = ''stdio://''"
| "listener_addr MemListener = ''mem://''"
| "listener_addr (WSListener addr path isTLS) = (if isTLS then ''wss'' else ''ws'') @ ''://'' @ addr @ path"

section \<open>Flags and addresses of the commands\<close>

text \<open>\<^verbatim>\<open>serve.ParseFlags\<close>\<close>

fun ParseFlags :: "string list \<Rightarrow> string" where
  "ParseFlags [] = DefaultURI"
| "ParseFlags (arg # args) =
     (if arg = ''--listen'' \<and> args \<noteq> [] then hd args
      else if arg = ''--port'' \<and> args \<noteq> [] then ''tcp://:'' @ hd args
      else ParseFlags args)"

text \<open>The address the echo server prints, and the target its client makes of a URI.\<close>

definition isStdioURI :: "string \<Rightarrow> bool" where
  "isStdioURI uri \<longleftrightarrow> uri = ''stdio://'' \<or> uri = ''stdio''"

definition extractTCPHost :: "string \<Rightarrow> string" where
  "extractTCPHost uri =
     (case SplitHostPort (TrimPrefix ''tcp://'' uri) of Inl e \<Rightarrow> [] | Inr (host, port) \<Rightarrow> host)"

definition publicURI :: "string \<Rightarrow> string \<Rightarrow> string" where
  "publicURI listenURI addr =
     (if HasPrefix ''tcp://'' listenURI then
        (let h = extractTCPHost listenURI;
             host = (if h \<in> {[], ''0.0.0.0'', ''::'', ''[::]''} then ''127.0.0.1'' else h)
         in (case SplitHostPort addr of
               Inl e \<Rightarrow> ''tcp://'' @ addr
             | Inr (_, port) \<Rightarrow> ''tcp://'' @ host @ '':'' @ port))
      else listenURI)"

definition normalizeURI :: "string \<Rightarrow> string" where
  "normalizeURI uri = (if uri = ''stdio'' then ''stdio://'' else uri)"

datatype dial_target = DialAddress string | DialUnix string

definition normalizeTarget :: "string \<Rightarrow> dial_target res" where
  "normalizeTarget uri =
     (if HasPrefix ''tcp://'' uri then Inr (DialAddress (TrimPrefix ''tcp://'' uri))
      else if HasPrefix ''unix://'' uri then Inr (DialUnix (TrimPrefix ''unix://'' uri))
      else Inl (ErrText (''unsupported URI: '' @ uri)))"

end
