(* ===== verification/GrpcDial.thy ===== *)
theory GrpcDial
  imports Transport
begin

text \<open>
  \<^verbatim>\<open>pkg/grpcclient\<close> and the dialling part of \<^verbatim>\<open>cmd/echo-client\<close>: the grpc package is a
  parameter, a function of the target and the options it is given; what the model holds is the
  code around it: the child process and its pipes, the dialers, the errors.
\<close>

section \<open>The child process\<close>

text \<open>The calls of \<^verbatim>\<open>os/exec\<close> in order; \<open>StartProcess\<close> says whether the start succeeded.\<close>

datatype proc_call = StdinPipe | StdoutPipe | StartProcess "string list" bool | KillProcess | WaitProcess

datatype child = NoChild | Running "string list" | Killed "string list" | Reaped

text \<open>What the calls leave behind.\<close>

fun child_step :: "proc_call \<Rightarrow> child \<Rightarrow> child" where
  "child_step (StartProcess args True) c = Running args"
| "child_step KillProcess (Running args) = Killed args"
| "child_step WaitProcess (Killed args) = Reaped"
| "child_step _ c = c"

definition child_after :: "proc_call list \<Rightarrow> child" where
  "child_after calls = fold child_step calls NoChild"

text \<open>What the calls before the start answer.\<close>

record child_env =
  ce_stdin :: "gerror option"
  ce_stdout :: "gerror option"
  ce_start :: "gerror option"

text \<open>
  The standard output of the child: what it has written and nobody has read, and, once it has
  closed it, what a read then answers.
\<close>

record child_out =
  co_unread :: bytes
  co_end :: "gerror option"

section \<open>The connection over the pipes\<close>

text \<open>
  \<open>pipeConn\<close>: \<open>pc_first\<close> is the unread part of the reader on the first byte, \<open>None\<close> once
  \<open>io.MultiReader\<close> is done with it; \<open>pc_in\<close> is what the child has been sent.
\<close>

record pipe_conn =
  pc_first :: "bytes option"
  pc_out :: child_out
  pc_in :: bytes
  pc_closed :: bool

definition new_pipe_conn :: "char \<Rightarrow> child_out \<Rightarrow> pipe_conn" where
  "new_pipe_conn b out = \<lparr>pc_first = Some [b], pc_out = out, pc_in = [], pc_closed = False\<rparr>"

text \<open>
  A read of the pipe into a buffer of \<open>n\<close> bytes, of which the operating system fills \<open>k\<close>;
  \<open>None\<close>: it blocks, or does not hand over so many.
\<close>

definition out_read :: "nat \<Rightarrow> nat \<Rightarrow> child_out \<Rightarrow> (bytes res \<times> child_out) option" where
  "out_read n k out =
     (if n = 0 then Some (Inr [], out)
      else if co_unread out = [] then map_option (\<lambda>e. (Inl e, out)) (co_end out)
      else if 0 < k \<and> k \<le> n \<and> k \<le> length (co_unread out) then
        Some (Inr (take k (co_unread out)), out\<lparr>co_unread := drop k (co_unread out)\<rparr>)
      else None)"

text \<open>\<open>pipeConn.Read\<close>: \<open>io.MultiReader\<close> over the first byte and the pipe.\<close>

definition pipe_Read :: "nat \<Rightarrow> nat \<Rightarrow> pipe_conn \<Rightarrow> (bytes res \<times> pipe_conn) option" where
  "pipe_Read n k c =
     (case pc_first c of
        Some (b # bs) \<Rightarrow> Some (Inr (take n (b # bs)), c\<lparr>pc_first := Some (drop n (b # bs))\<rparr>)
      | _ \<Rightarrow> map_option (\<lambda>(r, out). (r, c\<lparr>pc_first := None, pc_out := out\<rparr>)) (out_read n k (pc_out c)))"

definition err_file_closed :: gerror where
  "err_file_closed = ErrText ''file already closed''"

text \<open>\<open>pipeConn.Write\<close>, of which the pipe takes \<open>k\<close> bytes before an error, and \<open>Close\<close>.\<close>

definition pipe_Write :: "(nat \<times> gerror) option \<Rightarrow> bytes \<Rightarrow> pipe_conn \<Rightarrow> (nat \<times> gerror option) \<times> pipe_conn" where
  "pipe_Write fault p c =
     (if pc_closed c then ((0, Some err_file_closed), c)
      else
        (case fault of
           None \<Rightarrow> ((length p, None), c\<lparr>pc_in := pc_in c @ p\<rparr>)
         | Some (k, e) \<Rightarrow> ((min k (length p), Some e), c\<lparr>pc_in := pc_in c @ take k p\<rparr>)))"

definition pipe_Close :: "pipe_conn \<Rightarrow> pipe_conn" where
  "pipe_Close c = c\<lparr>pc_closed := True\<rparr>"

section \<open>The dialers\<close>

text \<open>
  The functions handed to \<open>grpc.WithContextDialer\<close>: the pipe with its \<open>sync.Once\<close>, a unix
  socket, a websocket, and the listener in memory; and the connections they return.
\<close>

datatype dialer = PipeDialer bool pipe_conn | UnixDialer string | WSDialer string | MemDialer

datatype net_conn = PipeConn pipe_conn | UnixConn string | WSConn string "string list" | MemConn

text \<open>What the network answers to a unix socket, to a websocket with its subprotocols, and the listener.\<close>

record dial_net =
  dn_unix :: "string \<Rightarrow> gerror option"
  dn_ws :: "string \<Rightarrow> string list \<Rightarrow> gerror option"
  dn_mem :: "gerror option"

definition pipe_dial :: "bool \<Rightarrow> pipe_conn \<Rightarrow> net_conn res \<times> bool" where
  "pipe_dial consumed c =
     (if consumed then (Inl (ErrText ''stdio pipe already consumed''), True) else (Inr (PipeConn c), True))"

definition ws_dial :: "dial_net \<Rightarrow> string \<Rightarrow> net_conn res" where
  "ws_dial net uri =
     (case dn_ws net uri [''grpc''] of
        Some e \<Rightarrow> Inl (ErrWrap (''websocket dial '' @ uri) e)
      | None \<Rightarrow> Inr (WSConn uri [''grpc'']))"

fun call_dialer :: "dial_net \<Rightarrow> dialer \<Rightarrow> net_conn res \<times> dialer" where
  "call_dialer net (PipeDialer consumed c) = map_prod id (\<lambda>x. PipeDialer x c) (pipe_dial consumed c)"
| "call_dialer net (UnixDialer path) =
     ((case dn_unix net path of Some e \<Rightarrow> Inl e | None \<Rightarrow> Inr (UnixConn path)), UnixDialer path)"
| "call_dialer net (WSDialer uri) = (ws_dial net uri, WSDialer uri)"
| "call_dialer net MemDialer = ((case dn_mem net of Some e \<Rightarrow> Inl e | None \<Rightarrow> Inr MemConn), MemDialer)"

section \<open>Dialling\<close>

datatype dial_option = InsecureCredentials | WithBlock | ForceJsonCodec | ContextDialer dialer

text \<open>\<open>grpc.NewClient\<close> and \<open>grpc.DialContext\<close>: what they make of a target and options.\<close>

type_synonym 'conn grpc = "string \<Rightarrow> dial_option list \<Rightarrow> 'conn res"

definition isUnixAddress :: "string \<Rightarrow> bool" where
  "isUnixAddress addr \<longleftrightarrow> 7 < length addr \<and> take 7 addr = ''unix://''"

definition Dial :: "'conn grpc \<Rightarrow> string \<Rightarrow> 'conn res" where
  "Dial grpc address =
     (if isUnixAddress address then
        grpc ''passthrough:///unix'' [InsecureCredentials, ContextDialer (UnixDialer (drop 7 address))]
      else grpc address [InsecureCredentials])"

definition DialWebSocket :: "'conn grpc \<Rightarrow> string \<Rightarrow> 'conn res" where
  "DialWebSocket grpc uri =
     (case grpc ''passthrough:///ws'' [InsecureCredentials, ContextDialer (WSDialer uri), WithBlock] of
        Inl e \<Rightarrow> Inl (ErrWrap ''grpc handshake over ws'' e)
      | Inr conn \<Rightarrow> Inr conn)"

definition DialMem :: "'conn grpc \<Rightarrow> 'conn res" where
  "DialMem grpc = grpc ''passthrough:///mem'' [InsecureCredentials, ContextDialer MemDialer]"

text \<open>
  The select of the startup: the goroutine that reads the first byte, or the context. \<open>out\<close> is
  the output of the child at that time; \<open>None\<close>: the branch is not ready.
\<close>

datatype start_branch = FromRead | FromCtx

definition first_byte :: "child_out \<Rightarrow> (char res \<times> child_out) option" where
  "first_byte out =
     (case co_unread out of
        b # bs \<Rightarrow> Some (Inr b, out\<lparr>co_unread := bs\<rparr>)
      | [] \<Rightarrow> map_option (\<lambda>e. (Inl e, out)) (co_end out))"

definition kill_and_wait :: "proc_call list" where
  "kill_and_wait = [KillProcess, WaitProcess]"

text \<open>\<open>DialStdio\<close>: the result, and the calls it makes of the process.\<close>

definition DialStdio ::
    "'conn grpc \<Rightarrow> child_env \<Rightarrow> start_branch \<Rightarrow> child_out \<Rightarrow> string \<Rightarrow> ('conn res \<times> proc_call list) option" where
  "DialStdio grpc env branch out binaryPath =
     (let args = [binaryPath, ''serve'', ''--listen'', ''stdio://''] in
      case ce_stdin env of
        Some e \<Rightarrow> Some (Inl (ErrWrap ''create stdin pipe'' e), [StdinPipe])
      | None \<Rightarrow>
      case ce_stdout env of
        Some e \<Rightarrow> Some (Inl (ErrWrap ''create stdout pipe'' e), [StdinPipe, StdoutPipe])
      | None \<Rightarrow>
      case ce_start env of
        Some e \<Rightarrow> Some (Inl (ErrWrap (''start '' @ binaryPath) e), [StdinPipe, StdoutPipe, StartProcess args False])
      | None \<Rightarrow>
        (let started = [StdinPipe, StdoutPipe, StartProcess args True] in
         case branch of
           FromCtx \<Rightarrow> Some (Inl (ErrText ''server startup timeout''), started @ kill_and_wait)
         | FromRead \<Rightarrow>
             (case first_byte out of
                None \<Rightarrow> None
              | Some (Inl e, _) \<Rightarrow> Some (Inl (ErrWrap ''server did not start'' e), started @ kill_and_wait)
              | Some (Inr b, out') \<Rightarrow>
                  (case grpc ''passthrough:///stdio''
                          [InsecureCredentials, ContextDialer (PipeDialer False (new_pipe_conn b out')), WithBlock] of
                     Inl e \<Rightarrow> Some (Inl (ErrWrap ''grpc handshake over stdio'' e), started @ kill_and_wait)
                   | Inr conn \<Rightarrow> Some (Inr conn, started)))))"

section \<open>The dialling of the echo client\<close>

text \<open>\<open>killAndWait\<close> of a command that may be nil or not started.\<close>

definition killAndWait :: "bool \<Rightarrow> proc_call list" where
  "killAndWait started = (if \<not> started then [] else [KillProcess, WaitProcess])"

definition dialStdioCommand ::
    "'conn grpc \<Rightarrow> child_env \<Rightarrow> start_branch \<Rightarrow> child_out \<Rightarrow> string list \<Rightarrow> ('conn res \<times> proc_call list) option" where
  "dialStdioCommand grpc env branch out args =
     (case ce_stdin env of
        Some e \<Rightarrow> Some (Inl (ErrWrap ''create stdin pipe'' e), [StdinPipe])
      | None \<Rightarrow>
      case ce_stdout env of
        Some e \<Rightarrow> Some (Inl (ErrWrap ''create stdout pipe'' e), [StdinPipe, StdoutPipe])
      | None \<Rightarrow>
      case ce_start env of
        Some e \<Rightarrow> Some (Inl (ErrWrap ''start stdio server'' e), [StdinPipe, StdoutPipe, StartProcess args False])
      | None \<Rightarrow>
        (let started = [StdinPipe, StdoutPipe, StartProcess args True] in
         case branch of
           FromCtx \<Rightarrow> Some (Inl (ErrText ''stdio server startup timeout''), started @ killAndWait True)
         | FromRead \<Rightarrow>
             (case first_byte out of
                None \<Rightarrow> None
              | Some (Inl e, _) \<Rightarrow> Some (Inl (ErrWrap ''stdio server startup failed'' e), started @ killAndWait True)
              | Some (Inr b, out') \<Rightarrow>
                  (case grpc ''passthrough:///stdio''
                          [InsecureCredentials, ContextDialer (PipeDialer False (new_pipe_conn b out')), WithBlock,
                           ForceJsonCodec] of
                     Inl e \<Rightarrow> Some (Inl (ErrWrap ''grpc handshake over stdio'' e), started @ killAndWait True)
                   | Inr conn \<Rightarrow> Some (Inr conn, started)))))"

definition binary_args :: "string \<Rightarrow> string \<Rightarrow> string list" where
  "binary_args binaryPath serverSDK = [binaryPath, ''serve'', ''--listen'', ''stdio://'', ''--sdk'', serverSDK]"

definition go_run_args :: "string \<Rightarrow> string \<Rightarrow> string list" where
  "go_run_args goBinary serverSDK =
     [if goBinary = [] then ''go'' else goBinary, ''run'', ''./cmd/echo-server'', ''--listen'', ''stdio://'',
      ''--sdk'', serverSDK]"

text \<open>\<open>dial\<close>; the last component is whether a connection comes with a child.\<close>

definition client_dial ::
    "'conn grpc \<Rightarrow> child_env \<Rightarrow> start_branch \<Rightarrow> child_out \<Rightarrow> string \<Rightarrow> string \<Rightarrow> string \<Rightarrow> string \<Rightarrow>
     ('conn res \<times> proc_call list \<times> bool) option" where
  "client_dial grpc env branch out uri serverSDK goBinary stdioBin =
     (if isStdioURI uri then
        map_option (\<lambda>(r, calls). (r, calls, True))
          (dialStdioCommand grpc env branch out
            (if stdioBin \<noteq> [] then binary_args stdioBin serverSDK else go_run_args goBinary serverSDK))
      else
        Some
          ((case normalizeTarget uri of
              Inl e \<Rightarrow> Inl e
            | Inr (DialAddress target) \<Rightarrow> grpc target [InsecureCredentials, WithBlock, ForceJsonCodec]
            | Inr (DialUnix path) \<Rightarrow>
                grpc ''passthrough:///unix''
                  [InsecureCredentials, WithBlock, ForceJsonCodec, ContextDialer (UnixDialer path)]),
           [], False))"

end
