(* ===== verification/Commands.thy ===== *)
theory Commands
  imports GrpcDial
begin

text \<open>
  \<^verbatim>\<open>pkg/serve\<close> and the two commands: the JSON codec and the echo service, the flags, the
  servers from their listeners to their shutdown, and the client from its dialling to what it
  prints. The grpc server is its calls, and when its \<open>Serve\<close> returns is an input.
\<close>

section \<open>The codec\<close>

record ping_request =
  rq_message :: string

record ping_response =
  rs_message :: string
  rs_sdk :: string
  rs_version :: string

definition marshal_request :: "ping_request \<Rightarrow> bytes" where
  "marshal_request r = print_fields [(''message'', json_quote (rq_message r))]"

definition marshal_response :: "ping_response \<Rightarrow> bytes" where
  "marshal_response r =
     print_fields [(''message'', json_quote (rs_message r)), (''sdk'', json_quote (rs_sdk r)),
       (''version'', json_quote (rs_version r))]"

text \<open>\<open>json.Unmarshal\<close> into a zero struct of strings; names match up to case.\<close>

fun fill_strings ::
    "string list \<Rightarrow> (string \<times> string \<times> gany) list \<Rightarrow> (string \<Rightarrow> string) \<Rightarrow> (string \<Rightarrow> string) option" where
  "fill_strings names [] f = Some f"
| "fill_strings names ((k, raw, v) # ms) f =
     (if fold_name k \<in> set names then
        (case store_string (f (fold_name k)) v of
           None \<Rightarrow> None
         | Some s \<Rightarrow> fill_strings names ms (f(fold_name k := s)))
      else fill_strings names ms f)"

definition unmarshal_strings :: "string list \<Rightarrow> bytes \<Rightarrow> (string \<Rightarrow> string) option" where
  "unmarshal_strings names data =
     (case json_unmarshal data of
        Some GNull \<Rightarrow> Some (\<lambda>_. [])
      | Some (GObj _) \<Rightarrow>
          (case json_members data of None \<Rightarrow> None | Some ms \<Rightarrow> fill_strings names ms (\<lambda>_. []))
      | _ \<Rightarrow> None)"

definition unmarshal_request :: "bytes \<Rightarrow> ping_request option" where
  "unmarshal_request data = map_option (\<lambda>f. \<lparr>rq_message = f ''message''\<rparr>) (unmarshal_strings [''message''] data)"

definition unmarshal_response :: "bytes \<Rightarrow> ping_response option" where
  "unmarshal_response data =
     map_option (\<lambda>f. \<lparr>rs_message = f ''message'', rs_sdk = f ''sdk'', rs_version = f ''version''\<rparr>)
       (unmarshal_strings [''message'', ''sdk'', ''version''] data)"

section \<open>The echo service\<close>

record echo_options =
  listenURI :: string
  o_sdk :: string
  o_version :: string

definition Ping :: "echo_options \<Rightarrow> ping_request \<Rightarrow> ping_response" where
  "Ping s r = \<lparr>rs_message = rq_message r, rs_sdk = o_sdk s, rs_version = o_version s\<rparr>"

text \<open>
  The handler of the method description: \<open>dec\<close> has decoded the request, and an interceptor gets
  it with the method's name and the call itself.
\<close>

definition ping_handler ::
    "(ping_request \<Rightarrow> string \<Rightarrow> (ping_request \<Rightarrow> ping_response res) \<Rightarrow> ping_response res) option \<Rightarrow>
     echo_options \<Rightarrow> ping_request res \<Rightarrow> ping_response res" where
  "ping_handler interceptor s dec =
     (case dec of
        Inl e \<Rightarrow> Inl e
      | Inr r \<Rightarrow>
          (case interceptor of
             None \<Rightarrow> Inr (Ping s r)
           | Some f \<Rightarrow> f r ''/echo.v1.Echo/Ping'' (\<lambda>q. Inr (Ping s q))))"

text \<open>The service on the wire: the codec around the handler, without an interceptor.\<close>

definition serve_ping :: "echo_options \<Rightarrow> bytes \<Rightarrow> bytes res" where
  "serve_ping s data =
     (case ping_handler None s (case unmarshal_request data of None \<Rightarrow> Inl ErrJson | Some r \<Rightarrow> Inr r) of
        Inl e \<Rightarrow> Inl e
      | Inr r \<Rightarrow> Inr (marshal_response r))"

section \<open>Flags\<close>

text \<open>
  The \<^verbatim>\<open>flag\<close> package for string flags named \<open>names\<close>, from left to right: one dash or two, the
  value after \<open>=\<close> or in the next argument; the arguments end at the first that is no flag or at
  \<open>--\<close>. \<open>FlagsBad\<close> ends the program with 2, the undefined \<open>-h\<close> and \<open>-help\<close> with 0.
\<close>

datatype flags = FlagsOk "string \<Rightarrow> string" | FlagsHelp | FlagsBad

definition flag_name :: "string \<Rightarrow> string" where
  "flag_name s = drop (if take 2 s = ''--'' then 2 else 1) s"

definition flag_split :: "string \<Rightarrow> string \<times> string option" where
  "flag_split name =
     (case str_index ''='' name of None \<Rightarrow> (name, None) | Some i \<Rightarrow> (take i name, Some (drop (Suc i) name)))"

fun flag_scan :: "string list \<Rightarrow> string list \<Rightarrow> (string \<Rightarrow> string) \<Rightarrow> flags" where
  "flag_scan names [] f = FlagsOk f"
| "flag_scan names (s # args) f =
     (if length s < 2 \<or> hd s \<noteq> CHR ''-'' \<or> s = ''--'' then FlagsOk f
      else if flag_name s = [] \<or> hd (flag_name s) \<in> {CHR ''-'', CHR ''=''} then FlagsBad
      else
        (case flag_split (flag_name s) of
           (name, v) \<Rightarrow>
             if name \<notin> set names then (if name = ''help'' \<or> name = ''h'' then FlagsHelp else FlagsBad)
             else
               (case v of
                  Some x \<Rightarrow> flag_scan names args (f(name := x))
                | None \<Rightarrow>
                    (case args of
                       [] \<Rightarrow> FlagsBad
                     | x # args' \<Rightarrow> flag_scan names args' (f(name := x))))))"

definition echo_flag_defaults :: "string \<Rightarrow> string" where
  "echo_flag_defaults =
     (\<lambda>_. [])(''listen'' := ''tcp://127.0.0.1:0'', ''sdk'' := ''go-holons'', ''version'' := ''0.3.0'')"

text \<open>\<open>parseFlags\<close>; \<open>Inl\<close> is the code the program ends with.\<close>

definition parseFlags :: "string list \<Rightarrow> nat + echo_options" where
  "parseFlags args =
     (case flag_scan [''listen'', ''port'', ''sdk'', ''version''] args echo_flag_defaults of
        FlagsHelp \<Rightarrow> Inl 0
      | FlagsBad \<Rightarrow> Inl 2
      | FlagsOk f \<Rightarrow>
          Inr \<lparr>listenURI = (if f ''port'' \<noteq> [] then ''tcp://127.0.0.1:'' @ f ''port'' else f ''listen''),
            o_sdk = f ''sdk'', o_version = f ''version''\<rparr>)"

section \<open>The echo server\<close>

datatype server_call = Serve | GracefulStop | Stop

text \<open>\<open>shutdown\<close>: whether \<open>GracefulStop\<close> has returned within two seconds.\<close>

definition shutdown :: "bool \<Rightarrow> server_call list" where
  "shutdown in_time = GracefulStop # (if in_time then [] else [Stop])"

text \<open>\<open>errors.Is\<close>\<close>

fun error_is :: "gerror \<Rightarrow> gerror \<Rightarrow> bool" where
  "error_is (ErrWrap s e) target \<longleftrightarrow> ErrWrap s e = target \<or> error_is e target"
| "error_is e target \<longleftrightarrow> e = target"

text \<open>\<open>stopped\<close> is \<open>grpc.ErrServerStopped\<close>; the texts are ASCII.\<close>

definition isBenignServeError :: "gerror \<Rightarrow> gerror option \<Rightarrow> bool" where
  "isBenignServeError stopped err =
     (case err of
        None \<Rightarrow> True
      | Some e \<Rightarrow>
          error_is e stopped \<or> str_index ''use of closed network connection'' (to_lower (error_text e)) \<noteq> None)"

text \<open>
  What \<open>main\<close> waits for: \<open>Serve\<close> returns, or a signal comes, the shutdown is in time or not, and
  then \<open>Serve\<close> returns.
\<close>

datatype serve_wake = ServeEnded "gerror option" | Signalled bool "gerror option"

record echo_run =
  er_exit :: nat
  er_stdout :: "string list"
  er_listen :: "os_call list"
  er_calls :: "server_call list"

definition serve_exit :: "gerror \<Rightarrow> gerror option \<Rightarrow> nat" where
  "serve_exit stopped err = (if err \<noteq> None \<and> \<not> isBenignServeError stopped err then 1 else 0)"

text \<open>
  \<open>main\<close> with the arguments after the program's name; \<open>None\<close>: the process ends by the signal,
  which it does not catch on stdio.
\<close>

definition strip_serve :: "string list \<Rightarrow> string list" where
  "strip_serve argv = (if argv \<noteq> [] \<and> hd argv = ''serve'' then tl argv else argv)"

definition echo_server_main :: "os_env \<Rightarrow> gerror \<Rightarrow> serve_wake \<Rightarrow> string list \<Rightarrow> echo_run option" where
  "echo_server_main env stopped wake argv =
     (case parseFlags (strip_serve argv) of
        Inl code \<Rightarrow> Some \<lparr>er_exit = code, er_stdout = [], er_listen = [], er_calls = []\<rparr>
      | Inr opts \<Rightarrow>
          (case Listen env (listenURI opts) of
             (Inl e, os) \<Rightarrow> Some \<lparr>er_exit = 1, er_stdout = [], er_listen = os, er_calls = []\<rparr>
           | (Inr lis, os) \<Rightarrow>
               if isStdioURI (listenURI opts) then
                 (case wake of
                    ServeEnded err \<Rightarrow>
                      Some \<lparr>er_exit = serve_exit stopped err, er_stdout = [], er_listen = os, er_calls = [Serve]\<rparr>
                  | Signalled _ _ \<Rightarrow> None)
               else
                 (let printed = [publicURI (listenURI opts) (listener_addr lis)] in
                  case wake of
                    ServeEnded err \<Rightarrow>
                      Some \<lparr>er_exit = serve_exit stopped err, er_stdout = printed, er_listen = os, er_calls = [Serve]\<rparr>
                  | Signalled in_time err \<Rightarrow>
                      Some \<lparr>er_exit = serve_exit stopped err, er_stdout = printed, er_listen = os,
                        er_calls = Serve # shutdown in_time\<rparr>)))"

section \<open>The echo client\<close>

text \<open>The flags after \<open>flag.Parse\<close>, with the arguments that are left.\<close>

record client_flags =
  cf_sdk :: string
  cf_server_sdk :: string
  cf_message :: string
  cf_timeout_ms :: int
  cf_go :: string
  cf_stdio_bin :: string
  cf_args :: "string list"

definition defaultGoBinary :: "os_env \<Rightarrow> string" where
  "defaultGoBinary env =
     (if TrimSpace (e_getenv env ''GO_BIN'') \<noteq> [] then TrimSpace (e_getenv env ''GO_BIN'') else ''go'')"

text \<open>The timeout of dialling and call, in nanoseconds.\<close>

definition client_timeout :: "int \<Rightarrow> 64 word" where
  "client_timeout ms =
     (let t = word_of_int ms * 1000000 in if sint t \<le> 0 then 5000000000 else (t :: 64 word))"

definition client_report :: "client_flags \<Rightarrow> int \<Rightarrow> string \<Rightarrow> string" where
  "client_report fl latency response_sdk =
     json_print (GObj [(''latency_ms'', GNum (itoa latency)), (''response_sdk'', GStr response_sdk),
       (''sdk'', GStr (cf_sdk fl)), (''server_sdk'', GStr (cf_server_sdk fl)), (''status'', GStr ''pass'')]) @ [CHR 10]"

text \<open>
  \<open>main\<close>: the exit code, what it prints on stdout, and the calls it makes of the child. \<open>os.Exit\<close>
  does not run what is deferred. \<open>invoke\<close> is \<open>conn.Invoke\<close> without its codec.
\<close>

definition echo_client_main ::
    "'conn grpc \<Rightarrow> ('conn \<Rightarrow> string \<Rightarrow> bytes \<Rightarrow> bytes res) \<Rightarrow> child_env \<Rightarrow> start_branch \<Rightarrow> child_out \<Rightarrow> int \<Rightarrow>
     client_flags \<Rightarrow> (nat \<times> string \<times> proc_call list) option" where
  "echo_client_main grpc invoke env branch out latency fl =
     (case cf_args fl of
        [] \<Rightarrow> Some (2, [], [])
      | arg # _ \<Rightarrow>
          (case client_dial grpc env branch out (normalizeURI arg) (cf_server_sdk fl) (TrimSpace (cf_go fl))
                  (TrimSpace (cf_stdio_bin fl)) of
             None \<Rightarrow> None
           | Some (Inl e, calls, _) \<Rightarrow> Some (1, [], calls)
           | Some (Inr conn, calls, started) \<Rightarrow>
               (case invoke conn ''/echo.v1.Echo/Ping'' (marshal_request \<lparr>rq_message = cf_message fl\<rparr>) of
                  Inl e \<Rightarrow> Some (1, [], calls)
                | Inr data \<Rightarrow>
                    (case unmarshal_response data of
                       None \<Rightarrow> Some (1, [], calls)
                     | Some r \<Rightarrow>
                         if rs_message r \<noteq> cf_message fl then Some (1, [], calls)
                         else Some (0, client_report fl latency (rs_sdk r), calls @ killAndWait started)))))"

section \<open>Run\<close>

text \<open>
  \<open>RunWithOptions\<close> once it listens: the buffered signal, the goroutine of the shutdown, the calls
  of the grpc server in order, and the result of \<open>Serve\<close>.
\<close>

datatype run_phase = AwaitSignal | Draining | Drained | Forced

record run_state =
  ru_reflection :: bool
  ru_signal :: bool
  ru_phase :: run_phase
  ru_calls :: "server_call list"
  ru_result :: "gerror option option"

definition run_start :: "bool \<Rightarrow> run_state" where
  "run_start reflect =
     \<lparr>ru_reflection = reflect, ru_signal = False, ru_phase = AwaitSignal, ru_calls = [], ru_result = None\<rparr>"

definition RunWithOptions :: "os_env \<Rightarrow> string \<Rightarrow> bool \<Rightarrow> run_state res \<times> os_call list" where
  "RunWithOptions env uri reflect =
     (case Listen env uri of
        (Inl e, os) \<Rightarrow> (Inl e, os)
      | (Inr lis, os) \<Rightarrow> (Inr (run_start reflect), os))"

definition Run :: "os_env \<Rightarrow> string \<Rightarrow> run_state res \<times> os_call list" where
  "Run env uri = RunWithOptions env uri True"

text \<open>
  A signal is delivered until \<open>signal.Stop\<close>; the goroutine takes it, drains, and after ten seconds
  forces the stop; \<open>Serve\<close> is called, and returns. \<open>None\<close>: the step is not possible.
\<close>

datatype run_event = RunSignal | RunTake | RunDrained | RunTimeout | RunServe | RunReturn "gerror option"

fun run_step :: "run_event \<Rightarrow> run_state \<Rightarrow> run_state option" where
  "run_step RunSignal r = (if ru_result r = None then Some (r\<lparr>ru_signal := True\<rparr>) else None)"
| "run_step RunTake r =
     (if ru_phase r = AwaitSignal \<and> ru_signal r then
        Some (r\<lparr>ru_signal := False, ru_phase := Draining, ru_calls := ru_calls r @ [GracefulStop]\<rparr>)
      else None)"
| "run_step RunDrained r = (if ru_phase r = Draining then Some (r\<lparr>ru_phase := Drained\<rparr>) else None)"
| "run_step RunTimeout r =
     (if ru_phase r = Draining then Some (r\<lparr>ru_phase := Forced, ru_calls := ru_calls r @ [Stop]\<rparr>) else None)"
| "run_step RunServe r =
     (if Serve \<notin> set (ru_calls r) then Some (r\<lparr>ru_calls := ru_calls r @ [Serve]\<rparr>) else None)"
| "run_step (RunReturn e) r =
     (if Serve \<in> set (ru_calls r) \<and> ru_result r = None then Some (r\<lparr>ru_result := Some e\<rparr>) else None)"

end
