(* ===== verification/TransportSpec.thy ===== *)
theory TransportSpec
  imports Transport Steps "HOL-Library.Multiset"
begin

text \<open>
  Properties of the listeners: what \<open>Listen\<close> asks of the system and what it leaves bound, the
  single connection of stdio, the connections of the websocket listener; and of the flags and
  addresses of the commands.
\<close>

section \<open>Searching a character\<close>

lemma first_index_simps [simp]:
  "first_index c [] = None"
  "first_index c (d # s) = (if c = d then Some 0 else map_option Suc (first_index c s))"
  by (simp_all add: first_index_def HasPrefix_def)

lemma first_index_None: "first_index c s = None \<longleftrightarrow> c \<notin> set s"
  by (induction s) auto

lemma first_index_append: "c \<notin> set s \<Longrightarrow> first_index c (s @ c # t) = Some (length s)"
  by (induction s) auto

lemma first_index_Some:
  "first_index c s = Some i \<Longrightarrow> \<exists>p t. s = p @ c # t \<and> c \<notin> set p \<and> i = length p"
proof (induction s arbitrary: i)
  case (Cons d s)
  show ?case
  proof (cases "c = d")
    case True
    with Cons.prems show ?thesis by (intro exI [of _ "[]"] exI [of _ s]) simp
  next
    case False
    with Cons.prems obtain j where "first_index c s = Some j" "i = Suc j" by auto
    moreover from Cons.IH [OF this(1)] obtain p t where "s = p @ c # t" "c \<notin> set p" "j = length p" by blast
    ultimately show ?thesis using False by (intro exI [of _ "d # p"] exI [of _ t]) simp
  qed
qed simp

lemma last_index_append: "c \<notin> set t \<Longrightarrow> last_index c (s @ c # t) = Some (length s)"
  using first_index_append [of c "rev t" "rev s"] by (simp add: last_index_def)

lemma last_index_Some:
  assumes "last_index c s = Some i"
  obtains p t where "s = p @ c # t" "c \<notin> set t" "i = length p"
proof -
  from assms obtain j where j: "first_index c (rev s) = Some j" "i = length s - Suc j" by (auto simp: last_index_def)
  then obtain p t where "rev s = p @ c # t" "c \<notin> set p" "j = length p" by (metis first_index_Some)
  then have "s = rev t @ c # rev p" by (metis append.assoc append_Cons append_Nil rev.simps(2) rev_append rev_rev_ident)
  with \<open>c \<notin> set p\<close> \<open>j = length p\<close> j(2) show thesis by (intro that [of "rev t" "rev p"]) auto
qed

section \<open>Host and port\<close>

lemma SplitHostPort_parts:
  assumes "SplitHostPort hp = Inr (host, port)"
  shows "set port \<inter> {CHR '':'', CHR ''['', CHR '']''} = {}" and "set host \<inter> {CHR ''['', CHR '']''} = {}"
proof -
  obtain k where k: "last_index CHR '':'' hp = Some k"
    using assms by (cases "last_index CHR '':'' hp") (simp_all add: SplitHostPort_def)
  obtain p t where hp: "hp = p @ CHR '':'' # t" "CHR '':'' \<notin> set t" and "k = length p"
    by (rule last_index_Some [OF k])
  with k have i: "last_index CHR '':'' hp = Some (length p)" by simp
  have "port = t \<and> CHR ''['' \<notin> set t \<and> CHR '']'' \<notin> set t \<and> CHR ''['' \<notin> set host \<and> CHR '']'' \<notin> set host"
  proof (cases "HasPrefix ''['' hp")
    case True
    with assms i obtain e where e: "first_index CHR '']'' hp = Some e" "Suc e = length p"
      "host = take (e - 1) (drop 1 hp)" "port = drop (Suc (length p)) hp"
      "CHR ''['' \<notin> set (drop 1 hp)" "CHR '']'' \<notin> set (drop (Suc e) hp)"
      by (auto simp: SplitHostPort_def first_index_None Let_def split: option.splits if_splits)
    obtain q u where q: "hp = q @ CHR '']'' # u" "CHR '']'' \<notin> set q" "e = length q"
      using first_index_Some [OF e(1)] by blast
    obtain v where v: "hp = CHR ''['' # v" using True by (auto simp: HasPrefix_iff)
    with q obtain q' where q': "q = CHR ''['' # q'" by (cases q) auto
    have "host = q'" using e(3) q q' by simp
    moreover have "port = t" using e(4) hp by simp
    moreover have "set t \<subseteq> set (drop (Suc e) hp)" "set t \<subseteq> set (drop 1 hp)" using hp e(2) by (cases p; auto)+
    moreover have "set q' \<subseteq> set (drop 1 hp)" using q q' by auto
    ultimately show ?thesis using e(5,6) q(2) q' by auto
  next
    case False
    with assms i have "host = p" "port = t" "CHR ''['' \<notin> set hp" "CHR '']'' \<notin> set hp"
      using hp by (auto simp: SplitHostPort_def first_index_None Let_def split: if_splits)
    with hp show ?thesis by auto
  qed
  with hp(2) show "set port \<inter> {CHR '':'', CHR ''['', CHR '']''} = {}" and "set host \<inter> {CHR ''['', CHR '']''} = {}"
    by auto
qed

lemma SplitHostPort_join:
  assumes "set port \<inter> {CHR '':'', CHR ''['', CHR '']''} = {}" and "set host \<inter> {CHR ''['', CHR '']''} = {}"
  shows "SplitHostPort (host @ CHR '':'' # port) =
    (if CHR '':'' \<in> set host then Inl (addr_err (host @ CHR '':'' # port) ''too many colons in address'')
     else Inr (host, port))"
proof -
  have i: "last_index CHR '':'' (host @ CHR '':'' # port) = Some (length host)"
    using assms(1) by (intro last_index_append) auto
  have "\<not> HasPrefix ''['' (host @ CHR '':'' # port)" using assms(2) by (cases host) (auto simp: HasPrefix_def)
  with assms i show ?thesis by (auto simp: SplitHostPort_def first_index_None)
qed

section \<open>Listen\<close>

text \<open>The sockets that a sequence of calls binds.\<close>

definition binds :: "os_env \<Rightarrow> os_call list \<Rightarrow> nat" where
  "binds env calls =
     length (filter (\<lambda>c. case c of OsRemove p \<Rightarrow> False | NetListen n a \<Rightarrow> \<not> isl (e_listen env n a)) calls)"

lemma newWSListener_calls:
  "OsRemove p \<notin> set (snd (newWSListener env uri))"
  "binds env (snd (newWSListener env uri)) = (case fst (newWSListener env uri) of Inl _ \<Rightarrow> 0 | Inr _ \<Rightarrow> 1)"
  "fst (newWSListener env uri) \<notin> {Inr StdioListener, Inr MemListener}"
  by (auto simp: newWSListener_def Let_def binds_def split: sum.split)

lemma schemes_disjoint:
  "\<not> HasPrefix ''unix://'' (''tcp://'' @ s)" "HasPrefix ''tcp://'' s \<Longrightarrow> s \<noteq> ''unix://'' @ p"
  "s = ''stdio://'' \<or> s = ''stdio'' \<Longrightarrow> s \<noteq> ''unix://'' @ p"
  by (auto simp: HasPrefix_iff)

text \<open>
  What \<open>Listen\<close> asks of the system. It removes a file only for a unix URI with a path that
  is not blank, and then only the file of that path; a listener over a socket has bound exactly
  one, and a URI that is refused, an error of the system included, leaves none bound.
\<close>

lemma listen_effects:
  "(\<forall>p. OsRemove p \<in> set (snd (Listen env uri)) \<longleftrightarrow> uri = ''unix://'' @ p \<and> TrimSpace p \<noteq> []) \<and>
   binds env (snd (Listen env uri)) =
     (case fst (Listen env uri) of
        Inl e \<Rightarrow> 0
      | Inr l \<Rightarrow> if l \<in> {StdioListener, MemListener} then 0 else 1)"
proof -
  consider (tcp) "HasPrefix ''tcp://'' uri" | (unix) path where "uri = ''unix://'' @ path"
    | (other) "\<not> HasPrefix ''tcp://'' uri" "\<not> HasPrefix ''unix://'' uri"
    by (auto simp: HasPrefix_iff)
  then show ?thesis
  proof cases
    case tcp
    then have "uri \<noteq> ''unix://'' @ p" for p by (rule schemes_disjoint(2))
    with tcp show ?thesis by (auto simp: Listen_def Let_def binds_def split: sum.split)
  next
    case (unix path)
    then have "\<not> HasPrefix ''tcp://'' uri" "HasPrefix ''unix://'' uri" "TrimPrefix ''unix://'' uri = path"
      by (simp_all add: HasPrefix_def TrimPrefix_def)
    with unix show ?thesis
      by (auto simp: Listen_def Let_def binds_def split: sum.split remove_outcome.split)
  next
    case other
    then have "uri \<noteq> ''unix://'' @ p" for p by (auto simp: HasPrefix_iff)
    with other newWSListener_calls [where env = env and uri = uri] show ?thesis
      by (auto simp: Listen_def binds_def split: sum.split)
  qed
qed

section \<open>The stdio listener\<close>

datatype stdio_event = SeAccept accept_branch | SeClose

text \<open>A run of the listener, with what each \<open>Accept\<close> returned.\<close>

fun stdio_run :: "stdio_event list \<Rightarrow> stdio \<Rightarrow> (unit res list \<times> stdio) option" where
  "stdio_run [] l = Some ([], l)"
| "stdio_run (SeClose # es) l = stdio_run es (stdio_shutdown l)"
| "stdio_run (SeAccept b # es) l =
     (case stdio_Accept b l of
        None \<Rightarrow> None
      | Some (r, l') \<Rightarrow> map_option (\<lambda>(outs, l'). (r # outs, l')) (stdio_run es l'))"

lemma stdio_run_counts:
  "stdio_run es l = Some (outs, l') \<Longrightarrow>
   length (filter (\<lambda>r. \<not> isl r) outs) + of_bool (io_conn l') = (of_bool (io_conn l) :: nat) \<and>
   (io_closed l' \<longleftrightarrow> io_closed l \<or> SeClose \<in> set es)"
proof (induction es l arbitrary: outs rule: stdio_run.induct)
  case (3 b es l)
  from "3.prems" obtain r m outs' where
    m: "stdio_Accept b l = Some (r, m)" "stdio_run es m = Some (outs', l')" "outs = r # outs'"
    by (auto split: option.splits)
  with "3.IH" [OF m(1) refl m(2)] show ?case
    by (cases b) (auto simp: stdio_Accept_def err_eof_def split: if_splits)
qed (auto simp: stdio_shutdown_def split: if_splits)

text \<open>
  C35: The stdio listener hands out one connection. In every run of \<open>Accept\<close> and \<open>Close\<close> calls
  (of the listener or of its connection), at most one \<open>Accept\<close> returns the connection; another
  \<open>Accept\<close> blocks until a \<open>Close\<close> and fails with EOF after it. A connection not accepted before
  \<open>Close\<close> may still be returned after it.
\<close>

theorem stdio_single_connection:
  assumes "stdio_run es newStdioListener = Some (outs, l)"
  shows "length (filter (\<lambda>r. \<not> isl r) outs) \<le> 1 \<and>
    stdio_Accept FromConns l =
      (if \<forall>r \<in> set outs. isl r then Some (Inr (), l\<lparr>io_conn := False\<rparr>)
       else if SeClose \<in> set es then Some (Inl err_eof, l) else None) \<and>
    stdio_Accept FromDone l = (if SeClose \<in> set es then Some (Inl err_eof, l) else None)"
proof -
  have "length (filter (\<lambda>r. \<not> isl r) outs) + of_bool (io_conn l) = (1 :: nat)"
    and closed: "io_closed l \<longleftrightarrow> SeClose \<in> set es"
    using stdio_run_counts [OF assms] by (simp_all add: newStdioListener_def)
  then have "length (filter (\<lambda>r. \<not> isl r) outs) \<le> 1" and "io_conn l \<longleftrightarrow> filter (\<lambda>r. \<not> isl r) outs = []"
    by (cases "io_conn l"; auto)+
  with closed show ?thesis by (auto simp: stdio_Accept_def filter_empty_conv)
qed

lemma stdio_single_connection_witness:
  "stdio_run [SeAccept FromConns, SeClose, SeAccept FromDone] newStdioListener =
     Some ([Inr (), Inl err_eof], \<lparr>io_conn = False, io_closed = True\<rparr>) \<and>
   stdio_Accept FromConns \<lparr>io_conn = False, io_closed = True\<rparr> =
     Some (Inl err_eof, \<lparr>io_conn = False, io_closed = True\<rparr>)"
proof -
  have r: "stdio_run [SeAccept FromConns, SeClose, SeAccept FromDone] newStdioListener =
     Some ([Inr (), Inl err_eof], \<lparr>io_conn = False, io_closed = True\<rparr>)"
    by (simp add: stdio_Accept_def newStdioListener_def stdio_shutdown_def)
  from stdio_single_connection [OF r] r show ?thesis by simp
qed

section \<open>The websocket listener\<close>

inductive ws_step :: "ws_listener \<Rightarrow> ws_listener \<Rightarrow> bool" where
  ws_upgraded: "ws_step l (ws_upgrade ok l)"
| ws_handed: "ws_handover b conn l = Some l' \<Longrightarrow> ws_step l l'"
| ws_accepted: "ws_Accept b l = Some (r, l') \<Longrightarrow> ws_step l l'"
| ws_closed: "ws_step l (ws_Close l)"

inductive_cases ws_stepE [elim!]: "ws_step l l'"

definition ws_conns :: "ws_listener \<Rightarrow> nat multiset" where
  "ws_conns l = mset (wl_upgraded l) + mset (wl_queue l) + mset (wl_accepted l) + mset (wl_dropped l)"

definition wl_inv :: "ws_listener \<Rightarrow> bool" where
  "wl_inv l \<longleftrightarrow>
     ws_conns l = mset [0..<wl_next l] \<and> length (wl_queue l) \<le> ws_capacity \<and>
     (wl_dropped l \<noteq> [] \<longrightarrow> wl_done l)"

lemma ids_Suc: "mset_set {0..<Suc n} = add_mset n (mset_set {0..<n})"
  by (simp add: atLeast0_lessThan_Suc)

lemma wl_inv_step:
  assumes "wl_inv l" and "ws_step l l'"
  shows "wl_inv l'"
  using assms(2)
proof (cases rule: ws_step.cases)
  case (ws_handed b conn)
  then have mem: "conn \<in># mset (wl_upgraded l)" by (auto simp: ws_handover_def split: if_splits)
  show ?thesis
  proof (cases b)
    case FromConns
    with ws_handed have l': "l' = l\<lparr>wl_upgraded := remove1 conn (wl_upgraded l), wl_queue := wl_queue l @ [conn]\<rparr>"
      "length (wl_queue l) < ws_capacity" by (auto simp: ws_handover_def split: if_splits)
    have "ws_conns l' = ws_conns l" using mem by (simp add: l' ws_conns_def)
    with assms(1) l' show ?thesis by (simp add: wl_inv_def)
  next
    case FromDone
    with ws_handed have l': "l' = l\<lparr>wl_upgraded := remove1 conn (wl_upgraded l), wl_dropped := wl_dropped l @ [conn]\<rparr>"
      "wl_done l" by (auto simp: ws_handover_def split: if_splits)
    have "ws_conns l' = ws_conns l" using mem by (simp add: l' ws_conns_def)
    with assms(1) l' show ?thesis by (simp add: wl_inv_def)
  qed
qed (use assms(1) in \<open>auto simp: wl_inv_def ws_conns_def ws_upgrade_def ws_Accept_def ws_Close_def ids_Suc
    split: accept_branch.splits list.splits if_splits\<close>)

interpretation wl: closed_system new_ws_listener ws_step wl_inv
proof
  show "wl_inv new_ws_listener" by (simp add: wl_inv_def new_ws_listener_def ws_conns_def)
qed (rule wl_inv_step)

text \<open>
  C34: The connections of the websocket listener. In every reachable state each connection that
  was upgraded is in one place once: at its upgrade handler, in the channel of at most 16,
  returned by \<open>Accept\<close>, or closed by the listener, which happens only after \<open>Close\<close>. After
  \<open>Close\<close>, every handler that waits and every \<open>Accept\<close> can end at once.
\<close>

theorem ws_listener_sound:
  assumes "reach_in new_ws_listener ws_step n l"
  shows "mset (wl_upgraded l @ wl_queue l @ wl_accepted l @ wl_dropped l) = mset [0..<wl_next l] \<and>
    length (wl_queue l) \<le> 16 \<and>
    (if wl_done l
     then (\<forall>conn \<in> set (wl_upgraded l). ws_handover FromDone conn l \<noteq> None) \<and> ws_Accept FromDone l = Some (Inl err_eof, l)
     else wl_dropped l = [])"
  using wl.reachable_inv [OF assms]
  by (auto simp: wl_inv_def ws_conns_def ws_capacity_def ws_handover_def ws_Accept_def ac_simps)

lemma ws_listener_sound_witness:
  "\<exists>l. reach_in new_ws_listener ws_step 2 l \<and> wl_upgraded l = [0] \<and> wl_done l \<and> ws_handover FromDone 0 l \<noteq> None"
proof -
  let ?l = "ws_Close (ws_upgrade True new_ws_listener)"
  have "reach_in new_ws_listener ws_step (Suc 0) (ws_upgrade True new_ws_listener)"
    by (rule reach_move [OF reach_start]) (rule ws_upgraded)
  then have r: "reach_in new_ws_listener ws_step (Suc (Suc 0)) ?l" by (rule reach_move) (rule ws_closed)
  have f: "wl_upgraded ?l = [0]" "wl_done ?l"
    by (simp_all add: ws_Close_def ws_upgrade_def new_ws_listener_def)
  from ws_listener_sound [OF r] f r show ?thesis by (intro exI [of _ ?l]) (simp add: numeral_2_eq_2)
qed

lemma queued_stays:
  assumes "reach_in l ws_step m l'" and "wl_done l" and "conn \<in> set (wl_queue l)"
  shows "wl_done l' \<and> (conn \<in> set (wl_queue l') \<or> conn \<in> set (wl_accepted l'))"
  using assms
proof (induction rule: reach_in.induct)
  case (reach_move n w w')
  then have "wl_done w" "conn \<in> set (wl_queue w) \<or> conn \<in> set (wl_accepted w)" by simp_all
  with reach_move(2) show ?case
    by (auto simp: ws_upgrade_def ws_handover_def ws_Accept_def ws_Close_def
        split: accept_branch.splits list.splits if_splits)
qed simp

lemma reach_in_append: "reach_in w mv n w' \<Longrightarrow> reach_in s mv m w \<Longrightarrow> reach_in s mv (n + m) w'"
  by (induction rule: reach_in.induct) (auto intro: reach_move)

text \<open>
  C38: \<open>Close\<close> of the websocket listener strands the connections of the channel. One that is in
  the channel when the listener is closed is never closed by the listener: unless an \<open>Accept\<close>
  after \<open>Close\<close> happens to take it, it stays in the channel for ever, while \<open>Accept\<close> may
  always answer EOF.
\<close>

theorem ws_close_strands:
  assumes "reach_in new_ws_listener ws_step n l" and "wl_done l" and "conn \<in> set (wl_queue l)"
    and "reach_in l ws_step m l'" and "conn \<notin> set (wl_accepted l')"
  shows "conn \<in> set (wl_queue l') \<and> conn \<notin> set (wl_dropped l') \<and> ws_Accept FromDone l' = Some (Inl err_eof, l')"
proof -
  have queued: "conn \<in> set (wl_queue l')" and "wl_done l'" using queued_stays [OF assms(4,2,3)] assms(5) by auto
  have "wl_inv l'" by (rule wl.reachable_inv [OF reach_in_append [OF assms(4,1)]])
  then have "ws_conns l' = mset [0..<wl_next l']" by (simp add: wl_inv_def)
  then have "count (ws_conns l') conn \<le> 1" by (simp add: count_mset_set')
  then have "count (mset (wl_queue l')) conn + count (mset (wl_dropped l')) conn \<le> 1" by (simp add: ws_conns_def)
  moreover have "1 \<le> count (mset (wl_queue l')) conn"
    using queued by (metis count_greater_eq_one_iff set_mset_mset)
  ultimately have "\<not> 1 \<le> count (mset (wl_dropped l')) conn" by linarith
  then have "conn \<notin> set (wl_dropped l')" by (metis count_greater_eq_one_iff set_mset_mset)
  with queued \<open>wl_done l'\<close> show ?thesis by (simp add: ws_Accept_def)
qed

lemma ws_close_strands_witness:
  "\<exists>l. reach_in new_ws_listener ws_step 3 l \<and> wl_queue l = [0] \<and> 0 \<notin> set (wl_dropped l) \<and>
    ws_Accept FromDone l = Some (Inl err_eof, l)"
proof -
  let ?u = "ws_upgrade True new_ws_listener"
  let ?q = "?u\<lparr>wl_upgraded := [], wl_queue := [0]\<rparr>"
  let ?l = "ws_Close ?q"
  have h: "ws_handover FromConns 0 ?u = Some ?q"
    by (simp add: ws_handover_def ws_upgrade_def new_ws_listener_def ws_capacity_def)
  have "reach_in new_ws_listener ws_step (Suc 0) ?u" by (rule reach_move [OF reach_start]) (rule ws_upgraded)
  then have "reach_in new_ws_listener ws_step (Suc (Suc 0)) ?q" by (rule reach_move) (rule ws_handed [OF h])
  then have r: "reach_in new_ws_listener ws_step (Suc (Suc (Suc 0))) ?l" by (rule reach_move) (rule ws_closed)
  have f: "wl_done ?l" "0 \<in> set (wl_queue ?l)" "0 \<notin> set (wl_accepted ?l)" "wl_queue ?l = [0]"
    by (simp_all add: ws_Close_def ws_upgrade_def new_ws_listener_def)
  from ws_close_strands [OF r f(1,2) reach_start f(3)] r f(4) show ?thesis
    by (intro exI [of _ ?l]) (simp add: numeral_3_eq_3)
qed

section \<open>Flags and addresses\<close>

text \<open>
  \<open>ParseFlags\<close> finds the first flag. The URI is the argument after the first \<^verbatim>\<open>--listen\<close>
  or \<^verbatim>\<open>--port\<close> that is not the last argument, as it is or as a port of every interface; the
  default URI is returned when there is none.
\<close>

lemma ParseFlags_first:
  "ParseFlags args =
    (case find (\<lambda>i. args ! i \<in> {''--listen'', ''--port''}) [0..<length args - 1] of
       None \<Rightarrow> DefaultURI
     | Some i \<Rightarrow> if args ! i = ''--listen'' then args ! Suc i else ''tcp://:'' @ args ! Suc i)"
proof (induction args rule: ParseFlags.induct)
  case (2 arg args)
  show ?case
  proof (cases args)
    case (Cons arg2 rest)
    have upt: "[0..<length args] = 0 # map Suc [0..<length args - 1]"
      by (cases rest) (simp_all add: Cons map_Suc_upt upt_conv_Cons del: upt_Suc)
    have find: "find P (map Suc xs) = map_option Suc (find (\<lambda>i. P (Suc i)) xs)" for P xs
      by (induction xs) auto
    have "args \<noteq> []" using Cons by simp
    have one: "hd args = args ! 0" using Cons by simp
    show ?thesis
    proof (cases "arg \<in> {''--listen'', ''--port''}")
      case True
      then show ?thesis using \<open>args \<noteq> []\<close> by (auto simp: upt one)
    next
      case False
      then have "ParseFlags (arg # args) = ParseFlags args" by simp
      moreover have "find (\<lambda>i. (arg # args) ! i \<in> {''--listen'', ''--port''}) [0..<length (arg # args) - 1] =
          map_option Suc (find (\<lambda>i. args ! i \<in> {''--listen'', ''--port''}) [0..<length args - 1])"
        using False by (simp add: upt find)
      ultimately show ?thesis using "2" False by (auto split: option.split)
    qed
  qed simp
qed simp

text \<open>
  C40: The address that the echo server prints for a TCP URI, dialled by its client. The client
  dials the port the server has bound on the host of the URI, and on the loopback address when
  the server listens on every interface; but for a host with colons, an IPv6 address, the
  printed address has lost its brackets and does not parse.
\<close>

theorem printed_address_dials:
  assumes "SplitHostPort hostport = Inr (host, any)" and "SplitHostPort addr = Inr (bound, port)"
  shows "\<exists>target. normalizeTarget (normalizeURI (publicURI (''tcp://'' @ hostport) addr)) = Inr (DialAddress target) \<and>
    SplitHostPort target =
      (if host \<in> {[], ''0.0.0.0'', ''::''} then Inr (''127.0.0.1'', port)
       else if CHR '':'' \<in> set host then Inl (addr_err target ''too many colons in address'')
       else Inr (host, port))"
proof -
  let ?h = "if host \<in> {[], ''0.0.0.0'', ''::''} then ''127.0.0.1'' else host"
  have "host \<noteq> ''[::]''" using SplitHostPort_parts(2) [OF assms(1)] by auto
  then have uri: "publicURI (''tcp://'' @ hostport) addr = ''tcp://'' @ ?h @ CHR '':'' # port"
    using assms by (simp add: publicURI_def extractTCPHost_def HasPrefix_def TrimPrefix_def)
  have "SplitHostPort (?h @ CHR '':'' # port) =
      (if CHR '':'' \<in> set ?h then Inl (addr_err (?h @ CHR '':'' # port) ''too many colons in address'') else Inr (?h, port))"
    using SplitHostPort_parts [OF assms(1)] SplitHostPort_parts(1) [OF assms(2)] by (intro SplitHostPort_join) auto
  moreover have "normalizeTarget (normalizeURI (publicURI (''tcp://'' @ hostport) addr)) =
      Inr (DialAddress (?h @ CHR '':'' # port))"
    unfolding uri by (simp add: normalizeTarget_def normalizeURI_def HasPrefix_def TrimPrefix_def)
  ultimately show ?thesis by (intro exI [of _ "?h @ CHR '':'' # port"]) auto
qed

lemma printed_address_dials_witness:
  "\<exists>target. normalizeTarget (normalizeURI (publicURI ''tcp://[::1]:0'' ''[::1]:7'')) = Inr (DialAddress target) \<and>
    SplitHostPort target = Inl (addr_err target ''too many colons in address'')"
proof -
  have "SplitHostPort ''[::1]:0'' = Inr (''::1'', ''0'')" "SplitHostPort ''[::1]:7'' = Inr (''::1'', ''7'')"
    by code_simp+
  from printed_address_dials [OF this] show ?thesis by simp
qed

end
