(* ===== verification/CommandsSpec.thy ===== *)
theory CommandsSpec
  imports Commands TransportSpec
begin

text \<open>
  What the dialling code and the commands guarantee: children, the stream over the pipes, the
  addresses on both sides, the echo from the client through the server and back, and the
  shutdown.
\<close>

section \<open>Children\<close>


lemmas dial_defs = DialStdio_def dialStdioCommand_def kill_and_wait_def killAndWait_def child_after_def Let_def

lemma DialStdio_child:
  assumes "DialStdio grpc env branch out path = Some (r, calls)"
  shows "case r of
      Inl e \<Rightarrow> child_after calls \<in> {NoChild, Reaped}
    | Inr conn \<Rightarrow> child_after calls = Running [path, ''serve'', ''--listen'', ''stdio://'']"
  using assms by (auto simp: dial_defs split: option.splits start_branch.splits sum.splits)

lemma dialStdioCommand_child:
  assumes "dialStdioCommand grpc env branch out args = Some (r, calls)"
  shows "case r of
      Inl e \<Rightarrow> child_after calls \<in> {NoChild, Reaped}
    | Inr conn \<Rightarrow> child_after calls = Running args"
  using assms by (auto simp: dial_defs split: option.splits start_branch.splits sum.splits)



section \<open>The stream over the pipes\<close>

text \<open>
  What happens to a connection over the pipes: it is read and written, and the child writes and
  ends its output. The run keeps what the reads have returned.
\<close>

datatype conn_event =
    ConnRead nat nat
  | ConnWrite "(nat \<times> gerror) option" bytes
  | ConnClose
  | ChildWrites bytes
  | ChildEnds gerror

fun conn_run :: "conn_event list \<Rightarrow> pipe_conn \<Rightarrow> (bytes \<times> pipe_conn) option" where
  "conn_run [] c = Some ([], c)"
| "conn_run (ConnRead n k # es) c =
     (case pipe_Read n k c of
        None \<Rightarrow> None
      | Some (r, c') \<Rightarrow> map_option (map_prod ((@) (case r of Inl e \<Rightarrow> [] | Inr bs \<Rightarrow> bs)) id) (conn_run es c'))"
| "conn_run (ConnWrite fault p # es) c = conn_run es (snd (pipe_Write fault p c))"
| "conn_run (ConnClose # es) c = conn_run es (pipe_Close c)"
| "conn_run (ChildWrites bs # es) c =
     (if co_end (pc_out c) \<noteq> None then None
      else conn_run es (c\<lparr>pc_out := pc_out c\<lparr>co_unread := co_unread (pc_out c) @ bs\<rparr>\<rparr>))"
| "conn_run (ChildEnds e # es) c =
     (if co_end (pc_out c) \<noteq> None then None else conn_run es (c\<lparr>pc_out := pc_out c\<lparr>co_end := Some e\<rparr>\<rparr>))"

definition child_written :: "conn_event list \<Rightarrow> bytes" where
  "child_written es = concat (map (\<lambda>e. case e of ChildWrites bs \<Rightarrow> bs | _ \<Rightarrow> []) es)"

definition pending_in :: "pipe_conn \<Rightarrow> bytes" where
  "pending_in c = (case pc_first c of None \<Rightarrow> [] | Some bs \<Rightarrow> bs) @ co_unread (pc_out c)"

lemma pipe_Read_stream:
  assumes "pipe_Read n k c = Some (r, c')"
  shows "(case r of Inl e \<Rightarrow> [] | Inr bs \<Rightarrow> bs) @ pending_in c' = pending_in c"
    and "r = Inl e \<Longrightarrow> pending_in c' = [] \<and> co_end (pc_out c') = Some e"
  using assms
  by (auto simp: pipe_Read_def out_read_def pending_in_def append_take_drop_id simp flip: append_assoc
      split: option.splits list.splits if_splits)

lemma conn_run_stream:
  "conn_run es c = Some (got, c') \<Longrightarrow> got @ pending_in c' = pending_in c @ child_written es"
proof (induction es c arbitrary: got rule: conn_run.induct)
  case (2 n k es c)
  then obtain r c1 got1 where "pipe_Read n k c = Some (r, c1)" "conn_run es c1 = Some (got1, c')"
    "got = (case r of Inl e \<Rightarrow> [] | Inr bs \<Rightarrow> bs) @ got1" by (auto split: option.splits)
  note one = this
  have "got1 @ pending_in c' = pending_in c1 @ child_written es" using 2(1) one(1,2) by blast
  then have "got @ pending_in c' = ((case r of Inl e \<Rightarrow> [] | Inr bs \<Rightarrow> bs) @ pending_in c1) @ child_written es"
    by (simp add: one(3))
  then show ?case by (simp add: pipe_Read_stream(1) [OF one(1)] child_written_def)
qed (auto simp: child_written_def pending_in_def pipe_Write_def pipe_Close_def split: option.splits if_splits)

text \<open>
  C16: The byte stream of a holon over stdio is complete. When \<open>DialStdio\<close> succeeds, the dialer it
  gave to grpc returns a connection once, and whatever is then read from it, in chunks of any
  sizes, while the child goes on writing, is the child's output from its very first byte, the one
  that the startup has consumed: in order, nothing lost and nothing twice. The connection ends
  only when everything has been read and the child has ended its output.
\<close>

theorem stdio_stream_intact:
  assumes "DialStdio grpc env FromRead out path = Some (Inr conn, calls)"
  shows "\<exists>c. grpc ''passthrough:///stdio'' [InsecureCredentials, ContextDialer (PipeDialer False c), WithBlock] = Inr conn \<and>
    call_dialer net (PipeDialer False c) = (Inr (PipeConn c), PipeDialer True c) \<and>
    fst (call_dialer net (PipeDialer True c)) = Inl (ErrText ''stdio pipe already consumed'') \<and>
    (\<forall>es got c'. conn_run es c = Some (got, c') \<longrightarrow>
       got @ pending_in c' = co_unread out @ child_written es \<and>
       (\<forall>n k e c''. pipe_Read n k c' = Some (Inl e, c'') \<longrightarrow>
          got = co_unread out @ child_written es \<and> co_end (pc_out c') = Some e))"
proof -
  from assms obtain b out' where b: "first_byte out = Some (Inr b, out')"
    and g: "grpc ''passthrough:///stdio''
      [InsecureCredentials, ContextDialer (PipeDialer False (new_pipe_conn b out')), WithBlock] = Inr conn"
    by (auto simp: DialStdio_def Let_def split: option.splits sum.splits)
  let ?c = "new_pipe_conn b out'"
  have all: "pending_in ?c = co_unread out"
    using b by (auto simp: first_byte_def pending_in_def new_pipe_conn_def split: list.splits)
  have ended: "got = co_unread out @ child_written es \<and> co_end (pc_out c') = Some e"
    if run: "conn_run es ?c = Some (got, c')" and r: "pipe_Read n k c' = Some (Inl e, c'')" for es got c' n k e c''
  proof -
    have "pending_in c' = []" using pipe_Read_stream [OF r] by simp
    moreover have "co_end (pc_out c') = Some e"
      using r by (auto simp: pipe_Read_def out_read_def split: option.splits list.splits if_splits)
    ultimately show ?thesis using conn_run_stream [OF run] by (simp add: all)
  qed
  show ?thesis
    using g ended conn_run_stream [of _ ?c] by (intro exI [of _ ?c]) (auto simp: pipe_dial_def all)
qed

text \<open>The first byte consumed, two reads with a write of the child between them.\<close>

lemma stdio_stream_intact_witness:
  "\<exists>c calls c'. DialStdio (\<lambda>target opts. Inr opts) \<lparr>ce_stdin = None, ce_stdout = None, ce_start = None\<rparr> FromRead
       \<lparr>co_unread = ''abc'', co_end = None\<rparr> ''h'' =
         Some (Inr [InsecureCredentials, ContextDialer (PipeDialer False c), WithBlock], calls) \<and>
     conn_run [ConnRead 9 0, ChildWrites ''de'', ConnRead 9 4] c = Some (''abcde'', c') \<and>
     ''abcde'' @ pending_in c' = ''abc'' @ child_written [ConnRead 9 0, ChildWrites ''de'', ConnRead 9 4]"
proof -
  let ?env = "\<lparr>ce_stdin = None, ce_stdout = None, ce_start = None\<rparr>" and ?out = "\<lparr>co_unread = ''abc'', co_end = None\<rparr>"
  let ?grpc = "\<lambda>(target :: string) opts. Inr opts :: dial_option list res"
  let ?c = "new_pipe_conn CHR ''a'' \<lparr>co_unread = ''bc'', co_end = None\<rparr>"
  have d: "DialStdio ?grpc ?env FromRead ?out ''h'' =
      Some (Inr [InsecureCredentials, ContextDialer (PipeDialer False ?c), WithBlock],
        [StdinPipe, StdoutPipe, StartProcess [''h'', ''serve'', ''--listen'', ''stdio://''] True])"
    by (simp add: DialStdio_def first_byte_def)
  obtain c' where r: "conn_run [ConnRead 9 0, ChildWrites ''de'', ConnRead 9 4] ?c = Some (''abcde'', c')"
    by (simp add: new_pipe_conn_def pipe_Read_def out_read_def)
  from stdio_stream_intact [OF d] obtain c where "?c = c"
    "\<And>es got c'. conn_run es c = Some (got, c') \<Longrightarrow> got @ pending_in c' = ''abc'' @ child_written es"
    by auto
  with r have "''abcde'' @ pending_in c' = ''abc'' @ child_written [ConnRead 9 0, ChildWrites ''de'', ConnRead 9 4]"
    by blast
  with d r show ?thesis by blast
qed


section \<open>Both sides of an address\<close>

text \<open>
  C21: The clients dial what the listener binds. For a unix socket of any path with a character
  that is no space, the listener binds the socket at the path, and both \<open>grpcclient.Dial\<close> and the
  echo client hand grpc a dialer that connects to exactly this path; for TCP the listener binds
  the address after the scheme, which is what the echo client gives to grpc as its target, as
  \<open>Dial\<close> does with the bare address.
\<close>

theorem dial_reaches_listener:
  assumes "e_listen env network addr = Inr bound"
    and "network = ''unix'' \<Longrightarrow> TrimSpace addr \<noteq> [] \<and> (\<forall>e. e_remove env addr \<noteq> RemoveFailed e)"
    and "network = ''tcp'' \<Longrightarrow> \<not> isUnixAddress addr"
    and "network = ''unix'' \<or> network = ''tcp''"
  shows "\<exists>lis calls target opts. Listen env (network @ ''://'' @ addr) = (Inr lis, calls) \<and>
      last calls = NetListen network addr \<and>
      Dial grpc (if network = ''tcp'' then addr else network @ ''://'' @ addr) = grpc target (InsecureCredentials # opts) \<and>
      client_dial grpc' cenv branch out (network @ ''://'' @ addr) sdk goBinary bin =
        Some (grpc' target (InsecureCredentials # WithBlock # ForceJsonCodec # opts), [], False) \<and>
      (if network = ''tcp'' then target = addr \<and> opts = []
       else target = ''passthrough:///unix'' \<and> opts = [ContextDialer (UnixDialer addr)] \<and>
         (dn_unix net addr = None \<longrightarrow> fst (call_dialer net (UnixDialer addr)) = Inr (UnixConn addr)))"
proof (cases "network = ''tcp''")
  case True
  with assms(1,3) show ?thesis
    by (simp add: Listen_def HasPrefix_def TrimPrefix_def Dial_def client_dial_def isStdioURI_def normalizeTarget_def)
next
  case False
  then have n: "network = ''unix''" using assms(4) by simp
  have path: "addr \<noteq> []"
  proof
    assume "addr = []"
    moreover have "TrimSpace [] = []" by code_simp
    ultimately show False using assms(2) [OF n] by simp
  qed
  have d: "Dial grpc (''unix://'' @ addr) = grpc ''passthrough:///unix'' [InsecureCredentials, ContextDialer (UnixDialer addr)]"
    using path by (simp add: Dial_def isUnixAddress_def)
  have l: "Listen env (''unix://'' @ addr) = (Inr (UnixListener addr), [OsRemove addr, NetListen ''unix'' addr])"
    using assms(1) assms(2) [OF n] n
    by (simp add: Listen_def HasPrefix_def TrimPrefix_def split: remove_outcome.split)
  show ?thesis
    using d l by (simp add: n client_dial_def isStdioURI_def normalizeTarget_def HasPrefix_def TrimPrefix_def)
qed

lemma dial_reaches_listener_witness:
  "\<exists>lis calls target opts.
      Listen \<lparr>e_remove = \<lambda>p. NoSuchFile, e_listen = \<lambda>n a. Inr a, e_getenv = \<lambda>v. [], e_parse = \<lambda>u. Inl ErrJson\<rparr>
        ''unix:///h'' = (Inr lis, calls) \<and> last calls = NetListen ''unix'' ''/h'' \<and>
      Dial (\<lambda>target opts. Inr (target, opts)) ''unix:///h'' = Inr (target, InsecureCredentials # opts) \<and>
      opts = [ContextDialer (UnixDialer ''/h'')]"
proof -
  let ?env = "\<lparr>e_remove = \<lambda>p. NoSuchFile, e_listen = \<lambda>n a. Inr a, e_getenv = \<lambda>v. [], e_parse = \<lambda>u. Inl ErrJson\<rparr> :: os_env"
  have t: "TrimSpace ''/h'' \<noteq> []" by code_simp
  have a: "e_listen ?env ''unix'' ''/h'' = Inr ''/h''" by simp
  have u: "''unix'' \<noteq> ''tcp''" "''unix:///h'' = ''unix'' @ ''://'' @ ''/h''" by simp_all
  from dial_reaches_listener [OF a, of "\<lambda>target opts. Inr (target, opts)" "\<lambda>target opts. Inr ()"] t u(1)
  show ?thesis unfolding u(2) by (simp del: append.simps) blast
qed

section \<open>The echo\<close>

lemma to_utf8_length: "length s \<le> length (to_utf8 s) \<and> (length (to_utf8 s) = length s \<longrightarrow> utf8_valid s)"
proof (induction s rule: to_utf8.induct)
  case (2 c s)
  let ?k = "utf8_len (c # s)"
  show ?case
  proof (cases "?k = 0")
    case True
    with 2(1) [OF refl] show ?thesis by (simp add: rune_error_def)
  next
    case False
    have "length (take ?k (c # s)) + length (drop ?k (c # s)) = length (c # s)"
      by (metis append_take_drop_id length_append)
    with 2(2) [OF refl False] False show ?thesis by (auto simp: Let_def simp del: length_take length_drop)
  qed
qed simp

lemma to_utf8_fixed: "to_utf8 s = s \<longleftrightarrow> utf8_valid s"
  using to_utf8_length [of s] by auto

lemma parses_quote: "parses d (json_quote s) (GStr (to_utf8 s))"
  using pstr_esc [of s] by (simp add: parses_def json_quote_def pval.simps [of d "CHR 0x22 # _"])

text \<open>A struct of strings, written and read: invalid bytes become the replacement character.\<close>

definition string_members :: "(string \<times> string) list \<Rightarrow> (string \<times> string \<times> gany) list" where
  "string_members fs = map (\<lambda>(k, s). (k, json_quote s, GStr (to_utf8 s))) fs"

lemma unmarshal_printed:
  assumes "\<forall>(k, s) \<in> set fs. utf8_valid k"
  shows "unmarshal_strings names (print_fields (map (\<lambda>(k, s). (k, json_quote s)) fs)) =
    fill_strings names (string_members fs) (\<lambda>_. [])"
proof -
  have ok: "list_all (member_parses (max_depth - 1)) (string_members fs)"
    using assms by (auto simp: list_all_iff string_members_def member_parses_def parses_quote)
  have t: "map (\<lambda>(k, s). (k, json_quote s)) fs = map member_text (string_members fs)"
    by (simp add: string_members_def split_def)
  have "json_unmarshal (print_fields (map member_text (string_members fs))) =
      Some (GObj (members_object (string_members fs)))"
    by (rule json_unmarshal_parses [OF parses_fields [OF ok]]) (simp add: max_depth_def)
  then show ?thesis by (simp add: t unmarshal_strings_def json_members_fields [OF ok])
qed

lemma field_names [simp]:
  "utf8_valid ''message''" "utf8_valid ''sdk''" "utf8_valid ''version''"
  "fold_name ''message'' = ''message''" "fold_name ''sdk'' = ''sdk''" "fold_name ''version'' = ''version''"
  by code_simp+

lemma ping_request_reads: "unmarshal_request (marshal_request r) = Some \<lparr>rq_message = to_utf8 (rq_message r)\<rparr>"
  using unmarshal_printed [of "[(''message'', rq_message r)]" "[''message'']"]
  by (simp add: unmarshal_request_def marshal_request_def string_members_def store_string_def)

lemma ping_response_reads:
  "unmarshal_response (marshal_response r) =
     Some \<lparr>rs_message = to_utf8 (rs_message r), rs_sdk = to_utf8 (rs_sdk r), rs_version = to_utf8 (rs_version r)\<rparr>"
  using unmarshal_printed [of "[(''message'', rs_message r), (''sdk'', rs_sdk r), (''version'', rs_version r)]"
      "[''message'', ''sdk'', ''version'']"]
  by (simp add: unmarshal_response_def marshal_response_def string_members_def store_string_def)

text \<open>
  C18: The echo, from the client's flags to what it prints. Connected to an echo server, whatever
  connection it is, the client's call goes through both codecs and the service; it ends with 0,
  stops its child and reports the server's identifier exactly when the message is valid UTF-8.
  Any other message comes back changed by the JSON codec, and the client ends with 1.
\<close>

theorem echo_ping_passes:
  assumes "cf_args fl = uri # others"
    and "client_dial grpc env branch out (normalizeURI uri) (cf_server_sdk fl) (TrimSpace (cf_go fl))
      (TrimSpace (cf_stdio_bin fl)) = Some (Inr conn, calls, started)"
    and "invoke conn ''/echo.v1.Echo/Ping'' = serve_ping s"
  shows "echo_client_main grpc invoke env branch out latency fl =
    Some (if utf8_valid (cf_message fl) then
        (0, client_report fl latency (to_utf8 (o_sdk s)), calls @ killAndWait started)
      else (1, [], calls))"
proof -
  let ?m = "cf_message fl"
  have "serve_ping s (marshal_request \<lparr>rq_message = ?m\<rparr>) =
      Inr (marshal_response \<lparr>rs_message = to_utf8 ?m, rs_sdk = o_sdk s, rs_version = o_version s\<rparr>)"
    by (simp add: serve_ping_def ping_request_reads ping_handler_def Ping_def)
  moreover have "to_utf8 (to_utf8 ?m) = ?m \<longleftrightarrow> utf8_valid ?m"
    using to_utf8_length [of ?m] to_utf8_length [of "to_utf8 ?m"] by auto
  ultimately show ?thesis using assms by (simp add: echo_client_main_def ping_response_reads)
qed

lemma echo_ping_passes_witness:
  "echo_client_main (\<lambda>target opts. Inr target)
     (\<lambda>conn name. serve_ping \<lparr>listenURI = [], o_sdk = ''go'', o_version = ''1''\<rparr>) \<lparr>ce_stdin = None, ce_stdout = None, ce_start = None\<rparr> FromCtx \<lparr>co_unread = [], co_end = None\<rparr> 7
     \<lparr>cf_sdk = ''a'', cf_server_sdk = ''b'', cf_message = ''hello'', cf_timeout_ms = 5, cf_go = [], cf_stdio_bin = [],
      cf_args = [''tcp://h:1'']\<rparr> =
   Some (0, ''{\"latency_ms\":7,\"response_sdk\":\"go\",\"sdk\":\"a\",\"server_sdk\":\"b\",\"status\":\"pass\"}'' @ [CHR 10], [])"
proof -
  let ?fl = "\<lparr>cf_sdk = ''a'', cf_server_sdk = ''b'', cf_message = ''hello'', cf_timeout_ms = 5, cf_go = [],
    cf_stdio_bin = [], cf_args = [''tcp://h:1'']\<rparr>"
  let ?s = "\<lparr>listenURI = [], o_sdk = ''go'', o_version = ''1''\<rparr>"
  have v: "utf8_valid ''hello''" "to_utf8 ''go'' = ''go''" by code_simp+
  have r: "client_report ?fl 7 ''go'' =
    ''{\"latency_ms\":7,\"response_sdk\":\"go\",\"sdk\":\"a\",\"server_sdk\":\"b\",\"status\":\"pass\"}'' @ [CHR 10]"
    by code_simp
  have d: "client_dial (\<lambda>target opts. Inr target) \<lparr>ce_stdin = None, ce_stdout = None, ce_start = None\<rparr> FromCtx \<lparr>co_unread = [], co_end = None\<rparr> (normalizeURI ''tcp://h:1'') (cf_server_sdk ?fl)
      (TrimSpace (cf_go ?fl)) (TrimSpace (cf_stdio_bin ?fl)) = Some (Inr ''h:1'', [], False)"
    by (simp add: client_dial_def isStdioURI_def normalizeURI_def normalizeTarget_def HasPrefix_def TrimPrefix_def)
  have a: "cf_args ?fl = ''tcp://h:1'' # []" by simp
  from echo_ping_passes [OF a d, of "\<lambda>conn name. serve_ping ?s" ?s 7] show ?thesis
    by (simp add: v r killAndWait_def)
qed

section \<open>The server a client starts\<close>

text \<open>The arguments of the program in a command line: after \<open>go run\<close>, those after the package.\<close>

definition program_args :: "string list \<Rightarrow> string list" where
  "program_args argv = (if argv ! 1 = ''run'' then drop 3 argv else tl argv)"

lemma flag_scan_stdio:
  "parseFlags [''--listen'', ''stdio://''] =
     Inr \<lparr>listenURI = ''stdio://'', o_sdk = ''go-holons'', o_version = ''0.3.0''\<rparr>"
  "parseFlags [''--listen'', ''stdio://'', ''--sdk'', sdk] =
     Inr \<lparr>listenURI = ''stdio://'', o_sdk = sdk, o_version = ''0.3.0''\<rparr>"
  by (simp_all add: parseFlags_def flag_name_def flag_split_def echo_flag_defaults_def)

lemma stdio_server_main:
  assumes "parseFlags (strip_serve argv) = Inr opts" and "listenURI opts = ''stdio://''"
  shows "echo_server_main env stopped (ServeEnded err) argv =
    Some \<lparr>er_exit = serve_exit stopped err, er_stdout = [], er_listen = [], er_calls = [Serve]\<rparr>"
  using assms by (simp add: echo_server_main_def Listen_def HasPrefix_def isStdioURI_def)

text \<open>
  C20: The server a client starts speaks over stdio. The child of \<open>DialStdio\<close> and the child of the
  echo client, a binary or a \<open>go run\<close>, when it is the echo server, reads from its arguments the
  stdio transport and the client's identifier, opens no listener of the operating system and
  prints no address, so that its standard output carries nothing but grpc; and it ends with 0
  when \<open>Serve\<close> ends with an error that \<open>isBenignServeError\<close> accepts.
\<close>

theorem spawned_server_speaks_stdio:
  assumes "(DialStdio grpc env branch out path = Some (Inr conn, calls) \<and> sdk = ''go-holons'') \<or>
      client_dial grpc env branch out ''stdio://'' sdk goBinary path = Some (Inr conn, calls, started)"
  shows "\<exists>argv. child_after calls = Running argv \<and>
    parseFlags (strip_serve (program_args argv)) =
      Inr \<lparr>listenURI = ''stdio://'', o_sdk = sdk, o_version = ''0.3.0''\<rparr> \<and>
    echo_server_main oenv stopped (ServeEnded err) (program_args argv) =
      Some \<lparr>er_exit = (if isBenignServeError stopped err then 0 else 1), er_stdout = [], er_listen = [], er_calls = [Serve]\<rparr>"
proof -
  have code: "serve_exit stopped err = (if isBenignServeError stopped err then 0 else 1)"
    by (auto simp: serve_exit_def isBenignServeError_def)
  obtain argv where argv: "child_after calls = Running argv"
    and fl: "parseFlags (strip_serve (program_args argv)) =
      Inr \<lparr>listenURI = ''stdio://'', o_sdk = sdk, o_version = ''0.3.0''\<rparr>"
  proof (cases "DialStdio grpc env branch out path = Some (Inr conn, calls) \<and> sdk = ''go-holons''")
    case True
    with DialStdio_child [of grpc env branch out path "Inr conn" calls] show thesis
      by (intro that [of "[path, ''serve'', ''--listen'', ''stdio://'']"])
        (simp_all add: program_args_def strip_serve_def flag_scan_stdio)
  next
    case False
    with assms have "dialStdioCommand grpc env branch out
        (if path \<noteq> [] then binary_args path sdk else go_run_args goBinary sdk) = Some (Inr conn, calls)"
      by (auto simp: client_dial_def isStdioURI_def)
    from dialStdioCommand_child [OF this] show thesis
      by (intro that [of "if path \<noteq> [] then binary_args path sdk else go_run_args goBinary sdk"])
        (simp_all add: program_args_def strip_serve_def flag_scan_stdio binary_args_def go_run_args_def)
  qed
  with stdio_server_main [OF fl, of oenv stopped err] show ?thesis by (simp add: code)
qed

lemma spawned_server_speaks_stdio_witness:
  "\<exists>argv. argv = [''h'', ''serve'', ''--listen'', ''stdio://''] \<and>
    echo_server_main \<lparr>e_remove = \<lambda>p. NoSuchFile, e_listen = \<lambda>n a. Inr a, e_getenv = \<lambda>v. [], e_parse = \<lambda>u. Inl ErrJson\<rparr>
      (ErrText ''grpc: the server has been stopped'') (ServeEnded None) (program_args argv) =
      Some \<lparr>er_exit = 0, er_stdout = [], er_listen = [], er_calls = [Serve]\<rparr>"
proof -
  have "DialStdio (\<lambda>target opts. Inr ()) \<lparr>ce_stdin = None, ce_stdout = None, ce_start = None\<rparr> FromRead
      \<lparr>co_unread = ''x'', co_end = None\<rparr> ''h'' =
      Some (Inr (), [StdinPipe, StdoutPipe, StartProcess [''h'', ''serve'', ''--listen'', ''stdio://''] True])"
    by (simp add: DialStdio_def first_byte_def)
  then have "(DialStdio (\<lambda>target opts. Inr ()) \<lparr>ce_stdin = None, ce_stdout = None, ce_start = None\<rparr> FromRead
      \<lparr>co_unread = ''x'', co_end = None\<rparr> ''h'' =
      Some (Inr (), [StdinPipe, StdoutPipe, StartProcess [''h'', ''serve'', ''--listen'', ''stdio://''] True]) \<and>
      ''go-holons'' = ''go-holons'') \<or> client_dial (\<lambda>target opts. Inr ()) \<lparr>ce_stdin = None, ce_stdout = None, ce_start = None\<rparr>
      FromRead \<lparr>co_unread = ''x'', co_end = None\<rparr> ''stdio://'' ''go-holons'' [] ''h'' =
      Some (Inr (), [StdinPipe, StdoutPipe, StartProcess [''h'', ''serve'', ''--listen'', ''stdio://''] True], True)"
    by simp
  from spawned_server_speaks_stdio [OF this, of "\<lparr>e_remove = \<lambda>p. NoSuchFile, e_listen = \<lambda>n a. Inr a, e_getenv = \<lambda>v. [], e_parse = \<lambda>u. Inl ErrJson\<rparr>"
      "(ErrText ''grpc: the server has been stopped'')" None] show ?thesis
    by (simp add: child_after_def isBenignServeError_def)
qed

section \<open>The shutdown of Run\<close>

definition run_moves :: "run_state \<Rightarrow> run_state \<Rightarrow> bool" where
  "run_moves r r' \<longleftrightarrow> (\<exists>e. run_step e r = Some r')"

definition stops_of :: "run_phase \<Rightarrow> server_call list" where
  "stops_of ph = (case ph of AwaitSignal \<Rightarrow> [] | Forced \<Rightarrow> [GracefulStop, Stop] | _ \<Rightarrow> [GracefulStop])"

definition run_inv :: "run_state \<Rightarrow> bool" where
  "run_inv r \<longleftrightarrow>
     filter (\<lambda>c. c \<noteq> Serve) (ru_calls r) = stops_of (ru_phase r) \<and> count_list (ru_calls r) Serve \<le> 1 \<and>
     (ru_result r \<noteq> None \<longrightarrow> Serve \<in> set (ru_calls r))"

lemma run_step_inv: "run_inv r \<Longrightarrow> run_step e r = Some r' \<Longrightarrow> run_inv r'"
  by (cases e) (auto simp: run_inv_def stops_of_def count_notin split: if_splits run_phase.splits)

interpretation rn: closed_system "run_start reflect" run_moves run_inv for reflect
proof
  show "run_inv (run_start reflect)" by (simp add: run_inv_def run_start_def stops_of_def)
qed (auto simp: run_moves_def run_step_inv)

text \<open>After the return of \<open>Serve\<close> no signal reaches the goroutine of the shutdown.\<close>

lemma waits_for_ever:
  "reach_in r run_moves n r' \<Longrightarrow> ru_result r \<noteq> None \<Longrightarrow> \<not> ru_signal r \<Longrightarrow> ru_phase r = AwaitSignal \<Longrightarrow>
     ru_result r' \<noteq> None \<and> \<not> ru_signal r' \<and> ru_phase r' = AwaitSignal"
proof (induction rule: reach_in.induct)
  case (reach_move n w w')
  then obtain e where "run_step e w = Some w'" by (auto simp: run_moves_def)
  with reach_move show ?case by (cases e) (auto split: if_splits)
qed simp

text \<open>
  C19: The shutdown of \<open>Run\<close>. However many signals come and whenever \<open>Serve\<close> is called and returns,
  the server is stopped gracefully at most once, and forced only after that, at most once, when
  the graceful stop has run out of time; as long as \<open>Run\<close> has not returned a signal leads to the
  graceful stop, which is never without an end, its own or the timeout's. But a \<open>Serve\<close> that
  returns before any signal leaves the goroutine of the shutdown waiting for ever.
\<close>

theorem run_shutdown_sound:
  assumes "RunWithOptions env uri reflect = (Inr start, os)" and "reach_in start run_moves n r"
  shows "filter (\<lambda>c. c \<noteq> Serve) (ru_calls r) =
      (case ru_phase r of AwaitSignal \<Rightarrow> [] | Forced \<Rightarrow> [GracefulStop, Stop] | _ \<Rightarrow> [GracefulStop]) \<and>
    (ru_result r = None \<longrightarrow>
      (\<exists>r1. run_step RunSignal r = Some r1 \<and>
        (ru_phase r = AwaitSignal \<longrightarrow> (\<exists>r2. run_step RunTake r1 = Some r2 \<and> ru_calls r2 = ru_calls r @ [GracefulStop])))) \<and>
    (ru_phase r = Draining \<longrightarrow> run_step RunDrained r \<noteq> None \<and>
      (\<exists>r1. run_step RunTimeout r = Some r1 \<and> ru_calls r1 = ru_calls r @ [Stop])) \<and>
    (ru_result r \<noteq> None \<and> ru_phase r = AwaitSignal \<and> \<not> ru_signal r \<longrightarrow>
      (\<forall>m r'. reach_in r run_moves m r' \<longrightarrow> ru_phase r' = AwaitSignal))"
proof -
  have "start = run_start reflect" using assms(1) by (auto simp: RunWithOptions_def split: prod.splits sum.splits)
  with assms(2) have "run_inv r" using rn.reachable_inv by blast
  moreover have "ru_phase r' = AwaitSignal"
    if "reach_in r run_moves m r'" "ru_result r \<noteq> None" "ru_phase r = AwaitSignal" "\<not> ru_signal r" for m r'
    using waits_for_ever [OF that(1,2,4,3)] by blast
  ultimately show ?thesis by (auto simp: run_inv_def stops_of_def)
qed

lemma run_shutdown_sound_witness:
  "\<exists>r. reach_in (run_start True) run_moves 4 r \<and> ru_phase r = Forced \<and>
     filter (\<lambda>c. c \<noteq> Serve) (ru_calls r) = [GracefulStop, Stop]"
proof -
  let ?r0 = "run_start True" and ?env = "\<lparr>e_remove = \<lambda>p. NoSuchFile, e_listen = \<lambda>n a. Inr a, e_getenv = \<lambda>v. [],
    e_parse = \<lambda>u. Inl ErrJson\<rparr>"
  have run: "RunWithOptions ?env ''stdio://'' True = (Inr ?r0, [])"
    by (simp add: RunWithOptions_def Listen_def HasPrefix_def)
  define r1 where "r1 = ?r0\<lparr>ru_calls := [Serve]\<rparr>"
  define r2 where "r2 = r1\<lparr>ru_signal := True\<rparr>"
  define r3 where "r3 = r2\<lparr>ru_signal := False, ru_phase := Draining, ru_calls := [Serve, GracefulStop]\<rparr>"
  define r4 where "r4 = r3\<lparr>ru_phase := Forced, ru_calls := [Serve, GracefulStop, Stop]\<rparr>"
  note defs = r1_def r2_def r3_def r4_def run_start_def
  have "run_step RunServe ?r0 = Some r1" "run_step RunSignal r1 = Some r2" "run_step RunTake r2 = Some r3"
    "run_step RunTimeout r3 = Some r4" by (simp_all add: defs)
  then have m: "run_moves ?r0 r1" "run_moves r1 r2" "run_moves r2 r3" "run_moves r3 r4"
    unfolding run_moves_def by blast+
  have "reach_in ?r0 run_moves (Suc (Suc (Suc (Suc 0)))) r4"
    using m by (blast intro: reach_in.intros)
  then have r: "reach_in ?r0 run_moves 4 r4" by (simp add: numeral_eq_Suc)
  have "ru_phase r4 = Forced" by (simp add: defs)
  with run_shutdown_sound [OF run r] r show ?thesis by auto
qed

section \<open>The client's timeout\<close>

text \<open>It is positive whatever the flag says, and exact where milliseconds fit.\<close>

lemma client_timeout_positive: "0 < sint (client_timeout ms)"
  by (auto simp: client_timeout_def Let_def not_le)

lemma client_timeout_exact:
  assumes "0 < ms" and "ms * 1000000 < 2 ^ 63"
  shows "sint (client_timeout ms) = ms * 1000000"
proof -
  have w: "(word_of_int ms :: 64 word) * 1000000 = word_of_int (ms * 1000000)" by simp
  have "sint (word_of_int (ms * 1000000) :: 64 word) = ms * 1000000"
    unfolding sint_sbintrunc' using assms by (intro signed_take_bit_int_eq_self) simp_all
  then show ?thesis using assms(1) by (simp only: client_timeout_def w Let_def) simp
qed

end
