(* ===== verification/Spec2Isabelle.thy ===== *)
theory Spec2Isabelle
  imports WebCalls SessionSpec Conform CommandsSpec
begin

text \<open>
  Verification of go-holons: the Holon-RPC implementations, the listeners and dialers, and the
  commands of the Go SDK.

  \<^bold>\<open>The program.\<close> Holon-RPC is JSON-RPC 2.0 over websockets, with calls in both directions.
  \<^verbatim>\<open>pkg/holonrpc\<close> holds a standalone server (\<^verbatim>\<open>server.go\<close>, with the routing between its clients
  in \<^verbatim>\<open>routing.go\<close>), a client that may reconnect by itself (\<^verbatim>\<open>client.go\<close>) and their envelopes
  (\<^verbatim>\<open>types.go\<close>). \<^verbatim>\<open>pkg/transport/wsweb.go\<close> is a second implementation, a bridge that mounts on an
  HTTP server for browsers. Every one of them keeps a table of the calls it waits for, keyed by
  identifier; a read loop hands each frame to that table, when it is a response, or to a
  goroutine that runs a handler and answers, when it is a request. The rest of \<^verbatim>\<open>pkg/transport\<close>
  makes listeners from URIs, which \<^verbatim>\<open>pkg/serve\<close> and \<^verbatim>\<open>cmd/echo-server\<close> give to a gRPC server;
  \<^verbatim>\<open>pkg/grpcclient\<close> and \<^verbatim>\<open>cmd/echo-client\<close> dial such servers, over a socket or over the standard
  input and output of a child process they start.

  \<^bold>\<open>The theories.\<close> Definitions come first, one theory per part of the code, and a theory of
  properties follows each group.

  \<^item> \<open>GoPrelude\<close>: what Go's library does to strings and maps: \<open>TrimSpace\<close>, prefixes, decimal
    numbers, \<^verbatim>\<open>%q\<close>, and maps as sorted association lists (\<open>mget\<close>, \<open>mput\<close>, \<open>mdel\<close>).
  \<^item> \<open>JsonString\<close>, \<open>Json\<close>: \<^verbatim>\<open>encoding/json\<close> as the code uses it: UTF-8, escaping, a parser
    (\<open>pval\<close>) and a printer (\<open>json_print\<close>) of values \<open>gany\<close>, raw messages, and the round trip.
  \<^item> \<open>RpcTypes\<close>: \<^verbatim>\<open>types.go\<close>. \<open>rpc_message\<close> is \<^verbatim>\<open>rpcMessage\<close>, \<open>response_error\<close> is
    \<^verbatim>\<open>ResponseError\<close>, \<open>gerror\<close> are the Go errors the code makes or tests for.
  \<^item> \<open>Pending\<close>: the table of calls with its channels of one element (the \<^verbatim>\<open>pending\<close> maps), its
    contract as the locale \<open>call_table\<close>, and the interpretation on the model's table, which the
    server and the client use with \<open>rpc_message\<close> and the bridge with \<open>ws_msg\<close>.
  \<^item> \<open>Server\<close>, \<open>Routing\<close>, \<open>Dispatch\<close>: \<^verbatim>\<open>server.go\<close> and \<^verbatim>\<open>routing.go\<close>. The record \<open>server\<close> holds
    the fields of \<^verbatim>\<open>Server\<close>, with the peers on a heap \<open>s_heap\<close> indexed by reference, because a peer
    outlives its entry in \<open>s_peers\<close>. \<open>Dispatch\<close> composes the operations: a \<open>task\<close> is a
    goroutine at a point where it may block, \<open>happen\<close> one event of the environment or of a
    goroutine, \<open>step\<close> and \<open>reach\<close> the runs.
  \<^item> \<open>Steps\<close>: the locales \<open>bounded_system\<close> and \<open>closed_system\<close>, invariants of step relations with
    and without a bound on the number of steps, and \<open>label_simulation\<close>, the simulation of a
    system with labelled steps by a specification.
  \<^item> \<open>ServerInv\<close>, \<open>WorldInv\<close>: the invariants of the server, of its calls and of its goroutines,
    that every event keeps them, and the interpretation of \<open>bounded_system\<close>.
  \<^item> \<open>TypesSpec\<close>, \<open>RoutingSpec\<close>, \<open>ServerSpec\<close>, \<open>DispatchSpec\<close>, \<open>LifeSpec\<close>: properties of envelopes;
    of hints, fan-out and broadcasts; of calls of the server; of the requests it answers; of
    joining, leaving, \<open>Start\<close> and \<open>Close\<close>.
  \<^item> \<open>Client\<close>: \<^verbatim>\<open>client.go\<close>. The record \<open>client\<close> holds the fields of \<^verbatim>\<open>Client\<close>, with the connections
    and the reconnect loops on heaps; \<open>loop_pc\<close> is where a reconnect loop stands.
  \<^item> \<open>ClientInv\<close>, \<open>ClientCalls\<close>: the steps of the client (\<open>c_happen\<close>, \<open>c_step\<close>), its invariants, and
    the interpretations of \<open>closed_system\<close> and \<open>bounded_system\<close>.
  \<^item> \<open>ClientSpec\<close>, \<open>ReconnectSpec\<close>, \<open>ClientRequests\<close>: properties of its calls and connection, of the
    reconnect loop, and of the requests it answers.
  \<^item> \<open>WebBridge\<close>, \<open>WebSpec\<close>, \<open>WebCalls\<close>: \<^verbatim>\<open>wsweb.go\<close>; its properties, among them that it agrees
    with \<^verbatim>\<open>pkg/holonrpc\<close> on the wire and that each can call the other; the steps of a connection
    (\<open>web_happen\<close>, \<open>web_step\<close>) and the invariant of its calls.
  \<^item> \<open>Tracked\<close>: calls that a table of waiting calls holds, for a table with any message type.
  \<^item> \<open>Session\<close>, \<open>SessionSpec\<close>: a client and a server joined by a connection. The record \<open>session\<close>
    holds both programs, the frames in flight in either direction, the goroutines of the server
    and the open calls; \<open>session_step\<close> runs the operations of \<open>Client\<close>, \<open>Server\<close> and \<open>Dispatch\<close> on it.
    The specification \<open>service_step\<close> is a service that keeps a bag of open calls and answers each;
    the invariant \<open>session_inv\<close> follows every call through its request, its handler and its
    response, and the interpretation of \<open>label_simulation\<close> is the refinement.
  \<^item> \<open>Conform\<close>: the type of the frames on the wire (\<open>envelope\<close>), kept by every operation of the
    server and of the client, with two interpretations of \<open>closed_system\<close>.
  \<^item> \<open>Transport\<close>, \<open>TransportSpec\<close>: \<^verbatim>\<open>transport.go\<close> and \<^verbatim>\<open>ws.go\<close>, \<^verbatim>\<open>serve.ParseFlags\<close>, and the
    addresses of the echo commands. \<open>Listen\<close> returns the listener together with the calls it made
    of the operating system, whose answers are the argument \<open>os_env\<close>; the stdio and the websocket
    listener are state machines.
  \<^item> \<open>GrpcDial\<close>: \<^verbatim>\<open>pkg/grpcclient\<close> and the dialling of \<^verbatim>\<open>cmd/echo-client\<close>. The grpc package is the
    argument \<open>grpc\<close>, a function of a target and options; \<open>DialStdio\<close> returns its result with the
    calls it made of the child process (\<open>proc_call\<close>), and \<open>pipe_conn\<close> is \<^verbatim>\<open>pipeConn\<close> with the reader
    that puts the first byte back.
  \<^item> \<open>Commands\<close>, \<open>CommandsSpec\<close>: \<^verbatim>\<open>serve.Run\<close> as a state machine (\<open>run_step\<close>), the echo service with its
    codec, the flags and \<^verbatim>\<open>main\<close> of the echo server and \<^verbatim>\<open>main\<close> of the echo client; what becomes of
    children, streams, addresses, echoes and shutdowns.
  \<^item> This theory: properties that span the server and the client.

  \<^bold>\<open>The properties.\<close> The first ones compose the programs: a call of a client on another through the
  server, of the server on a client, and of a client and the bridge in both directions, from
  \<open>Invoke\<close> through the bytes of every frame to the returned object; and a whole session of client
  and server, any number of calls in any interleaving, which refines a service that answers each
  call with what its handler makes of it, and comes to rest with every call answered.
  Then come the invariants of every reachable state (no call is lost or shared, identifiers are
  fresh, tables agree with connections, no listening socket leaks, every frame written is a
  well-formed envelope), what ends a call (a peer that leaves, a lost connection, \<open>Close\<close>),
  recovery and termination of the reconnect loop, the round trip of envelopes, fan-out under every
  schedule, the tables of requests that are refused and the frames they get, the outcomes of
  handlers, the origins of the bridge, what listeners bind and hand out, and the bounds of the
  reconnect delay. For the commands: the byte stream over the pipes is complete, failed dials leave
  no child, both sides of an address agree, the echo passes for valid UTF-8 and no other message,
  and the server is stopped in order. Some properties state behaviour that departs from the
  documents or from the intent of the code; the manifest lists them as findings.

  \<^bold>\<open>Grain.\<close> An operation of the model is a stretch of code between two points where a goroutine
  can block or be overtaken: a critical section, or several with only private computation between
  them. So \<open>invoke_begin\<close> goes from the entry of \<open>Invoke\<close> to its select and \<open>invoke_end\<close> from the
  branch the select takes to the return; \<open>Start\<close> is a check, a listen and a commit, \<open>Connect\<close> a
  check and what follows the dial, \<open>Close\<close> two halves around its calls on the old connection. Two
  critical sections that are adjacent in the source are one step where no blocking call stands
  between them (the one of \<open>ConnectWithReconnect\<close> and the first of the \<open>Connect\<close> it calls). What
  Go leaves open is an argument or an event: which ready branch a select takes (\<open>wake\<close>,
  \<open>loop_event\<close>), what a write answers (\<open>p_ws\<close>, \<open>n_ws\<close>, \<open>w_ws\<close>), what a dial, an upgrade or a
  listen answers, what a handler returns, the order of the goroutines. The environment may do more
  than a real one: frames may arrive on a connection whose context is cancelled.
  Go iterates over maps in an unspecified order; the model goes in ascending order of keys.

  \<^bold>\<open>Bounds.\<close> Counters of identifiers are 64-bit words; uniqueness is proved for runs of fewer than
  2 to the 64 steps, each of which takes at most one identifier; the runs of a session are bounded
  likewise, and the invariant of frames has no bound. A reconnect loop has a rank of at
  most three, so a closed client's loops end in three of their steps, and four steps bring a lost
  connection back when the dial answers. JSON nests at most 10000 levels, as in \<^verbatim>\<open>encoding/json\<close>.

  \<^bold>\<open>Approximations.\<close> Numbers of JSON are kept as their literals: the rounding of \<^verbatim>\<open>float64\<close> is not
  modelled. \<^verbatim>\<open>%q\<close> and \<^verbatim>\<open>%v\<close>, which occur in error texts only, are exact on printable ASCII and on
  values without nesting. The jitter of the reconnect delay is a rational between -1 and 1 and the
  rounding of the product is truncation. A nil and an empty \<open>json.RawMessage\<close> are both the empty
  string, which the code distinguishes nowhere but in the payload of \<open>WebConn.Invoke\<close>, where
  the argument is an option.

  The session has one connection, requests without routing hints by methods that are not built
  in, and handlers whose outcome is a function of their parameters; the fan-out and the routing
  between peers have properties of their own.

  \<^bold>\<open>Not modelled.\<close> The websocket and HTTP libraries (frames, read limits, the closing handshake), the
  parsing of URLs by \<^verbatim>\<open>net/url\<close> (its result is an argument of \<open>Start\<close> and \<open>Listen\<close>), TLS, and
  logging. Of grpc, what it does with a target, a dialer and a listener is an argument or an
  event: that \<open>GracefulStop\<close> makes \<open>Serve\<close> return is not assumed. \<^verbatim>\<open>transport/mem.go\<close> only forwards to
  bufconn. The flags of the echo client are an argument; the \<^verbatim>\<open>flag\<close> package is modelled for the
  string flags of the echo server.
\<close>

section \<open>The server calls a client\<close>

lemma server_key_wire:
  "wire_raw (next_key s)" "hasID (next_key s)"
  "\<exists>sid. decodeStringID (next_key s) = Inr (CHR ''s'' # sid)"
proof -
  show "\<exists>sid. decodeStringID (next_key s) = Inr (CHR ''s'' # sid)"
    using decodeStringID_makeID [OF server_id_utf8] by (simp add: next_key_def) (simp add: server_id_def)
qed (simp_all add: next_key_def server_id_utf8)

lemma sends_message_frame:
  assumes "sends_message ref m s s'"
  obtains frame where "unmarshalMessage frame = Some m"
    and "p_sent (s_heap s' ref) = p_sent (s_heap s ref) @ [frame]"
  using assms that by (auto simp: sends_message_def upd_peer_def)

lemma registered_sent [simp]: "p_sent (s_heap (registered ref key s) r) = p_sent (s_heap s r)"
  by (simp add: registered_def upd_pend_def upd_peer_def)

text \<open>
  C4: A call of the server on a client, through both programs. The one frame that
  \<open>Server.Invoke\<close> writes to the peer is one that the client reads as a request, accepts the
  identifier of, and hands to the handler registered under the trimmed name with exactly the
  parameters of the caller; the one frame the client writes for the object the handler
  returns is one that the server matches to the call; \<open>Invoke\<close> returns that object, and the
  server's table of calls is what it was before.
\<close>

theorem server_calls_client:
  assumes server: "srv_inv s" "mget (s_peers s) cid = Some ref" "writable ref s"
      "mget (pd_map (peer_pend s ref)) (next_key s) = None"
    and client: "client_writable r c" "mget (k_handlers c) (TrimSpace m) = Some h"
    and m: "TrimSpace m \<notin> {[], ''rpc.heartbeat''}" "utf8_valid m"
    and ps: "wire_any (GObj ps)" "depth (GObj ps) < max_depth"
    and out: "wire_any (GObj out)" "depth (GObj out) < max_depth"
  shows "\<exists>call s1 frame msg reply s2 s3.
    invoke_begin cid m (Some ps) s = (Inr call, s1) \<and>
    p_sent (s_heap s1 ref) = p_sent (s_heap s ref) @ [frame] \<and>
    client_read_frame True frame r c = (Some msg, c) \<and>
    handleRequest r msg c = (Some (h, ps), c) \<and>
    n_sent (k_conns (client_handler_end r (m_id msg) (Inr (Some out)) c) r) = n_sent (k_conns c r) @ [reply] \<and>
    read_frame True reply ref s1 = (None, s2) \<and>
    invoke_end WakeResponse call s2 = Some (Inr out, s3) \<and>
    pd_map (peer_pend s3 ref) = pd_map (peer_pend s ref)"
proof -
  let ?key = "next_key s"
  let ?msg = "request_message ?key m (json_print (GObj ps))"
  have "TrimSpace m \<noteq> []" using m(1) by auto
  note mname = this m(2)
  obtain reply where reply: "unmarshalMessage reply = Some (result_message ?key (json_print (GObj out)))"
    "n_sent (k_conns (client_handler_end r ?key (Inr (Some out)) c) r) = n_sent (k_conns c r) @ [reply]"
    "marshalMessage (result_message ?key (json_print (GObj out))) = Inr reply"
    by (rule client_answers_result [OF client(1) server_key_wire(1,2) out])
  from invoke_answered [OF server(1-3) mname ps server(4) out(1) reply(1)]
  obtain call s1 s2 s3 where i: "invoke_begin cid m (Some ps) s = (Inr call, s1)"
    "sends_message ref ?msg (registered ref ?key s) s1" "read_frame True reply ref s1 = (None, s2)"
    "invoke_end WakeResponse call s2 = Some (decodeResult (json_print (GObj out)), s3)"
    "pd_map (peer_pend s3 ref) = pd_map (peer_pend s ref)" by blast
  obtain frame where frame: "unmarshalMessage frame = Some ?msg"
    "p_sent (s_heap s1 ref) = p_sent (s_heap s ref) @ [frame]"
    by (rule sends_message_frame [OF i(2)]) simp
  obtain sid where "decodeStringID ?key = Inr (CHR ''s'' # sid)" using server_key_wire(3) by blast
  note handled = client_request_handled [OF this m(1) ps(1) client(2) frame(1), of r]
  have "decodeResult (json_print (GObj out)) = Inr out" using decodeResult_print [OF out(1)] by simp
  moreover have "m_id ?msg = ?key" by (simp add: request_message_def)
  ultimately show ?thesis using i frame(2) handled reply(2)
    by (intro exI [of _ call] exI [of _ s1] exI [of _ frame] exI [of _ ?msg] exI [of _ reply] exI [of _ s2]
        exI [of _ s3]) (simp del: json_print.simps)
qed

definition handling :: "nat client" where
  "handling = client_Register ''m'' 5 online"

lemma handling_facts: "client_writable 0 handling" "mget (k_handlers handling) ''m'' = Some 5"
  using online_facts(3,7) by (simp_all add: handling_def client_Register_def client_writable_def)

lemma server_calls_client_witness:
  "\<exists>call s1 frame msg reply s2 s3.
    invoke_begin ''c1'' ''m'' (Some []) two_peers = (Inr call, s1) \<and>
    p_sent (s_heap s1 0) = p_sent (s_heap two_peers 0) @ [frame] \<and>
    handleRequest 0 msg handling = (Some (5, []), handling) \<and>
    read_frame True reply 0 s1 = (None, s2) \<and> invoke_end WakeResponse call s2 = Some (Inr [], s3)"
proof -
  have fresh: "mget (pd_map (peer_pend two_peers 0)) (next_key two_peers) = None"
    by (simp add: two_peers_facts pend_empty_def)
  have m: "TrimSpace ''m'' \<notin> {[], ''rpc.heartbeat''}" and h: "mget (k_handlers handling) (TrimSpace ''m'') = Some 5"
    by (simp_all add: method_m handling_facts)
  from server_calls_client [OF two_peers_inv two_peers_facts(1,2) fresh handling_facts(1) h m method_m(2)
      wire_empty_object wire_empty_object] show ?thesis by blast
qed

section \<open>A client calls the server\<close>

lemma client_sends_frame:
  assumes "client_sends r m c c'"
  obtains frame where "unmarshalMessage frame = Some m"
    and "n_sent (k_conns c' r) = n_sent (k_conns c r) @ [frame]" and "marshalMessage m = Inr frame"
  using assms that by (auto simp: client_sends_def upd_conn_def)

lemma c_registered_sent [simp]: "k_conns (c_registered key c) = k_conns c"
  by (simp add: c_registered_def upd_pending_def)

text \<open>
  A call of a client on the server, through both programs. The one frame that
  \<open>Client.Invoke\<close> writes is one that the server reads as a request and, when it carries no
  routing hints, hands to the handler registered under the trimmed name with exactly the
  parameters of the caller; the one frame the server writes for the object the handler
  returns is one that the client matches to the call; \<open>Invoke\<close> returns that object, and the
  client's table of calls is what it was before.
\<close>

lemma client_calls_server:
  assumes client: "client_inv c" "k_ws c = Some ws" "client_writable ws c"
      "mget (pd_map (k_pend c)) (c_next_key c) = None"
    and server: "writable ref s" "mget (s_handlers s) (TrimSpace m) = Some h"
    and m: "utf8_valid m" "TrimSpace m \<notin> {[], ''rpc.heartbeat'', ''rpc.peers''}" "\<not> HasPrefix ''*.'' (TrimSpace m)"
    and ps: "wire_any (GObj ps)" "depth (GObj ps) < max_depth"
      "mget ps ''_routing'' = None" "mget ps ''_peer'' = None"
    and out: "wire_any (GObj out)" "depth (GObj out) < max_depth"
  shows "\<exists>cl c1 frame msg reply c2 c3.
    client_invoke_begin m (Some ps) c = (Inr cl, c1) \<and>
    n_sent (k_conns c1 ws) = n_sent (k_conns c ws) @ [frame] \<and>
    read_frame True frame ref s = (Some msg, s) \<and>
    handlePeerRequest ref msg s = (Some (HandlerTask ref (m_id msg) h ps), s) \<and>
    p_sent (s_heap (handler_end ref (m_id msg) (Inr (Some out)) s) ref) = p_sent (s_heap s ref) @ [reply] \<and>
    client_read_frame True reply ws c1 = (None, c2) \<and>
    client_invoke_end WakeResponse cl c2 = Some (Inr out, c3) \<and>
    pd_map (k_pend c3) = pd_map (k_pend c)"
proof -
  let ?key = "c_next_key c"
  let ?msg = "request_message ?key m (json_print (GObj ps))"
  have "TrimSpace m \<noteq> []" using m(2) by auto
  note mname = this m(1)
  obtain reply where reply: "unmarshalMessage reply = Some (result_message ?key (json_print (GObj out)))"
    "p_sent (s_heap (handler_end ref ?key (Inr (Some out)) s) ref) = p_sent (s_heap s ref) @ [reply]"
    by (rule sends_message_frame [OF sendPeerResult_message [OF server(1) c_next_key_wire(1) out]])
      (simp add: handler_end_def c_next_key_wire)
  from client_invoke_answered [OF client(1-3) mname ps(1,2) client(4) out(1) reply(1)]
  obtain cl c1 c2 c3 where i: "client_invoke_begin m (Some ps) c = (Inr cl, c1)"
    "client_sends ws ?msg (c_registered ?key c) c1" "client_read_frame True reply ws c1 = (None, c2)"
    "client_invoke_end WakeResponse cl c2 = Some (decodeResult (json_print (GObj out)), c3)"
    "pd_map (k_pend c3) = pd_map (k_pend c)" by blast
  obtain frame where frame: "unmarshalMessage frame = Some ?msg"
    "n_sent (k_conns c1 ws) = n_sent (k_conns c ws) @ [frame]"
    by (rule client_sends_frame [OF i(2)]) simp
  from request_handled [OF server(1) c_next_key_wire(1,2) m ps server(2) frame(1) out]
  have h: "read_frame True frame ref s = (Some ?msg, s)"
    "handlePeerRequest ref ?msg s = (Some (HandlerTask ref ?key h ps), s)"
    by blast+
  have "decodeResult (json_print (GObj out)) = Inr out" using decodeResult_print [OF out(1)] by simp
  moreover have "m_id ?msg = ?key" by (simp add: request_message_def)
  ultimately show ?thesis using i frame(2) h reply(2)
    by (intro exI [of _ cl] exI [of _ c1] exI [of _ frame] exI [of _ ?msg] exI [of _ reply] exI [of _ c2]
        exI [of _ c3]) (simp del: json_print.simps)
qed

section \<open>A client calls a client through the server\<close>

lemma wire_mdel:
  assumes "wire_any (GObj ps)" and "depth (GObj ps) < max_depth"
  shows "wire_any (GObj (mdel k ps))" and "depth (GObj (mdel k ps)) < max_depth"
proof -
  have "members_depth (mdel k ps) \<le> members_depth ps" by (induction ps) (auto simp: mdel_def)
  moreover have "wf_members ps \<Longrightarrow> wf_members (mdel k ps)" by (induction ps) (auto simp: mdel_def)
  ultimately show "wire_any (GObj (mdel k ps))" and "depth (GObj (mdel k ps)) < max_depth"
    using assms by (auto simp: wire_any_def wf_map_mdel)
qed

lemma client_ids_nonempty:
  assumes "srv_inv s" and "mget (s_peers s) cid = Some ref"
  shows "cid \<noteq> []"
proof -
  from assms have "p_id (s_heap s ref) = cid" "ref < s_next_ref s" by (auto simp: srv_inv_def peers_ok_def)
  with assms(1) have "cid = client_id (of_nat (Suc ref))" by (auto simp: srv_inv_def ids_ok_def)
  then show ?thesis by (simp add: client_id_def)
qed

text \<open>A request with the hint \<open>_peer\<close> only, by a name that is not built in.\<close>

lemma peer_request:
  assumes "TrimSpace m \<notin> {[], ''rpc.heartbeat'', ''rpc.peers''}" and "\<not> HasPrefix ''*.'' (TrimSpace m)"
    and "wire_any (GObj ps)" and "mget ps ''_routing'' = None"
    and "mget ps ''_peer'' = Some (GStr raw)" and "TrimSpace raw = cid" and "cid \<noteq> []"
    and "mget (s_peers s) cid = Some ref"
    and "invoke_begin cid (TrimSpace m) (Some (mdel ''_peer'' ps)) s = (Inr call, s1)"
  shows "handlePeerRequest caller (request_message rid m (json_print (GObj ps))) s =
    (Some (RouteTask caller rid (TrimSpace m) \<lparr>targetPeerID = cid, mode = []\<rparr> (RouteCall call)), s1)"
proof -
  have fan: "fan_name (TrimSpace m) = TrimSpace m" using assms(2) by (simp add: fan_name_def)
  have hints: "\<not> bad_routing ps" "\<not> bad_peer ps" "hinted ps ''_routing'' = []" "hinted ps ''_peer'' = cid"
    using assms(4-7) by (auto simp: bad_routing_def bad_peer_def hinted_def)
  have "mdel ''_routing'' ps = ps"
    using assms(4) by (auto simp: mdel_def mget_def map_of_eq_None_iff filter_id_conv image_iff)
  then have "stripped ps = mdel ''_peer'' ps" by (simp add: stripped_def)
  with fan hints have "parseRouteHints (TrimSpace m) ps =
      Inr (TrimSpace m, False, mdel ''_peer'' ps, \<lparr>targetPeerID = cid, mode = []\<rparr>)"
    using parseRouteHints_eq [of "TrimSpace m" ps] assms(1,2) by (simp add: routeModeFullBroadcast_def)
  then show ?thesis
    using assms(1,7-9) decodeParams_print [OF assms(3)]
    by (simp add: handlePeerRequest_def Let_def request_message_def empty_message_def routePeerRequest_def
        peerExists_def)
qed

text \<open>The part of the server and of the client that is called.\<close>

lemma relayed_call:
  assumes server: "srv_inv s" "writable refA s" "mget (s_peers s) cid = Some refB" "writable refB s" "refA \<noteq> refB"
      "mget (pd_map (peer_pend s refB)) (next_key s) = None"
    and b: "client_writable r d" "mget (k_handlers d) (TrimSpace m) = Some h"
    and m: "utf8_valid (TrimSpace m)" "TrimSpace m \<notin> {[], ''rpc.heartbeat'', ''rpc.peers''}"
      "\<not> HasPrefix ''*.'' (TrimSpace m)"
    and ps: "wire_any (GObj ps)" "depth (GObj ps) < max_depth" "mget ps ''_routing'' = None"
      "mget ps ''_peer'' = Some (GStr raw)" "TrimSpace raw = cid"
    and out: "wire_any (GObj out)" "depth (GObj out) < max_depth" and rid: "wire_raw rid" "hasID rid"
  obtains task s1 frame2 msg2 reply2 s2 s3 reply1 where
    "handlePeerRequest refA (request_message rid m (json_print (GObj ps))) s = (Some task, s1)"
    "p_sent (s_heap s1 refB) = p_sent (s_heap s refB) @ [frame2]"
    "client_read_frame True frame2 r d = (Some msg2, d)"
    "handleRequest r msg2 d = (Some (h, mdel ''_peer'' ps), d)"
    "n_sent (k_conns (client_handler_end r (m_id msg2) (Inr (Some out)) d) r) = n_sent (k_conns d r) @ [reply2]"
    "read_frame True reply2 refB s1 = (None, s2)"
    "run_task (Woken WakeResponse) task s2 = Some (None, s3)"
    "p_sent (s_heap s3 refA) = p_sent (s_heap s refA) @ [reply1]"
    "unmarshalMessage reply1 = Some (result_message rid (json_print (GObj out)))"
proof -
  let ?kb = "next_key s" and ?ps = "mdel ''_peer'' ps" and ?m = "TrimSpace m"
  let ?hints = "\<lparr>targetPeerID = cid, mode = []\<rparr>" and ?msg2 = "request_message ?kb ?m (json_print (GObj ?ps))"
  have name: "TrimSpace ?m \<noteq> []" using m(2) by auto
  note ps2 = wire_mdel [OF ps(1,2), of "''_peer''"]
  obtain reply2 where r2: "unmarshalMessage reply2 = Some (result_message ?kb (json_print (GObj out)))"
    "n_sent (k_conns (client_handler_end r ?kb (Inr (Some out)) d) r) = n_sent (k_conns d r) @ [reply2]"
    "marshalMessage (result_message ?kb (json_print (GObj out))) = Inr reply2"
    by (rule client_answers_result [OF b(1) server_key_wire(1,2) out])
  from invoke_answered [OF server(1,3,4) name m(1) ps2 server(6) out(1) r2(1)] decodeResult_print [OF out(1)]
  obtain call s1 s2 s3 where i: "invoke_begin cid ?m (Some ?ps) s = (Inr call, s1)"
    "sends_message refB ?msg2 (registered refB ?kb s) s1" "read_frame True reply2 refB s1 = (None, s2)"
    "invoke_end WakeResponse call s2 = Some (Inr out, s3)" "writable refA s3"
    "p_sent (s_heap s3 refA) = p_sent (s_heap s refA)"
    using server(2,5) by (auto simp del: json_print.simps)
  obtain frame2 where f2: "unmarshalMessage frame2 = Some ?msg2"
    "p_sent (s_heap s1 refB) = p_sent (s_heap s refB) @ [frame2]"
    by (rule sends_message_frame [OF i(2)]) simp
  obtain sid where sid: "decodeStringID ?kb = Inr (CHR ''s'' # sid)" using server_key_wire(3) by blast
  note h2 = client_request_handled [OF sid _ ps2(1) _ f2(1), of d h r]
  let ?s4 = "route_call_end refA rid ?m ?hints (Inr out) s3"
  have s4: "sends_message refA (result_message rid (json_print (GObj out))) s3 ?s4"
    using sendPeerResult_message [OF i(5) rid(1) out] rid(2)
    by (simp add: route_call_end_def routeModeBroadcastResponse_def del: json_print.simps)
  obtain reply1 where r1: "unmarshalMessage reply1 = Some (result_message rid (json_print (GObj out)))"
    "p_sent (s_heap ?s4 refA) = p_sent (s_heap s refA) @ [reply1]"
    by (rule sends_message_frame [OF s4]) (simp add: i(6))
  note route = peer_request [OF m(2,3) ps(1,3-5) client_ids_nonempty [OF server(1,3)] server(3) i(1)]
  show thesis
  proof (rule that [OF route f2(2)])
    show "run_task (Woken WakeResponse) (RouteTask refA rid ?m ?hints (RouteCall call)) s2 = Some (None, ?s4)"
      using i(4) by (simp add: ctx_ready_def)
    have "m_id ?msg2 = ?kb" by (simp add: request_message_def)
    with r2(2) show "n_sent (k_conns (client_handler_end r (m_id ?msg2) (Inr (Some out)) d) r) = n_sent (k_conns d r) @ [reply2]"
      by simp
  qed (use h2 m(2) b(2) i(3) r1 in simp_all)
qed

text \<open>
  C1: A client calls another client through the server, through all three programs. Client A
  calls a method with the hint \<open>_peer\<close> naming a connected client B; the server sends B one
  frame, from which B's handler of that name gets the parameters of A without the hint;
  B's answer makes the routing goroutine of the server end with one frame to A; and A's
  \<open>Invoke\<close> returns the object that B's handler returned.
\<close>

theorem client_calls_client:
  assumes a: "client_inv c" "k_ws c = Some ws" "client_writable ws c" "mget (pd_map (k_pend c)) (c_next_key c) = None"
    and server: "srv_inv s" "writable refA s" "mget (s_peers s) cid = Some refB" "writable refB s" "refA \<noteq> refB"
      "mget (pd_map (peer_pend s refB)) (next_key s) = None"
    and b: "client_writable r d" "mget (k_handlers d) (TrimSpace m) = Some h"
    and m: "utf8_valid m" "utf8_valid (TrimSpace m)" "TrimSpace m \<notin> {[], ''rpc.heartbeat'', ''rpc.peers''}"
      "\<not> HasPrefix ''*.'' (TrimSpace m)"
    and ps: "wire_any (GObj ps)" "depth (GObj ps) < max_depth" "mget ps ''_routing'' = None"
      "mget ps ''_peer'' = Some (GStr raw)" "TrimSpace raw = cid"
    and out: "wire_any (GObj out)" "depth (GObj out) < max_depth"
  shows "\<exists>cl c1 frame1 msg1 task s1 frame2 msg2 reply2 s2 s3 reply1 c2 c3.
    client_invoke_begin m (Some ps) c = (Inr cl, c1) \<and>
    n_sent (k_conns c1 ws) = n_sent (k_conns c ws) @ [frame1] \<and>
    read_frame True frame1 refA s = (Some msg1, s) \<and> handlePeerRequest refA msg1 s = (Some task, s1) \<and>
    p_sent (s_heap s1 refB) = p_sent (s_heap s refB) @ [frame2] \<and>
    client_read_frame True frame2 r d = (Some msg2, d) \<and>
    handleRequest r msg2 d = (Some (h, mdel ''_peer'' ps), d) \<and>
    n_sent (k_conns (client_handler_end r (m_id msg2) (Inr (Some out)) d) r) = n_sent (k_conns d r) @ [reply2] \<and>
    read_frame True reply2 refB s1 = (None, s2) \<and>
    run_task (Woken WakeResponse) task s2 = Some (None, s3) \<and>
    p_sent (s_heap s3 refA) = p_sent (s_heap s refA) @ [reply1] \<and>
    client_read_frame True reply1 ws c1 = (None, c2) \<and>
    client_invoke_end WakeResponse cl c2 = Some (Inr out, c3)"
proof -
  let ?ka = "c_next_key c" and ?msg1 = "request_message (c_next_key c) m (json_print (GObj ps))"
  obtain task s1 frame2 msg2 reply2 s2 s3 reply1 where relay:
    "handlePeerRequest refA ?msg1 s = (Some task, s1)"
    "p_sent (s_heap s1 refB) = p_sent (s_heap s refB) @ [frame2]"
    "client_read_frame True frame2 r d = (Some msg2, d)"
    "handleRequest r msg2 d = (Some (h, mdel ''_peer'' ps), d)"
    "n_sent (k_conns (client_handler_end r (m_id msg2) (Inr (Some out)) d) r) = n_sent (k_conns d r) @ [reply2]"
    "read_frame True reply2 refB s1 = (None, s2)" "run_task (Woken WakeResponse) task s2 = Some (None, s3)"
    "p_sent (s_heap s3 refA) = p_sent (s_heap s refA) @ [reply1]"
    and reply1: "unmarshalMessage reply1 = Some (result_message ?ka (json_print (GObj out)))"
    by (rule relayed_call [OF server b m(2-4) ps out c_next_key_wire(1,2)])
  have name: "TrimSpace m \<noteq> []" and "m \<noteq> []" using m(3) by auto
  from client_invoke_answered [OF a(1-3) name m(1) ps(1,2) a(4) out(1) reply1] decodeResult_print [OF out(1)]
  obtain cl c1 c2 c3 where j: "client_invoke_begin m (Some ps) c = (Inr cl, c1)"
    "client_sends ws ?msg1 (c_registered ?ka c) c1" "client_read_frame True reply1 ws c1 = (None, c2)"
    "client_invoke_end WakeResponse cl c2 = Some (Inr out, c3)" by (auto simp del: json_print.simps)
  obtain frame1 where f1: "unmarshalMessage frame1 = Some ?msg1"
    "n_sent (k_conns c1 ws) = n_sent (k_conns c ws) @ [frame1]"
    by (rule client_sends_frame [OF j(2)]) simp
  have "read_frame True frame1 refA s = (Some ?msg1, s)"
    using f1(1) \<open>m \<noteq> []\<close> by (simp add: read_frame_def request_message_def empty_message_def del: json_print.simps)
  with relay j f1(2) show ?thesis by blast
qed

lemma client_calls_client_witness:
  "\<exists>cl c1 msg1 task s1 msg2 s2 s3 reply1 c2 c3.
    client_invoke_begin ''m'' (Some [(''_peer'', GStr ''c2'')]) online = (Inr cl, c1) \<and>
    handlePeerRequest 0 msg1 two_peers = (Some task, s1) \<and>
    handleRequest 0 msg2 handling = (Some (5, []), handling) \<and>
    run_task (Woken WakeResponse) task s2 = Some (None, s3) \<and>
    client_read_frame True reply1 0 c1 = (None, c2) \<and>
    client_invoke_end WakeResponse cl c2 = Some (Inr [], c3)"
proof -
  let ?ps = "[(''_peer'', GStr ''c2'')]"
  have names: "utf8_valid ''_peer''" "utf8_valid ''c2''" by code_simp+
  have c2: "TrimSpace ''c2'' = ''c2''"
    using TrimSpace_solid(1) [of "CHR ''c''" "CHR ''2''" "[]"] by (simp add: solid_def)
  have ps: "wire_any (GObj ?ps)" "depth (GObj ?ps) < max_depth" "mget ?ps ''_routing'' = None"
    "mget ?ps ''_peer'' = Some (GStr ''c2'')"
    using names by (simp_all add: wire_any_def max_depth_def gomap)
  have a: "mget (pd_map (k_pend online)) (c_next_key online) = None"
    by (simp add: online_facts pend_empty_def)
  have peers: "mget (s_peers two_peers) ''c2'' = Some 1" by (simp add: two_peers_map)
  have w: "writable 1 two_peers" "peer_pend two_peers 1 = pend_empty"
    by (simp_all add: two_peers_def accept_peer_def NewServer_def Let_def new_peer_def queue_size_def
        writable_def peer_pend_def)
  then have fresh: "mget (pd_map (peer_pend two_peers 1)) (next_key two_peers) = None" by (simp add: pend_empty_def)
  have m: "utf8_valid (TrimSpace ''m'')" "TrimSpace ''m'' \<notin> {[], ''rpc.heartbeat'', ''rpc.peers''}"
    "\<not> HasPrefix ''*.'' (TrimSpace ''m'')" "mget (k_handlers handling) (TrimSpace ''m'') = Some 5"
    using method_m by (simp_all add: handling_facts HasPrefix_def)
  have "(0::nat) \<noteq> 1" by simp
  from client_calls_client [OF online_facts(1-3) a two_peers_inv two_peers_facts(2) peers w(1) this fresh
      handling_facts(1) m(4) method_m(2) m(1-3) ps c2 wire_empty_object]
  show ?thesis by (simp add: mdel_def) blast
qed

end
